(* ===== verification/Go_Prelude.thy ===== *)
theory Go_Prelude
  imports Main "HOL-Library.Word"
begin

text \<open>
  Shared vocabulary of the development: bytes, the outcome of a Go call, Go error values with
  the chain walked by \<open>errors.Is\<close>/\<open>errors.As\<close>, the platforms selected by build tags, and the
  generic lemmas on lists that the components use.

  A Go call either returns (\<open>Ret\<close>), panics (\<open>Panic\<close>, with the reason) or does not return
  (\<open>Diverge\<close>). An error that Go returns is an ordinary value of type \<open>goerror\<close>; a nil error
  is \<open>None\<close>.
\<close>

type_synonym byte = "8 word"

named_theorems go_simps \<open>unfolding rules of the Go primitives\<close>

section \<open>Outcomes\<close>

datatype panic =
    IndexOutOfRange
  | SliceOutOfRange
  | NilDereference
  | BadTypeAssertion
  | BadAddr
  | Explicit string

datatype 'a outcome = Ret 'a | Panic panic | Diverge

fun obind :: "'a outcome \<Rightarrow> ('a \<Rightarrow> 'b outcome) \<Rightarrow> 'b outcome" where
  "obind (Ret x) f = f x"
| "obind (Panic p) f = Panic p"
| "obind Diverge f = Diverge"

lemma obind_eq_Ret:
  "obind m f = Ret y \<longleftrightarrow> (\<exists>x. m = Ret x \<and> f x = Ret y)"
  by (cases m) auto

lemma obind_assoc: "obind (obind m f) g = obind m (\<lambda>x. obind (f x) g)"
  by (cases m) auto

lemma obind_Ret_right [simp]: "obind m Ret = m"
  by (cases m) auto

definition returns :: "'a outcome \<Rightarrow> bool" where
  "returns m \<longleftrightarrow> (case m of Ret _ \<Rightarrow> True | _ \<Rightarrow> False)"

lemma returns_simps [simp]:
  "returns (Ret x)" "\<not> returns (Panic p)" "\<not> returns Diverge"
  by (simp_all add: returns_def)

lemma returns_iff: "returns m \<longleftrightarrow> (\<exists>x. m = Ret x)"
  by (cases m) auto

text \<open>Indexing and index assignment of a Go slice of values: out of range panics.\<close>

definition idx :: "'a list \<Rightarrow> nat \<Rightarrow> 'a outcome" where
  "idx xs i = (if i < length xs then Ret (xs ! i) else Panic IndexOutOfRange)"

definition upd :: "'a list \<Rightarrow> nat \<Rightarrow> 'a \<Rightarrow> 'a list outcome" where
  "upd xs i x = (if i < length xs then Ret (xs[i := x]) else Panic IndexOutOfRange)"

lemma idx_Ret [simp]: "i < length xs \<Longrightarrow> idx xs i = Ret (xs ! i)"
  by (simp add: idx_def)

lemma upd_Ret [simp]: "i < length xs \<Longrightarrow> upd xs i x = Ret (xs[i := x])"
  by (simp add: upd_def)

lemma idx_eq_Ret: "idx xs i = Ret x \<longleftrightarrow> i < length xs \<and> x = xs ! i"
  by (auto simp: idx_def)

lemma upd_eq_Ret: "upd xs i x = Ret ys \<longleftrightarrow> i < length xs \<and> ys = xs[i := x]"
  by (auto simp: upd_def)

section \<open>Errors\<close>

text \<open>
  The error values the program creates, compares or wraps. \<open>Errno n\<close> is a \<open>syscall.Errno\<close>
  other than the three the program names; \<open>SyscallError\<close> is \<open>*os.SyscallError\<close>; \<open>Wrapped\<close> is
  any other error with an \<open>Unwrap\<close> method (\<open>*net.OpError\<close>, \<open>fmt.Errorf\<close> with a \<open>w\<close> verb);
  \<open>Opaque\<close> is an error with neither.
\<close>

datatype goerror =
    ErrBindAlreadyOpen
  | ErrReadBufferTooShort
  | ErrNoNetwork
  | ErrWrongEndpointType
  | ErrSinglePacketReadUnsupported
  | ErrBatchTooLarge
  | ErrSplitOverflow
  | NetErrClosed
  | OsErrInvalid
  | IoErrNoProgress
  | IoErrShortBuffer
  | EAFNOSUPPORT
  | EADDRINUSE
  | EIO
  | EINVAL
  | Errno int
  | SyscallError string goerror
  | ErrUDPGSODisabled string "goerror option"
  | Wrapped string goerror
  | Opaque string

fun errors_Unwrap :: "goerror \<Rightarrow> goerror option" where
  "errors_Unwrap (SyscallError _ e) = Some e"
| "errors_Unwrap (ErrUDPGSODisabled _ e) = e"
| "errors_Unwrap (Wrapped _ e) = Some e"
| "errors_Unwrap _ = None"

lemma errors_Unwrap_size [termination_simp]:
  "errors_Unwrap e = Some e' \<Longrightarrow> size e' < size e"
  by (cases e rule: errors_Unwrap.cases) auto

text \<open>\<open>errors.Is\<close> compares along the chain of \<open>Unwrap\<close>.\<close>

fun errors_Is :: "goerror \<Rightarrow> goerror \<Rightarrow> bool" where
  "errors_Is e t =
     (e = t \<or> (case errors_Unwrap e of None \<Rightarrow> False | Some e' \<Rightarrow> errors_Is e' t))"

declare errors_Is.simps [simp del]

text \<open>\<open>errors.As\<close> with a \<open>*os.SyscallError\<close> target: the first of the chain, as its \<open>Err\<close>.\<close>

fun errors_As_SyscallError :: "goerror \<Rightarrow> goerror option" where
  "errors_As_SyscallError e =
     (case e of SyscallError _ e' \<Rightarrow> Some e'
      | _ \<Rightarrow> (case errors_Unwrap e of None \<Rightarrow> None | Some e' \<Rightarrow> errors_As_SyscallError e'))"

declare errors_As_SyscallError.simps [simp del]

lemma errors_Is_refl [simp]: "errors_Is e e"
  by (simp add: errors_Is.simps [of e e])

lemma errors_Is_Wrapped [simp]:
  "errors_Is (Wrapped s e) t \<longleftrightarrow> Wrapped s e = t \<or> errors_Is e t"
  by (simp add: errors_Is.simps [of "Wrapped s e"])

lemma errors_Is_SyscallError [simp]:
  "errors_Is (SyscallError s e) t \<longleftrightarrow> SyscallError s e = t \<or> errors_Is e t"
  by (simp add: errors_Is.simps [of "SyscallError s e"])

section \<open>Platforms\<close>

text \<open>
  \<open>runtime.GOOS\<close>. The build tag \<open>linux\<close> is also satisfied on Android, so a file
  \<open>x_linux.go\<close> is compiled for both unless its tag says \<open>!android\<close>.
\<close>

datatype goos = Linux | Android | Windows | FreeBSD | OpenBSD | Wasm | OtherOS

definition linux_tag :: "goos \<Rightarrow> bool" where
  "linux_tag p \<longleftrightarrow> p = Linux \<or> p = Android"

section \<open>Lists\<close>

lemma nth_list_update_other [simp]: "i \<noteq> j \<Longrightarrow> xs[i := x] ! j = xs ! j"
  by simp

lemma take_le_length [simp]: "n \<le> length xs \<Longrightarrow> length (take n xs) = n"
  by simp

lemma sum_list_snoc [simp]: "sum_list (xs @ [x]) = sum_list xs + (x :: nat)"
  by simp

text \<open>A list at least as long as the given lengths together starts with pieces of those lengths.\<close>

lemma split_lengths:
  "sum_list ns \<le> length xs \<Longrightarrow> \<exists>ps r. xs = concat ps @ r \<and> map length ps = ns"
proof (induction ns arbitrary: xs)
  case (Cons n ns)
  then obtain ps r where "drop n xs = concat ps @ r" "map length ps = ns"
    by (metis add_le_imp_le_diff add.commute length_drop sum_list.Cons)
  moreover have "xs = take n xs @ drop n xs" by simp
  ultimately have "xs = concat (take n xs # ps) @ r" "map length (take n xs # ps) = n # ns"
    using Cons.prems by simp_all
  then show ?case by (intro exI conjI)
qed simp

lemma length_concat_sum: "length (concat xss) = sum_list (map length xss)"
  by (induction xss) auto

end
