(* ===== verification/Go_Memory.thy ===== *)
theory Go_Memory
  imports Go_Prelude
begin

text \<open>
  Go's byte slices. Packet buffers are slices into a store of arrays, because the code writes
  through them in place and the caller sees the effect: \<open>append\<close> within capacity, \<open>copy\<close> and
  re-slicing act on the shared array. Control buffers (the \<open>OOB\<close> field of a message,
  \<open>StdNetEndpoint.src\<close>, the \<open>IP\<close> field of a pooled \<open>net.UDPAddr\<close>) are never shared, so they are
  owned buffers: the whole array up to its capacity and the current length, re-sliced from the
  start only, which keeps the stale bytes beyond the length.
\<close>

section \<open>Slices into a store\<close>

record store =
  arrs :: "nat \<Rightarrow> byte list"
  brk :: nat

record slice =
  sarr :: nat
  soff :: nat
  slen :: nat
  scap :: nat

definition nil_slice :: slice where
  "nil_slice = \<lparr>sarr = 0, soff = 0, slen = 0, scap = 0\<rparr>"

definition sl_wf :: "store \<Rightarrow> slice \<Rightarrow> bool" where
  "sl_wf h s \<longleftrightarrow> slen s \<le> scap s \<and> soff s + scap s \<le> length (arrs h (sarr s))"

definition sl_read :: "store \<Rightarrow> slice \<Rightarrow> byte list" where
  "sl_read h s = take (slen s) (drop (soff s) (arrs h (sarr s)))"

definition sl_reslice :: "slice \<Rightarrow> nat \<Rightarrow> nat \<Rightarrow> slice outcome" where
  "sl_reslice s a b =
     (if a \<le> b \<and> b \<le> scap s
      then Ret (s\<lparr>soff := soff s + a, slen := b - a, scap := scap s - a\<rparr>)
      else Panic SliceOutOfRange)"

definition overwrite :: "'a list \<Rightarrow> nat \<Rightarrow> 'a list \<Rightarrow> 'a list" where
  "overwrite xs off ys = take off xs @ ys @ drop (off + length ys) xs"

definition sl_write :: "store \<Rightarrow> nat \<Rightarrow> nat \<Rightarrow> byte list \<Rightarrow> store" where
  "sl_write h a off bs = h\<lparr>arrs := (arrs h)(a := overwrite (arrs h a) off bs)\<rparr>"

text \<open>\<open>copy(dst, src)\<close>: moves the shorter of the two lengths and reports it.\<close>

definition sl_copy :: "store \<Rightarrow> slice \<Rightarrow> slice \<Rightarrow> store \<times> nat" where
  "sl_copy h dst src =
     (let n = min (slen dst) (slen src)
      in (sl_write h (sarr dst) (soff dst) (take n (sl_read h src)), n))"

text \<open>
  \<open>append(s, src...)\<close>: in place while the capacity lasts, else into a fresh array.
\<close>

definition sl_append :: "store \<Rightarrow> slice \<Rightarrow> slice \<Rightarrow> store \<times> slice" where
  "sl_append h s src =
     (let bs = sl_read h src in
      if slen s + slen src \<le> scap s
      then (sl_write h (sarr s) (soff s + slen s) bs, s\<lparr>slen := slen s + slen src\<rparr>)
      else (h\<lparr>arrs := (arrs h)(brk h := sl_read h s @ bs), brk := Suc (brk h)\<rparr>,
            \<lparr>sarr = brk h, soff = 0, slen = slen s + slen src, scap = slen s + slen src\<rparr>))"

lemma length_overwrite [simp]:
  "off + length ys \<le> length xs \<Longrightarrow> length (overwrite xs off ys) = length xs"
  by (simp add: overwrite_def)

lemma overwrite_Nil [simp]: "overwrite xs off [] = xs"
  by (simp add: overwrite_def)

lemma overwrite_mid:
  "length p = n \<Longrightarrow> length x = length y \<Longrightarrow> overwrite (p @ x @ s) n y = p @ y @ s"
  by (simp add: overwrite_def)

lemma take_overwrite_before: "n \<le> off \<Longrightarrow> off \<le> length xs \<Longrightarrow> take n (overwrite xs off ys) = take n xs"
  by (simp add: overwrite_def min_def)

lemma read_overwrite_before:
  "a + n \<le> off \<Longrightarrow> off \<le> length xs \<Longrightarrow>
   take n (drop a (overwrite xs off ys)) = take n (drop a xs)"
  by (simp add: take_drop take_overwrite_before add.commute)

lemma read_overwrite_at:
  "off \<le> length xs \<Longrightarrow> take (length ys) (drop off (overwrite xs off ys)) = ys"
  by (simp add: overwrite_def)

lemma read_overwrite_extend:
  assumes "a + n = off" "off \<le> length xs"
  shows "take (n + length ys) (drop a (overwrite xs off ys)) = take n (drop a xs) @ ys"
proof -
  have "take (n + length ys) (drop a (overwrite xs off ys)) =
        take n (drop a (overwrite xs off ys)) @ take (length ys) (drop off (overwrite xs off ys))"
    using assms by (simp add: take_add add.commute)
  then show ?thesis
    using assms by (simp add: read_overwrite_before read_overwrite_at)
qed

lemma sl_write_arrs [simp]:
  "arrs (sl_write h a off bs) = (arrs h)(a := overwrite (arrs h a) off bs)"
  by (simp add: sl_write_def)

lemma length_sl_read [simp]: "sl_wf h s \<Longrightarrow> length (sl_read h s) = slen s"
  by (auto simp: sl_wf_def sl_read_def)

lemma sl_read_other [simp]:
  "sarr s \<noteq> a \<Longrightarrow> sl_read (sl_write h a off bs) s = sl_read h s"
  by (simp add: sl_read_def)

lemma sl_wf_write [simp]:
  "off + length bs \<le> length (arrs h a) \<Longrightarrow> sl_wf (sl_write h a off bs) s \<longleftrightarrow> sl_wf h s"
  by (auto simp: sl_wf_def)

lemma sl_read_write_beyond:
  "sl_wf h s \<Longrightarrow> soff s + slen s \<le> off \<Longrightarrow> off \<le> length (arrs h (sarr s)) \<Longrightarrow>
   sl_read (sl_write h (sarr s) off bs) s = sl_read h s"
  by (simp add: sl_read_def read_overwrite_before)

lemma sl_read_extend:
  assumes "sl_wf h s" "sarr t = sarr s" "soff t = soff s" "slen t = slen s + length bs"
  shows "sl_read (sl_write h (sarr s) (soff s + slen s) bs) t = sl_read h s @ bs"
  using assms read_overwrite_extend [of "soff s" "slen s" "soff s + slen s" "arrs h (sarr s)" bs]
  by (simp add: sl_read_def sl_wf_def)

section \<open>Owned control buffers\<close>

record cbuf =
  cdata :: "byte list"
  clen :: nat

definition cb_wf :: "cbuf \<Rightarrow> bool" where
  "cb_wf c \<longleftrightarrow> clen c \<le> length (cdata c)"

definition cb_cap :: "cbuf \<Rightarrow> nat" where
  "cb_cap c = length (cdata c)"

definition cb_make :: "nat \<Rightarrow> nat \<Rightarrow> cbuf" where
  "cb_make n c = \<lparr>cdata = replicate c 0, clen = n\<rparr>"

definition cb_bytes :: "cbuf \<Rightarrow> byte list" where
  "cb_bytes c = take (clen c) (cdata c)"

definition cb_reslice :: "cbuf \<Rightarrow> nat \<Rightarrow> cbuf outcome" where
  "cb_reslice c n = (if n \<le> cb_cap c then Ret (c\<lparr>clen := n\<rparr>) else Panic SliceOutOfRange)"

text \<open>\<open>copy(c[off:], bs)\<close>.\<close>

definition cb_copy_at :: "cbuf \<Rightarrow> nat \<Rightarrow> byte list \<Rightarrow> cbuf" where
  "cb_copy_at c off bs = c\<lparr>cdata := overwrite (cdata c) off (take (clen c - off) bs)\<rparr>"

definition cb_append :: "cbuf \<Rightarrow> byte list \<Rightarrow> cbuf" where
  "cb_append c bs =
     (if clen c + length bs \<le> cb_cap c
      then \<lparr>cdata = overwrite (cdata c) (clen c) bs, clen = clen c + length bs\<rparr>
      else \<lparr>cdata = cb_bytes c @ bs, clen = clen c + length bs\<rparr>)"

lemma cb_make_simps [simp]:
  "clen (cb_make n c) = n" "cb_cap (cb_make n c) = c" "cdata (cb_make n c) = replicate c 0"
  by (simp_all add: cb_make_def cb_cap_def)

lemma length_cb_bytes [simp]: "cb_wf c \<Longrightarrow> length (cb_bytes c) = clen c"
  by (simp add: cb_wf_def cb_bytes_def)

lemma cb_bytes_append [simp]:
  "cb_wf c \<Longrightarrow> cb_bytes (cb_append c bs) = cb_bytes c @ bs"
  by (simp add: cb_append_def cb_bytes_def cb_wf_def overwrite_def)

lemma cb_wf_append [simp]: "cb_wf c \<Longrightarrow> cb_wf (cb_append c bs)"
  by (auto simp: cb_append_def cb_wf_def cb_cap_def cb_bytes_def)

lemma cb_cap_append [simp]:
  "clen c + length bs \<le> cb_cap c \<Longrightarrow> cb_cap (cb_append c bs) = cb_cap c"
  by (simp add: cb_append_def cb_cap_def)

end
