(* ===== verification/Netip.thy ===== *)
theory Netip
  imports Go_Memory
begin

text \<open>
  The parts of Go's \<open>net/netip\<close> and \<open>net\<close> that the program uses: addresses with their
  4-byte, 16-byte and IPv4-mapped forms, address-port pairs with their binary form, and
  \<open>net.UDPAddr\<close> with its \<open>AddrPort\<close> conversion. The byte lists of an address have length 4
  and 16 (\<open>addr_wf\<close>).
\<close>

datatype addr = AddrZero | Addr4 "byte list" | Addr6 "byte list" string

type_synonym port = "16 word"

record addr_port =
  ap_addr :: addr
  ap_port :: port

definition addr_wf :: "addr \<Rightarrow> bool" where
  "addr_wf a \<longleftrightarrow>
     (case a of AddrZero \<Rightarrow> True | Addr4 b \<Rightarrow> length b = 4 | Addr6 b _ \<Rightarrow> length b = 16)"

definition mapped_prefix :: "byte list" where
  "mapped_prefix = replicate 10 0 @ [0xff, 0xff]"

definition Is4 :: "addr \<Rightarrow> bool" where
  "Is4 a \<longleftrightarrow> (case a of Addr4 _ \<Rightarrow> True | _ \<Rightarrow> False)"

text \<open>\<open>Is6\<close> includes IPv4-mapped IPv6 addresses; \<open>Is4In6\<close> selects them.\<close>

definition Is6 :: "addr \<Rightarrow> bool" where
  "Is6 a \<longleftrightarrow> (case a of Addr6 _ _ \<Rightarrow> True | _ \<Rightarrow> False)"

definition Is4In6 :: "addr \<Rightarrow> bool" where
  "Is4In6 a \<longleftrightarrow> (case a of Addr6 b _ \<Rightarrow> take 12 b = mapped_prefix | _ \<Rightarrow> False)"

definition Unmap :: "addr \<Rightarrow> addr" where
  "Unmap a = (case a of Addr6 b _ \<Rightarrow> (if Is4In6 a then Addr4 (drop 12 b) else a) | _ \<Rightarrow> a)"

definition As16 :: "addr \<Rightarrow> byte list" where
  "As16 a = (case a of AddrZero \<Rightarrow> replicate 16 0 | Addr4 b \<Rightarrow> mapped_prefix @ b | Addr6 b _ \<Rightarrow> b)"

text \<open>\<open>As4\<close> panics on the zero address and on an IPv6 address that is not IPv4-mapped.\<close>

definition As4 :: "addr \<Rightarrow> byte list outcome" where
  "As4 a = (case a of
     AddrZero \<Rightarrow> Panic BadAddr
   | Addr4 b \<Rightarrow> Ret b
   | Addr6 b _ \<Rightarrow> (if Is4In6 a then Ret (drop 12 b) else Panic BadAddr))"

definition AddrFromSlice :: "byte list \<Rightarrow> addr" where
  "AddrFromSlice b =
     (if length b = 4 then Addr4 b else if length b = 16 then Addr6 b '''' else AddrZero)"

definition WithZone :: "addr \<Rightarrow> string \<Rightarrow> addr" where
  "WithZone a z = (case a of Addr6 b _ \<Rightarrow> Addr6 b z | _ \<Rightarrow> a)"

definition le16 :: "16 word \<Rightarrow> byte list" where
  "le16 w = [ucast w, ucast (drop_bit 8 w)]"

definition be16 :: "16 word \<Rightarrow> byte list" where
  "be16 w = [ucast (drop_bit 8 w), ucast w]"

text \<open>\<open>AddrPort.MarshalBinary\<close>: the address bytes, the zone, the port in little-endian order.\<close>

definition MarshalBinary :: "addr_port \<Rightarrow> byte list" where
  "MarshalBinary p =
     (case ap_addr p of
        AddrZero \<Rightarrow> []
      | Addr4 b \<Rightarrow> b
      | Addr6 b z \<Rightarrow> b @ map (\<lambda>c. of_nat (of_char c)) z) @ le16 (ap_port p)"

text \<open>\<open>net.UDPAddr\<close>. Pooled values keep their 16-byte array and change its length.\<close>

record udp_addr =
  ua_IP :: cbuf
  ua_Port :: nat
  ua_Zone :: string

definition UDPAddr_AddrPort :: "udp_addr \<Rightarrow> addr_port" where
  "UDPAddr_AddrPort u =
     \<lparr>ap_addr = WithZone (AddrFromSlice (cb_bytes (ua_IP u))) (ua_Zone u),
      ap_port = of_nat (ua_Port u)\<rparr>"

text \<open>\<open>IP.To4\<close> is non-nil for a 4-byte slice and for a mapped 16-byte slice.\<close>

definition IP_To4_nil :: "byte list \<Rightarrow> bool" where
  "IP_To4_nil b \<longleftrightarrow> \<not> (length b = 4 \<or> (length b = 16 \<and> take 12 b = mapped_prefix))"

text \<open>\<open>strconv.Itoa\<close> of a non-negative number and \<open>net.JoinHostPort\<close>.\<close>

fun Itoa :: "nat \<Rightarrow> string" where
  "Itoa n = (if n < 10 then [char_of (48 + n)] else Itoa (n div 10) @ [char_of (48 + n mod 10)])"

declare Itoa.simps [simp del]

definition JoinHostPort :: "string \<Rightarrow> string \<Rightarrow> string" where
  "JoinHostPort host port =
     (if CHR '':'' \<in> set host \<or> CHR ''%'' \<in> set host then ''['' @ host @ '']:'' @ port
      else host @ '':'' @ port)"

lemma length_mapped_prefix [simp]: "length mapped_prefix = 12"
  by (simp add: mapped_prefix_def)

lemma Is_simps [simp]:
  "Is4 (Addr4 b)" "\<not> Is4 AddrZero" "\<not> Is4 (Addr6 c z)"
  "Is6 (Addr6 c z)" "\<not> Is6 AddrZero" "\<not> Is6 (Addr4 b)"
  by (simp_all add: Is4_def Is6_def)

lemma Is6E: "Is6 a \<Longrightarrow> (\<And>b z. a = Addr6 b z \<Longrightarrow> P) \<Longrightarrow> P"
  by (cases a) auto

lemma length_As16 [simp]: "addr_wf a \<Longrightarrow> length (As16 a) = 16"
  by (cases a) (auto simp: As16_def addr_wf_def)

lemma Unmap_wf: "addr_wf a \<Longrightarrow> addr_wf (Unmap a)"
  by (cases a) (auto simp: Unmap_def addr_wf_def)

lemma Unmap_idem [simp]: "Unmap (Unmap a) = Unmap a"
  by (cases a) (auto simp: Unmap_def)

lemma Unmap_not_mapped [simp]: "\<not> Is4In6 (Unmap a)"
  by (cases a) (auto simp: Unmap_def Is4In6_def)

lemma Unmap_As16: "addr_wf a \<Longrightarrow> As16 (Unmap a) = As16 a"
proof (cases a)
  case (Addr6 b z)
  have "mapped_prefix @ drop 12 b = b" if "take 12 b = mapped_prefix"
    using that append_take_drop_id [of 12 b] by simp
  then show ?thesis
    using Addr6 by (auto simp: Unmap_def As16_def Is4In6_def)
qed (auto simp: Unmap_def As16_def)

end
