(* ===== verification/Message.thy ===== *)
theory Message
  imports Netip
begin

text \<open>
  \<open>ipv6.Message\<close> (the same type as \<open>ipv4.Message\<close>), the unit of batched I/O, and the
  segmentation of a payload into datagrams of a given size that both directions of UDP
  offload are about.
\<close>

record message =
  Buffers :: "slice list"
  OOB :: cbuf
  Addr :: "udp_addr option"
  N :: nat
  NN :: nat

definition buffer0 :: "message \<Rightarrow> slice" where
  "buffer0 m = Buffers m ! 0"

definition msg_wf :: "store \<Rightarrow> message \<Rightarrow> bool" where
  "msg_wf h m \<longleftrightarrow> Buffers m \<noteq> [] \<and> sl_wf h (buffer0 m) \<and> cb_wf (OOB m)"

definition set_buffer0 :: "message \<Rightarrow> slice \<Rightarrow> message" where
  "set_buffer0 m s = m\<lparr>Buffers := (Buffers m)[0 := s]\<rparr>"

lemma set_buffer0_simps [simp]:
  "OOB (set_buffer0 m s) = OOB m" "Addr (set_buffer0 m s) = Addr m"
  "N (set_buffer0 m s) = N m" "NN (set_buffer0 m s) = NN m"
  "length (Buffers (set_buffer0 m s)) = length (Buffers m)"
  "Buffers m \<noteq> [] \<Longrightarrow> buffer0 (set_buffer0 m s) = s"
  by (simp_all add: set_buffer0_def buffer0_def)

section \<open>Segmentation\<close>

text \<open>
  \<open>segments g xs\<close> cuts \<open>xs\<close> into pieces of \<open>g\<close> bytes, the last one possibly shorter: what
  UDP_SEGMENT asks of the kernel on transmission and what UDP_GRO reports on reception.
\<close>

fun segments :: "nat \<Rightarrow> 'a list \<Rightarrow> 'a list list" where
  "segments g xs =
     (if g = 0 \<or> length xs \<le> g then [xs] else take g xs # segments g (drop g xs))"

declare segments.simps [simp del]

lemma segments_short: "length xs \<le> g \<Longrightarrow> segments g xs = [xs]"
  by (simp add: segments.simps [of g xs])

lemma segments_zero [simp]: "segments 0 xs = [xs]"
  by (simp add: segments.simps [of 0 xs])

lemma segments_long: "0 < g \<Longrightarrow> g < length xs \<Longrightarrow> segments g xs = take g xs # segments g (drop g xs)"
  by (subst segments.simps) simp

lemma segments_ne [simp]: "segments g xs \<noteq> []"
  by (subst segments.simps) simp

lemma concat_segments [simp]: "concat (segments g xs) = xs"
proof (induction g xs rule: segments.induct)
  case (1 g xs)
  then show ?case
    by (cases "g = 0 \<or> length xs \<le> g") (auto simp: segments.simps [of g xs])
qed

lemma length_segments:
  assumes "0 < g" "xs \<noteq> []"
  shows "length (segments g xs) = (length xs + g - 1) div g"
  using assms
proof (induction g xs rule: segments.induct)
  case (1 g xs)
  show ?case
  proof (cases "length xs \<le> g")
    case True
    obtain k where k: "length xs = Suc k" "k < g"
      using True "1.prems" by (cases "length xs") auto
    then have "(length xs + g - 1) div g = 1"
      using "1.prems" by (simp add: div_add_self2)
    then show ?thesis using True by (simp add: segments_short)
  next
    case False
    then have "length (segments g (drop g xs)) = (length xs - g + g - 1) div g"
      using "1.IH" "1.prems" by simp
    moreover have "(length xs + g - 1) div g = Suc ((length xs - 1) div g)"
    proof -
      have "length xs + g - 1 = (length xs - 1) + g" using False by simp
      then show ?thesis using "1.prems" by (simp only: div_add_self2)
    qed
    ultimately show ?thesis
      using False "1.prems" by (simp add: segments_long)
  qed
qed

lemma segments_append:
  assumes "length ys = g" "0 < g" "zs \<noteq> []"
  shows "segments g (ys @ zs) = ys # segments g zs"
  using assms by (subst segments_long) auto

text \<open>
  Cutting the concatenation of equal pieces, with a possibly shorter non-empty last one,
  gives the pieces back.
\<close>

lemma segments_concat:
  assumes "0 < g" "\<forall>b \<in> set bs. length b = g" "b \<noteq> []" "length b \<le> g"
  shows "segments g (concat (bs @ [b])) = bs @ [b]"
  using assms(2)
proof (induction bs)
  case Nil
  then show ?case using assms by (simp add: segments_short)
next
  case (Cons a bs)
  then show ?case
    using assms segments_append [of a g "concat (bs @ [b])"] by simp
qed

lemma segments_nth:
  assumes "0 < g" "i < length (segments g xs)"
  shows "segments g xs ! i = take g (drop (i * g) xs)"
  using assms
proof (induction g xs arbitrary: i rule: segments.induct)
  case (1 g xs)
  show ?case
  proof (cases "length xs \<le> g")
    case True
    with "1.prems" show ?thesis by (simp add: segments_short)
  next
    case False
    then have eq: "segments g xs = take g xs # segments g (drop g xs)"
      using "1.prems" by (simp add: segments_long)
    show ?thesis
    proof (cases i)
      case 0
      with eq show ?thesis by simp
    next
      case (Suc j)
      then have "segments g (drop g xs) ! j = take g (drop (j * g) (drop g xs))"
        using "1.IH" "1.prems" False eq by simp
      then show ?thesis using Suc eq by (simp add: add.commute)
    qed
  qed
qed

lemma segments_length_le: "0 < g \<Longrightarrow> x \<in> set (segments g xs) \<Longrightarrow> length x \<le> g"
proof -
  assume g: "0 < g" and "x \<in> set (segments g xs)"
  then obtain i where "i < length (segments g xs)" "x = segments g xs ! i"
    by (metis in_set_conv_nth)
  then show ?thesis using g segments_nth [of g i xs] by simp
qed

lemma segments_nonempty:
  assumes "xs \<noteq> []" "x \<in> set (segments g xs)"
  shows "x \<noteq> []"
  using assms
proof (induction g xs rule: segments.induct)
  case (1 g xs)
  then show ?case
    by (cases "g = 0 \<or> length xs \<le> g") (auto simp: segments.simps [of g xs])
qed

lemma length_hd_segments: "0 < g \<Longrightarrow> length (hd (segments g xs)) = min g (length xs)"
  by (subst segments.simps) auto

lemma hd_segments_prefix: "hd (segments g xs) = take (length (hd (segments g xs))) xs"
  by (subst (1 2) segments.simps) auto

end
