(* ===== verification/World.thy ===== *)
theory World
  imports Message
begin

text \<open>
  The program's surroundings: the network implementation it is given, the sockets that
  network opens, the socket options and the kernel. None of it is code of the repository, so
  all of it is a parameter: an interface value is a record of its methods, and what a call
  returns is a function of everything that happened before it. The history itself is
  concrete: \<open>world\<close> holds the system calls on raw descriptors and the calls on connections, so
  that theorems can speak about sockets left open or datagrams handed to the kernel.
\<close>

type_synonym conn = nat
type_synonym fd = nat

section \<open>Socket options\<close>

datatype sockopt =
    Opt_SO_RCVBUF | Opt_SO_SNDBUF | Opt_SO_RCVBUFFORCE | Opt_SO_SNDBUFFORCE
  | Opt_IP_PKTINFO | Opt_IPV6_RECVPKTINFO | Opt_IPV6_V6ONLY | Opt_UDP_GRO | Opt_UDP_SEGMENT
  | Opt_IP_UNICAST_IF | Opt_IPV6_UNICAST_IF | Opt_SOL_SOCKET int

datatype sock_event =
    SetsockoptInt fd sockopt int "goerror option"
  | GetsockoptInt fd sockopt "goerror + int"

type_synonym sock_trace = "sock_event list"

text \<open>
  \<open>syscall.RawConn.Control\<close> and \<open>sockopt.Control\<close> run a callback with the descriptor: the first
  component is the descriptor the callback is run with, if it is run, the second the error
  the call returns.
\<close>

type_synonym control_result = "fd option \<times> goerror option"
type_synonym raw_conn = "sock_trace \<Rightarrow> control_result"

text \<open>A \<open>controlFn\<close> applied to its arguments, and a \<open>ListenConfig.Control\<close> hook.\<close>

type_synonym control_fn = "string \<Rightarrow> string \<Rightarrow> raw_conn \<Rightarrow> sock_trace \<Rightarrow> goerror option \<times> sock_trace"
type_synonym control_hook =
  "string \<Rightarrow> string \<Rightarrow> raw_conn option \<Rightarrow> sock_trace \<Rightarrow> goerror option \<times> sock_trace"

section \<open>Connections\<close>

text \<open>What a message becomes at the socket: its payload, its control data, its destination.\<close>

record wire_msg =
  wm_data :: "byte list"
  wm_control :: "byte list"
  wm_dst :: "addr_port option"

text \<open>What the socket delivers: the payload and control data before truncation, the source.\<close>

record rx_msg =
  rx_data :: "byte list"
  rx_control :: "byte list"
  rx_addr :: "udp_addr option"

datatype conn_event =
    EvListen string string "goerror + conn"
  | EvClose conn
  | EvWriteBatch conn "wire_msg list" "nat \<times> goerror option"
  | EvWriteMsg conn wire_msg "goerror option"
  | EvReadBatch conn nat "goerror + nat"
  | EvReadMsg conn "goerror option"
  | EvOnFamilyOpenError string goerror

record world =
  w_sock :: sock_trace
  w_conn :: "conn_event list"

definition record_conn :: "conn_event \<Rightarrow> world \<Rightarrow> world" where
  "record_conn e w = w\<lparr>w_conn := w_conn w @ [e]\<rparr>"

text \<open>
  \<open>gonnect.Network\<close>. \<open>nIsUp\<close> is \<open>None\<close> when the value does not implement \<open>networkStateChecker\<close>.
  \<open>nListenUDPConfig\<close> is given the control hook and may run it or not; it returns the
  connection or an error, and the socket options set meanwhile.
\<close>

record network =
  nIsNative :: bool
  nIsUp :: "(world \<Rightarrow> bool \<times> goerror option) option"
  nListenUDPConfig :: "control_hook \<Rightarrow> string \<Rightarrow> string \<Rightarrow> world \<Rightarrow> (goerror + conn) \<times> sock_trace"

text \<open>
  The operating system, the packages \<open>gonnect\<close>, \<open>sockopt\<close>, \<open>x/net\<close> and \<open>x/sys\<close>, and the choice
  \<open>sync.Pool.Get\<close> makes: \<open>None\<close> for a new value, \<open>Some i\<close> for the pooled value number \<open>i\<close>.
\<close>

datatype pool_id = MsgsPool | UdpAddrPool | SendBatchPool

record env =
  eGOOS :: goos
  eSetsockoptInt :: "sock_trace \<Rightarrow> fd \<Rightarrow> sockopt \<Rightarrow> int \<Rightarrow> goerror option"
  eGetsockoptInt :: "sock_trace \<Rightarrow> fd \<Rightarrow> sockopt \<Rightarrow> goerror + int"
  eUname :: "sock_trace \<Rightarrow> goerror + byte list"
  eSyscallConn :: "world \<Rightarrow> conn \<Rightarrow> raw_conn option \<times> goerror option"
  eSockoptControl :: "world \<Rightarrow> conn \<Rightarrow> control_result"
  eIgnoreUnsupported :: "goerror option \<Rightarrow> goerror option"
  eGetFd :: "world \<Rightarrow> conn option \<Rightarrow> goerror + int"
  eGetWrapped :: "conn \<Rightarrow> conn option"
  eIsUDPConn :: "conn \<Rightarrow> bool"
  eLocalAddr :: "world \<Rightarrow> conn \<Rightarrow> string \<times> string"
  eResolveUDPAddr :: "string \<Rightarrow> string \<Rightarrow> goerror + nat"
  eClose :: "world \<Rightarrow> conn \<Rightarrow> goerror option"
  eWriteBatch :: "world \<Rightarrow> conn \<Rightarrow> wire_msg list \<Rightarrow> nat \<times> goerror option"
  eWriteMsgUDPAddrPort :: "world \<Rightarrow> conn \<Rightarrow> wire_msg \<Rightarrow> goerror option"
  eReadBatch :: "world \<Rightarrow> conn \<Rightarrow> nat \<Rightarrow> goerror + rx_msg list"
  eReadMsgUDP :: "world \<Rightarrow> conn \<Rightarrow> goerror + rx_msg"
  ePoolGet :: "pool_id \<Rightarrow> world \<Rightarrow> nat option"

section \<open>Calls that leave a trace\<close>

definition sys_setsockopt :: "env \<Rightarrow> fd \<Rightarrow> sockopt \<Rightarrow> int \<Rightarrow> sock_trace \<Rightarrow> goerror option \<times> sock_trace" where
  "sys_setsockopt E f opt v t =
     (let r = eSetsockoptInt E t f opt v in (r, t @ [SetsockoptInt f opt v r]))"

definition sys_getsockopt :: "env \<Rightarrow> fd \<Rightarrow> sockopt \<Rightarrow> sock_trace \<Rightarrow> (goerror + int) \<times> sock_trace" where
  "sys_getsockopt E f opt t =
     (let r = eGetsockoptInt E t f opt in (r, t @ [GetsockoptInt f opt r]))"

definition conn_Close :: "env \<Rightarrow> conn \<Rightarrow> world \<Rightarrow> goerror option \<times> world" where
  "conn_Close E c w = (eClose E w c, record_conn (EvClose c) w)"

definition net_Listen ::
  "network \<Rightarrow> control_hook \<Rightarrow> string \<Rightarrow> string \<Rightarrow> world \<Rightarrow> (goerror + conn) \<times> world" where
  "net_Listen net hook nw ad w =
     (let (r, t) = nListenUDPConfig net hook nw ad w
      in (r, record_conn (EvListen nw ad r) (w\<lparr>w_sock := t\<rparr>)))"

section \<open>Which sockets are open\<close>

text \<open>
  \<open>balance c es\<close> is the number of times \<open>c\<close> was returned by a listen minus the number of
  times it was closed. No socket leaks when the balance is what it was before.
\<close>

fun balance :: "conn \<Rightarrow> conn_event list \<Rightarrow> int" where
  "balance c [] = 0"
| "balance c (EvListen _ _ (Inr d) # es) = (if d = c then 1 else 0) + balance c es"
| "balance c (EvClose d # es) = (if d = c then - 1 else 0) + balance c es"
| "balance c (_ # es) = balance c es"

lemma balance_append [simp]: "balance c (xs @ ys) = balance c xs + balance c ys"
  by (induction c xs rule: balance.induct) auto

definition leaks :: "world \<Rightarrow> world \<Rightarrow> conn \<Rightarrow> int" where
  "leaks w w' c = balance c (w_conn w') - balance c (w_conn w)"

definition holds :: "conn option \<Rightarrow> conn \<Rightarrow> int" where
  "holds oc c = (if oc = Some c then 1 else 0)"

lemma holds_simps [simp]: "holds None c = 0" "holds (Some d) c = (if d = c then 1 else 0)"
  by (auto simp: holds_def)

text \<open>The connection listens of a history, and the connection-level writes.\<close>

lemma conn_Close_leaks [simp]:
  "conn_Close E d w = (r, w') \<Longrightarrow> leaks w w' c = - holds (Some d) c"
  by (auto simp: conn_Close_def record_conn_def leaks_def)

lemma leaks_trans: "leaks w w'' c = leaks w w' c + leaks w' w'' c"
  by (simp add: leaks_def)

lemma leaks_refl [simp]: "leaks w w c = 0"
  by (simp add: leaks_def)

lemma leaks_sock [simp]: "leaks (w\<lparr>w_sock := t\<rparr>) w' c = leaks w w' c" "leaks w (w'\<lparr>w_sock := t\<rparr>) c = leaks w w' c"
  by (simp_all add: leaks_def)

lemma net_Listen_leaks:
  "net_Listen net hook nw ad w = (r, w') \<Longrightarrow>
   leaks w w' c = (case r of Inl _ \<Rightarrow> 0 | Inr d \<Rightarrow> holds (Some d) c)"
  by (auto simp: net_Listen_def record_conn_def leaks_def split: prod.splits sum.splits)

end
