(* ===== verification/Conn.thy ===== *)
theory Conn
  imports World "HOL-Library.Sublist" "HOL-Library.Char_ord"
begin

text \<open>
  \<open>conn.go\<close>: the batch size constant, the check of the caller's receive slices, the check of
  the network state and the display name of a receive function.
\<close>

definition IdealBatchSize :: nat where
  "IdealBatchSize = 128"

definition validateReceiveBuffers :: "'p list \<Rightarrow> 's list \<Rightarrow> 'e list \<Rightarrow> nat \<Rightarrow> goerror option" where
  "validateReceiveBuffers packets sizes eps batchSize =
     (if length packets < batchSize \<or> length sizes < batchSize \<or> length eps < batchSize
      then Some ErrReadBufferTooShort else None)"

definition networkDown :: "network option \<Rightarrow> world \<Rightarrow> bool" where
  "networkDown net w =
     (case net of
        None \<Rightarrow> False
      | Some n \<Rightarrow> (case nIsUp n of
          None \<Rightarrow> False
        | Some isUp \<Rightarrow> let (up, err) = isUp w in err = None \<and> \<not> up))"

section \<open>PrettyName\<close>

definition TrimSuffix :: "string \<Rightarrow> string \<Rightarrow> string" where
  "TrimSuffix s suf = (if suffix suf s then take (length s - length suf) s else s)"

text \<open>\<open>strings.LastIndexByte\<close> followed by \<open>name[idx+1:]\<close>: what comes after the last \<open>c\<close>.\<close>

definition after_last :: "char \<Rightarrow> string \<Rightarrow> string" where
  "after_last c s = rev (takeWhile (\<lambda>x. x \<noteq> c) (rev s))"

definition is_digit_char :: "char \<Rightarrow> bool" where
  "is_digit_char c \<longleftrightarrow> CHR ''0'' \<le> c \<and> c \<le> CHR ''9''"

text \<open>\<open>name[:idx+1]\<close> for the index \<open>idx\<close> the inner loop stops at.\<close>

definition without_digits :: "string \<Rightarrow> string" where
  "without_digits s = rev (dropWhile is_digit_char (rev s))"

function strip_funcs :: "string \<Rightarrow> string" where
  "strip_funcs name =
     (let stem = without_digits name
      in if length stem = length name then name
         else if \<not> suffix ''.func'' stem then name
         else strip_funcs (take (length stem - 5) stem))"
  by pat_completeness auto
termination
proof (relation "measure length")
  fix name stem
  assume "stem = without_digits name" "length stem \<noteq> length name"
  then have "length stem < length name"
    using length_dropWhile_le [of is_digit_char "rev name"] by (simp add: without_digits_def)
  then show "(take (length stem - 5) stem, name) \<in> measure length" by simp
qed simp

declare strip_funcs.simps [simp del]

text \<open>\<open>name\<close> is what the runtime reports for the function and \<open>ptr\<close> its \<open>%p\<close> form. When the
  byte looked for does not occur the name stays as it is, as \<open>after_last\<close> also has it.\<close>

definition PrettyName :: "string \<Rightarrow> string \<Rightarrow> string" where
  "PrettyName name0 ptr =
     (let name1 = TrimSuffix name0 ''-fm'';
          name2 = after_last (CHR ''/'') name1;
          name3 = strip_funcs name2;
          name4 = after_last (CHR ''.'') name3
      in if name4 = [] then ptr
         else if suffix ''IPv4'' name4 then ''v4''
         else if suffix ''IPv6'' name4 then ''v6''
         else name4)"

section \<open>Names of receive functions\<close>

lemma after_last_append [simp]: "c \<notin> set s \<Longrightarrow> after_last c (p @ c # s) = s"
  by (simp add: after_last_def takeWhile_append takeWhile_eq_all_conv)

lemma without_digits_append:
  "\<forall>c \<in> set ds. is_digit_char c \<Longrightarrow> \<not> is_digit_char x \<Longrightarrow> without_digits (s @ x # ds) = s @ [x]"
  by (simp add: without_digits_def dropWhile_append)

text \<open>The suffixes the compiler appends for nested closures.\<close>

definition func_suffix :: "string \<Rightarrow> string" where
  "func_suffix ds = ''.func'' @ ds"

definition is_number :: "string \<Rightarrow> bool" where
  "is_number ds \<longleftrightarrow> ds \<noteq> [] \<and> (\<forall>c \<in> set ds. is_digit_char c)"

lemma strip_one:
  assumes "is_number ds"
  shows "strip_funcs (s @ func_suffix ds) = strip_funcs s"
proof -
  have "\<not> is_digit_char (CHR ''c'')" by (simp add: is_digit_char_def less_eq_char_def)
  then have "without_digits ((s @ ''.fun'') @ CHR ''c'' # ds) = (s @ ''.fun'') @ ''c''"
    using assms by (intro without_digits_append) (auto simp: is_number_def)
  then have stem: "without_digits (s @ func_suffix ds) = s @ ''.func''"
    by (simp add: func_suffix_def)
  show ?thesis
    using assms by (subst strip_funcs.simps) (simp only: stem Let_def, auto simp: func_suffix_def is_number_def suffix_def)
qed

lemma strip_all:
  "\<forall>ds \<in> set nums. is_number ds \<Longrightarrow> strip_funcs (s @ concat (map func_suffix nums)) = strip_funcs s"
proof (induction nums rule: rev_induct)
  case (snoc ds nums)
  then show ?case using strip_one [of ds "s @ concat (map func_suffix nums)"] by simp
qed simp

lemma strip_digits:
  assumes "is_number [x]"
  shows "strip_funcs (s @ ''IPv'' @ [x]) = s @ ''IPv'' @ [x]"
proof -
  have "\<not> is_digit_char (CHR ''v'')" by (simp add: is_digit_char_def less_eq_char_def)
  then have "without_digits ((s @ ''IP'') @ CHR ''v'' # [x]) = (s @ ''IP'') @ ''v''"
    using assms by (intro without_digits_append) (auto simp: is_number_def)
  then have stem: "without_digits (s @ ''IPv'' @ [x]) = s @ ''IPv''" by simp
  show ?thesis
    by (subst strip_funcs.simps) (simp only: stem Let_def, auto simp: suffix_def append_eq_append_conv2 Cons_eq_append_conv)
qed

lemma digit_not_slash: "is_digit_char c \<Longrightarrow> c \<noteq> CHR ''/''"
  by (auto simp: is_digit_char_def less_eq_char_def)

lemma TrimSuffix_append [simp]: "TrimSuffix (s @ suf) suf = s"
  by (simp add: TrimSuffix_def suffix_def)



end
