(* ===== verification/Sample.thy ===== *)
theory Sample
  imports World
begin

text \<open>
  A concrete network and operating system, on which the hypotheses of the theorems hold: every
  socket option can be set, sockets are native, every write is accepted and nothing arrives.
\<close>

definition sample_raw :: raw_conn where
  "sample_raw t = (Some 3, None)"

definition sample_net :: network where
  "sample_net =
     \<lparr>nIsNative = True, nIsUp = Some (\<lambda>w. (True, None)),
      nListenUDPConfig = (\<lambda>hook nw ad w.
        case hook nw ad (Some sample_raw) (w_sock w) of
          (None, t) \<Rightarrow> (Inr (length (w_conn w)), t)
        | (Some e, t) \<Rightarrow> (Inl e, t))\<rparr>"

definition sample_release :: "byte list" where
  "sample_release = [53, 46, 52, 46, 48, 0]"

definition sample_env :: "goos \<Rightarrow> env" where
  "sample_env p =
     \<lparr>eGOOS = p,
      eSetsockoptInt = (\<lambda>t f opt v. None),
      eGetsockoptInt = (\<lambda>t f opt. Inr 1),
      eUname = (\<lambda>t. Inr sample_release),
      eSyscallConn = (\<lambda>w c. (Some sample_raw, None)),
      eSockoptControl = (\<lambda>w c. (Some 3, None)),
      eIgnoreUnsupported = (\<lambda>e. e),
      eGetFd = (\<lambda>w c. Inr 3),
      eGetWrapped = (\<lambda>c. None),
      eIsUDPConn = (\<lambda>c. True),
      eLocalAddr = (\<lambda>w c. (''udp'', ''[::]:4242'')),
      eResolveUDPAddr = (\<lambda>n a. Inr 4242),
      eClose = (\<lambda>w c. None),
      eWriteBatch = (\<lambda>w c ms. (length ms, None)),
      eWriteMsgUDPAddrPort = (\<lambda>w c m. None),
      eReadBatch = (\<lambda>w c n. Inr []),
      eReadMsgUDP = (\<lambda>w c. Inl NetErrClosed),
      ePoolGet = (\<lambda>p w. None)\<rparr>"

definition sample_world :: world where
  "sample_world = \<lparr>w_sock = [], w_conn = []\<rparr>"

lemma sample_env_simps [simp]:
  "eGOOS (sample_env p) = p" "eSetsockoptInt (sample_env p) t f opt v = None"
  "eUname (sample_env p) t = Inr sample_release"
  "eSyscallConn (sample_env p) w c = (Some sample_raw, None)"
  "eGetWrapped (sample_env p) c = None" "eWriteBatch (sample_env p) w c ms = (length ms, None)"
  "eWriteMsgUDPAddrPort (sample_env p) w c m = None" "ePoolGet (sample_env p) i w = None"
  by (simp_all add: sample_env_def)

end
