(* ===== verification/Controlfns.thy ===== *)
theory Controlfns
  imports Sample
begin

text \<open>
  Socket configuration: \<open>controlfns.go\<close> with its per-platform \<open>init\<close> functions
  (\<open>controlfns_linux.go\<close>, \<open>controlfns_unix.go\<close>, \<open>controlfns_windows.go\<close>), the detection of UDP
  offload (\<open>features_linux.go\<close>, \<open>features_default.go\<close>), the classification of send errors
  (\<open>errors_linux.go\<close>, \<open>errors_default.go\<close>) and the unwrapping helpers of \<open>gonnect_helpers.go\<close>.
\<close>

definition socketBufferSize :: int where
  "socketBufferSize = 7 * 2 ^ 20"

text \<open>
  \<open>c.Control(func(fd uintptr) { ... })\<close>: the callback \<open>body\<close> runs on the descriptor, if at all,
  and assigns a captured variable whose value before the call is \<open>x\<close>.
\<close>

definition run_control ::
  "control_result \<Rightarrow> 'a \<Rightarrow> (fd \<Rightarrow> sock_trace \<Rightarrow> 'a \<times> sock_trace) \<Rightarrow> sock_trace
    \<Rightarrow> goerror option \<times> 'a \<times> sock_trace" where
  "run_control r x body t =
     (case fst r of
        None \<Rightarrow> (snd r, x, t)
      | Some f \<Rightarrow> let (y, t') = body f t in (snd r, y, t'))"

fun set_all :: "env \<Rightarrow> fd \<Rightarrow> sockopt list \<Rightarrow> sock_trace \<Rightarrow> sock_trace" where
  "set_all E f [] t = t"
| "set_all E f (opt # opts) t = set_all E f opts (snd (sys_setsockopt E f opt socketBufferSize t))"

section \<open>kernelVersion\<close>

text \<open>The loop over \<open>uname.Release\<close>; \<open>values[vi]\<close> is assigned at each separator.\<close>

fun kernelVersion_loop ::
  "byte list \<Rightarrow> 64 word \<Rightarrow> nat \<Rightarrow> 64 word list \<Rightarrow> 64 word list" where
  "kernelVersion_loop [] v vi vs = vs"
| "kernelVersion_loop (c # cs) v vi vs =
     (if 48 \<le> c \<and> c \<le> 57 then kernelVersion_loop cs (v * 10 + ucast (c - 48)) vi vs
      else let vs' = vs[vi := v]
           in if Suc vi \<ge> length vs' then vs' else kernelVersion_loop cs 0 (Suc vi) vs')"

definition kernelVersion :: "env \<Rightarrow> sock_trace \<Rightarrow> 64 word \<times> 64 word" where
  "kernelVersion E t =
     (case eUname E t of
        Inl _ \<Rightarrow> (0, 0)
      | Inr release \<Rightarrow>
          let vs = kernelVersion_loop release 0 0 [0, 0] in (vs ! 0, vs ! 1))"

section \<open>Control functions\<close>

definition ctl_buffers_linux :: "env \<Rightarrow> control_fn" where
  "ctl_buffers_linux E nw ad c t =
     (let (err, _, t') = run_control (c t) () (\<lambda>f t. ((), set_all E f
            [Opt_SO_RCVBUF, Opt_SO_SNDBUF, Opt_SO_RCVBUFFORCE, Opt_SO_SNDBUFFORCE] t)) t
      in (err, t'))"

definition ctl_pktinfo_linux :: "env \<Rightarrow> control_fn" where
  "ctl_pktinfo_linux E nw ad c t =
     (if nw = ''udp4'' then
        if eGOOS E \<noteq> Android then
          let (controlErr, err, t') = run_control (c t) None (\<lambda>f. sys_setsockopt E f Opt_IP_PKTINFO 1) t
          in if controlErr \<noteq> None then (controlErr, t') else (err, t')
        else (None, t)
      else if nw = ''udp6'' then
        let (controlErr, err, t') = run_control (c t) None
              (\<lambda>f t. if eGOOS E \<noteq> Android then sys_setsockopt E f Opt_IPV6_RECVPKTINFO 1 t else (None, t)) t
        in if controlErr \<noteq> None then (controlErr, t') else (err, t')
      else (Some (Wrapped (''unhandled network: '' @ nw) EINVAL), t))"

definition ctl_gro_linux :: "env \<Rightarrow> control_fn" where
  "ctl_gro_linux E nw ad c t =
     (let (major, minor) = kernelVersion E t
      in if word_sless major 5 \<or> (major = 5 \<and> word_sless minor 12) then (None, t)
         else let (err, _, t') = run_control (c t) () (\<lambda>f t. ((), snd (sys_setsockopt E f Opt_UDP_GRO 1 t))) t
              in (err, t'))"

definition ctl_v6only_linux :: "env \<Rightarrow> control_fn" where
  "ctl_v6only_linux E nw ad c t =
     (if nw \<noteq> ''udp6'' then (None, t)
      else let (controlErr, err, t') = run_control (c t) None (\<lambda>f. sys_setsockopt E f Opt_IPV6_V6ONLY 1) t
           in if controlErr \<noteq> None then (controlErr, t') else (err, t'))"

text \<open>The other Unix platforms and Windows share the buffer sizes; on Unix \<open>IPV6_V6ONLY\<close> is set
  with the error of \<open>Control\<close> itself ignored.\<close>

definition ctl_buffers_other :: "env \<Rightarrow> control_fn" where
  "ctl_buffers_other E nw ad c t =
     (let (err, _, t') = run_control (c t) () (\<lambda>f t. ((), set_all E f [Opt_SO_RCVBUF, Opt_SO_SNDBUF] t)) t
      in (err, t'))"

definition ctl_v6only_unix :: "env \<Rightarrow> control_fn" where
  "ctl_v6only_unix E nw ad c t =
     (if nw \<noteq> ''udp6'' then (None, t)
      else let (_, err, t') = run_control (c t) None (\<lambda>f. sys_setsockopt E f Opt_IPV6_V6ONLY 1) t
           in (err, t'))"

definition listenControlFns :: "env \<Rightarrow> control_fn list" where
  "listenControlFns E =
     (if linux_tag (eGOOS E) then [ctl_v6only_linux E]
      else if eGOOS E = Windows \<or> eGOOS E = Wasm then [] else [ctl_v6only_unix E])"

definition socketOpenControlFns :: "env \<Rightarrow> control_fn list" where
  "socketOpenControlFns E =
     (if linux_tag (eGOOS E) then [ctl_buffers_linux E, ctl_pktinfo_linux E, ctl_gro_linux E]
      else if eGOOS E = Wasm then [] else [ctl_buffers_other E])"

fun run_controlFns :: "control_fn list \<Rightarrow> string \<Rightarrow> string \<Rightarrow> raw_conn \<Rightarrow> sock_trace \<Rightarrow> goerror option \<times> sock_trace" where
  "run_controlFns [] nw ad c t = (None, t)"
| "run_controlFns (fn # fns) nw ad c t =
     (let (err, t') = fn nw ad c t
      in if err \<noteq> None then (err, t') else run_controlFns fns nw ad c t')"

definition listenConfig :: "env \<Rightarrow> control_hook" where
  "listenConfig E nw ad c t =
     (case c of None \<Rightarrow> (None, t) | Some rc \<Rightarrow> run_controlFns (listenControlFns E) nw ad rc t)"

definition configureSocket :: "env \<Rightarrow> conn \<Rightarrow> string \<Rightarrow> string \<Rightarrow> world \<Rightarrow> goerror option \<times> world" where
  "configureSocket E c nw ad w =
     (let (rc, err) = eSyscallConn E w c
      in if err \<noteq> None then (err, w)
         else case rc of
           None \<Rightarrow> (None, w)
         | Some r \<Rightarrow> let (e, t) = run_controlFns (socketOpenControlFns E) nw ad r (w_sock w)
                     in (e, w\<lparr>w_sock := t\<rparr>))"

section \<open>Offload detection and send errors\<close>

definition supportsUDPOffload :: "env \<Rightarrow> conn \<Rightarrow> world \<Rightarrow> (bool \<times> bool) \<times> world" where
  "supportsUDPOffload E c w =
     (if \<not> linux_tag (eGOOS E) then ((False, False), w)
      else let (err, (tx, rx), t) =
             run_control (eSockoptControl E w c) (False, False)
               (\<lambda>f t. let (r1, t1) = sys_getsockopt E f Opt_UDP_SEGMENT t;
                          (r2, t2) = sys_getsockopt E f Opt_UDP_GRO t1
                      in ((case r1 of Inl _ \<Rightarrow> False | Inr _ \<Rightarrow> True, r2 = Inr 1), t2)) (w_sock w)
           in (if err \<noteq> None then (False, False) else (tx, rx), w\<lparr>w_sock := t\<rparr>))"

definition errShouldDisableUDPGSO :: "goos \<Rightarrow> goerror \<Rightarrow> bool" where
  "errShouldDisableUDPGSO p err \<longleftrightarrow>
     linux_tag p \<and> (case errors_As_SyscallError err of None \<Rightarrow> False | Some e \<Rightarrow> e = EIO)"

section \<open>Unwrapping\<close>

text \<open>\<open>unwrapValue\<close> follows \<open>gonnect.GetWrapped\<close> until it returns nil; \<open>None\<close> stands for a loop
  that does not end.\<close>

partial_function (option) unwrapValue :: "(conn \<Rightarrow> conn option) \<Rightarrow> conn \<Rightarrow> conn option" where
  "unwrapValue getWrapped v =
     (case getWrapped v of None \<Rightarrow> Some v | Some next \<Rightarrow> unwrapValue getWrapped next)"

declare unwrapValue.simps [code]

definition unwrapUDPConn :: "env \<Rightarrow> conn \<Rightarrow> conn option outcome" where
  "unwrapUDPConn E c =
     (case unwrapValue (eGetWrapped E) c of
        None \<Rightarrow> Diverge
      | Some v \<Rightarrow> Ret (if eIsUDPConn E v then Some v else None))"

section \<open>Lemmas\<close>

lemma unwrapValue_ends:
  assumes wf: "\<And>v v'. g v = Some v' \<Longrightarrow> (m :: conn \<Rightarrow> nat) v' < m v"
  shows "\<exists>r. unwrapValue g v = Some r \<and> g r = None"
proof (induction "m v" arbitrary: v rule: less_induct)
  case less
  show ?case
  proof (cases "g v")
    case None
    then show ?thesis by (simp add: unwrapValue.simps [of g v])
  next
    case (Some v')
    then show ?thesis using less [OF wf [OF Some]] by (simp add: unwrapValue.simps [of g v])
  qed
qed

text \<open>Decimal digits, most significant first.\<close>

definition is_digit :: "byte \<Rightarrow> bool" where
  "is_digit c \<longleftrightarrow> 48 \<le> c \<and> c \<le> 57"

fun decimal :: "nat \<Rightarrow> byte list \<Rightarrow> nat" where
  "decimal v [] = v"
| "decimal v (c # cs) = decimal (v * 10 + (unat c - 48)) cs"

lemma digit_value:
  assumes "is_digit c"
  shows "(ucast (c - 48) :: 64 word) = of_nat (unat c - 48)"
proof -
  have "unat (c - 48) = unat c - 48"
    using assms unat_sub [of 48 c] by (simp add: is_digit_def)
  then have "(of_nat (unat (c - 48)) :: 64 word) = of_nat (unat c - 48)" by simp
  then show ?thesis by simp
qed

lemma kernelVersion_digits:
  "\<forall>c \<in> set ds. is_digit c \<Longrightarrow> \<not> is_digit x \<Longrightarrow>
   kernelVersion_loop (ds @ x # cs) (of_nat v) vi vs =
     (let vs' = vs[vi := of_nat (decimal v ds)]
      in if Suc vi \<ge> length vs' then vs' else kernelVersion_loop cs 0 (Suc vi) vs')"
proof (induction ds arbitrary: v)
  case Nil
  then show ?case by (auto simp: is_digit_def)
next
  case (Cons c ds)
  have "of_nat v * 10 + (ucast (c - 48) :: 64 word) = of_nat (v * 10 + (unat c - 48))"
    using digit_value [of c] Cons.prems(1) by simp
  then have "kernelVersion_loop ((c # ds) @ x # cs) (of_nat v) vi vs =
      kernelVersion_loop (ds @ x # cs) (of_nat (v * 10 + (unat c - 48))) vi vs"
    using Cons.prems(1) by (simp add: is_digit_def)
  also have "\<dots> = (let vs' = vs[vi := of_nat (decimal (v * 10 + (unat c - 48)) ds)]
      in if Suc vi \<ge> length vs' then vs' else kernelVersion_loop cs 0 (Suc vi) vs')"
    using Cons.prems by (intro Cons.IH) auto
  finally show ?case by (simp only: decimal.simps)
qed

text \<open>\<open>RawConn.Control\<close> returns nil only when it has run the callback.\<close>

definition raw_conn_ok :: "raw_conn \<Rightarrow> bool" where
  "raw_conn_ok c \<longleftrightarrow> (\<forall>t. snd (c t) = None \<longrightarrow> fst (c t) \<noteq> None)"

definition option_set :: "sockopt \<Rightarrow> sock_trace \<Rightarrow> bool" where
  "option_set opt t \<longleftrightarrow> (\<exists>f. SetsockoptInt f opt 1 None \<in> set t)"

definition extends :: "sock_trace \<Rightarrow> sock_trace \<Rightarrow> bool" where
  "extends t t' \<longleftrightarrow> (\<exists>es. t' = t @ es)"

lemma extends_refl [simp]: "extends t t"
  by (simp add: extends_def)

lemma extends_trans [trans]: "extends t t' \<Longrightarrow> extends t' t'' \<Longrightarrow> extends t t''"
  by (auto simp: extends_def)

lemma extends_option_set: "extends t t' \<Longrightarrow> option_set opt t \<Longrightarrow> option_set opt t'"
  by (auto simp: extends_def option_set_def)

definition control_fn_extends :: "control_fn \<Rightarrow> bool" where
  "control_fn_extends fn \<longleftrightarrow> (\<forall>nw ad c t. extends t (snd (fn nw ad c t)))"

lemma setsockopt_snd_extends [simp]: "extends t (snd (sys_setsockopt E f opt v t))"
  by (simp add: sys_setsockopt_def extends_def Let_def)

lemma socketOpenControlFns_extend: "\<forall>fn \<in> set (socketOpenControlFns E). control_fn_extends fn"
  by (auto simp: socketOpenControlFns_def control_fn_extends_def ctl_buffers_linux_def
      ctl_pktinfo_linux_def ctl_gro_linux_def ctl_buffers_other_def run_control_def Let_def
      sys_setsockopt_def extends_def split: prod.splits option.splits)

lemma run_controlFns_keeps:
  "P t \<Longrightarrow> (\<And>fn t. fn \<in> set fns \<Longrightarrow> P t \<Longrightarrow> P (snd (fn nw ad c t))) \<Longrightarrow>
   P (snd (run_controlFns fns nw ad c t))"
proof (induction fns arbitrary: t)
  case (Cons fn fns)
  obtain err t' where fn: "fn nw ad c t = (err, t')" by fastforce
  then have "P t'" using Cons.prems(1) Cons.prems(2) [of fn t] by simp
  then show ?case using Cons.IH [of t'] Cons.prems(2) fn by (simp add: Let_def)
qed simp

lemma kernelVersion_release:
  assumes "eUname E t = Inr (ds1 @ x # ds2 @ y # rest)"
    and "\<forall>c \<in> set (ds1 @ ds2). is_digit c" "\<not> is_digit x" "\<not> is_digit y"
  shows "kernelVersion E t = (of_nat (decimal 0 ds1), of_nat (decimal 0 ds2))"
  using assms kernelVersion_digits [of ds1 x "ds2 @ y # rest" 0 0 "[0, 0]"]
    kernelVersion_digits [of ds2 y rest 0 1 "[of_nat (decimal 0 ds1), 0]"]
  by (simp add: kernelVersion_def Let_def)

lemma ctl_pktinfo_set:
  assumes "eGOOS E = Linux" "raw_conn_ok c" "ctl_pktinfo_linux E nw ad c t = (None, t')"
  shows "(nw = ''udp4'' \<and> option_set Opt_IP_PKTINFO t') \<or> (nw = ''udp6'' \<and> option_set Opt_IPV6_RECVPKTINFO t')"
  using assms(1,3) assms(2) [unfolded raw_conn_ok_def, rule_format, of t]
  by (auto simp: ctl_pktinfo_linux_def run_control_def sys_setsockopt_def option_set_def Let_def
      split: if_splits option.splits)

lemma ctl_v6only_set:
  assumes "raw_conn_ok c" "ctl_v6only_linux E ''udp6'' ad c t = (None, t')"
  shows "option_set Opt_IPV6_V6ONLY t'"
  using assms(2) assms(1) [unfolded raw_conn_ok_def, rule_format, of t]
  by (auto simp: ctl_v6only_linux_def run_control_def sys_setsockopt_def option_set_def Let_def
      split: if_splits option.splits)

text \<open>The trace before and after the control function that decides the sticky-source option.\<close>

lemma configure_linux:
  assumes "eGOOS E = Linux" "eSyscallConn E w c = (Some rc, None)" "configureSocket E c nw ad w = (None, w')"
  obtains t1 t2 where "ctl_buffers_linux E nw ad rc (w_sock w) = (None, t1)"
    "ctl_pktinfo_linux E nw ad rc t1 = (None, t2)" "ctl_gro_linux E nw ad rc t2 = (None, w_sock w')"
  using assms
  by (auto simp: configureSocket_def socketOpenControlFns_def linux_tag_def Let_def
      split: prod.splits if_splits)


definition is_gro_call :: "sock_event \<Rightarrow> bool" where
  "is_gro_call e \<longleftrightarrow> (\<exists>f v r. e = SetsockoptInt f Opt_UDP_GRO v r)"

lemma gro_calls_other:
  "filter is_gro_call (snd (ctl_buffers_linux E nw ad c t)) = filter is_gro_call t"
  "filter is_gro_call (snd (ctl_pktinfo_linux E nw ad c t)) = filter is_gro_call t"
  by (auto simp: ctl_buffers_linux_def ctl_pktinfo_linux_def run_control_def sys_setsockopt_def Let_def is_gro_call_def
      split: option.splits prod.splits)

lemma sample_raw_ok: "raw_conn_ok sample_raw"
  by (simp add: raw_conn_ok_def sample_raw_def)


lemma word_sless_of_nat:
  assumes "a < 2 ^ 63" "b < 2 ^ 63"
  shows "word_sless (of_nat a :: 64 word) (of_nat b) \<longleftrightarrow> a < b"
proof -
  have "sint (of_nat n :: 64 word) = int n" if "n < 2 ^ 63" for n
    using that by (simp add: signed_of_nat signed_take_bit_int_eq_self)
  then show ?thesis using assms by (simp add: word_sless_alt)
qed

text \<open>
  C11. On a kernel before 5.12 generic receive offload is never asked for: \<open>configureSocket\<close> makes
  no UDP_GRO call, so the read-back of the option in \<open>supportsUDPOffload\<close> is never relied on there.
\<close>

theorem configureSocket_gates_gro:
  assumes "\<forall>t. eUname E t = Inr (ds1 @ x # ds2 @ y # rest)"
    and "\<forall>c \<in> set (ds1 @ ds2). is_digit c" "\<not> is_digit x" "\<not> is_digit y"
    and "decimal 0 ds1 < 2 ^ 63" "decimal 0 ds2 < 2 ^ 63"
    and old: "decimal 0 ds1 < 5 \<or> (decimal 0 ds1 = 5 \<and> decimal 0 ds2 < 12)"
    and "configureSocket E c nw ad w = (err, w')"
  shows "filter is_gro_call (w_sock w') = filter is_gro_call (w_sock w)"
proof -
  have "kernelVersion E t = (of_nat (decimal 0 ds1), of_nat (decimal 0 ds2))" for t
    using kernelVersion_release [OF spec [OF assms(1)] assms(2-4)] .
  moreover have "word_sless (of_nat (decimal 0 ds1) :: 64 word) 5 \<longleftrightarrow> decimal 0 ds1 < 5"
    "word_sless (of_nat (decimal 0 ds2) :: 64 word) 12 \<longleftrightarrow> decimal 0 ds2 < 12"
    using word_sless_of_nat [of _ 5] word_sless_of_nat [of _ 12] assms(5,6) by simp_all
  ultimately have gro: "ctl_gro_linux E nw ad rc t = (None, t)" for rc t
    using old by (auto simp: ctl_gro_linux_def Let_def)
  have "filter is_gro_call (snd (fn nw ad rc t)) = filter is_gro_call t"
    if "fn \<in> set (socketOpenControlFns E)" for fn rc t
    using that gro gro_calls_other [of E nw ad rc t]
    by (auto simp: socketOpenControlFns_def ctl_buffers_other_def run_control_def sys_setsockopt_def
        is_gro_call_def Let_def split: option.splits if_splits)
  then have "filter is_gro_call (snd (run_controlFns (socketOpenControlFns E) nw ad rc t)) = filter is_gro_call t" for rc t
    using run_controlFns_keeps [of "\<lambda>t'. filter is_gro_call t' = filter is_gro_call t" t] by simp
  then show ?thesis
    using assms(8) by (auto simp: configureSocket_def Let_def split: prod.splits option.splits if_splits)
      (metis snd_conv)
qed

theorem configureSocket_gates_gro_witness:
  "filter is_gro_call (w_sock (snd (configureSocket (sample_env Linux) 0 ''udp4'' ''0.0.0.0:0'' sample_world))) = []"
  using configureSocket_gates_gro [of "sample_env Linux" "[53]" 46 "[52]" 46 "[48, 0]" 0 "''udp4''" "''0.0.0.0:0''" sample_world
      "fst (configureSocket (sample_env Linux) 0 ''udp4'' ''0.0.0.0:0'' sample_world)"
      "snd (configureSocket (sample_env Linux) 0 ''udp4'' ''0.0.0.0:0'' sample_world)"]
  by (simp add: sample_release_def is_digit_def sample_world_def)

end
