(* ===== verification/Cmsg.thy ===== *)
theory Cmsg
  imports Message
begin

text \<open>
  Socket control messages. The code reads and writes them through
  \<open>golang.org/x/sys/unix\<close> and through \<open>unsafe\<close> views of its structs, whose layout depends on
  the architecture. That package is not part of the repository, so it is a parameter: the
  record \<open>cmsg_abi\<close> holds the functions, struct images and constants the code uses, and the
  locale \<open>cmsg_codec\<close> states what the code relies on. The ABI of linux/amd64 is given as a
  concrete instance and interprets the locale.
\<close>

record cmsghdr =
  hLen :: nat
  hLevel :: "32 word"
  hType :: "32 word"

record cmsg_abi =
  SizeofCmsghdr :: nat
  CmsgLen :: "nat \<Rightarrow> nat"
  CmsgSpace :: "nat \<Rightarrow> nat"
  SizeofInet4Pktinfo :: nat
  SizeofInet6Pktinfo :: nat
  ParseOneSocketControlMessage :: "byte list \<Rightarrow> goerror + cmsghdr \<times> byte list \<times> byte list"
  hdr_bytes :: "cmsghdr \<Rightarrow> byte list"
  u16_bytes :: "16 word \<Rightarrow> byte list"
  u16_read :: "byte list \<Rightarrow> 16 word"
  Inet4Pktinfo_Ifindex :: "byte list \<Rightarrow> 32 word"
  Inet4Pktinfo_Spec_dst :: "byte list \<Rightarrow> byte list"
  Inet6Pktinfo_Addr :: "byte list \<Rightarrow> byte list"
  Inet6Pktinfo_Ifindex :: "byte list \<Rightarrow> 32 word"
  SOL_UDP :: "32 word"
  UDP_SEGMENT :: "32 word"
  UDP_GRO :: "32 word"
  IPPROTO_IP :: "32 word"
  IP_PKTINFO :: "32 word"
  IPPROTO_IPV6 :: "32 word"
  IPV6_PKTINFO :: "32 word"

section \<open>Streams of control messages\<close>

text \<open>
  \<open>cmsg_encodes A bs cs\<close>: the bytes \<open>bs\<close> are the control messages \<open>cs\<close> laid out one after the
  other, each with its header, the gap up to the data, the data and the trailing padding.
\<close>

definition cmsg_image :: "cmsg_abi \<Rightarrow> cmsghdr \<Rightarrow> byte list \<Rightarrow> byte list \<Rightarrow> byte list \<Rightarrow> bool" where
  "cmsg_image A h gap data pad \<longleftrightarrow>
     hLen h = CmsgLen A (length data) \<and> hLen h < 2 ^ 31 \<and>
     length gap = CmsgLen A 0 - SizeofCmsghdr A \<and>
     length pad = CmsgSpace A (length data) - CmsgLen A (length data)"

inductive cmsg_encodes :: "cmsg_abi \<Rightarrow> byte list \<Rightarrow> (cmsghdr \<times> byte list) list \<Rightarrow> bool" for A where
  cmsg_Nil: "cmsg_encodes A [] []"
| cmsg_Cons: "cmsg_image A h gap data pad \<Longrightarrow> cmsg_encodes A bs cs \<Longrightarrow>
     cmsg_encodes A (hdr_bytes A h @ gap @ data @ pad @ bs) ((h, data) # cs)"

text \<open>
  The receiving side of a control buffer: every message in order, up to the end or to the
  first one that does not parse.
\<close>

function cmsg_list :: "cmsg_abi \<Rightarrow> byte list \<Rightarrow> (cmsghdr \<times> byte list) list" where
  "cmsg_list A bs =
     (if length bs > SizeofCmsghdr A
      then (case ParseOneSocketControlMessage A bs of
              Inl _ \<Rightarrow> []
            | Inr (h, data, bs') \<Rightarrow>
                (h, data) # (if length bs' < length bs then cmsg_list A bs' else []))
      else [])"
  by pat_completeness auto
termination
  by (relation "measure (\<lambda>(A, bs). length bs)") auto

declare cmsg_list.simps [simp del]

locale cmsg_codec =
  fixes A :: cmsg_abi
  assumes hdr_length: "length (hdr_bytes A h) = SizeofCmsghdr A"
    and Len_add: "CmsgLen A n = CmsgLen A 0 + n"
    and Len_hdr: "SizeofCmsghdr A \<le> CmsgLen A 0"
    and Space_Len: "CmsgLen A n \<le> CmsgSpace A n"
    and Len2_bound: "CmsgLen A 2 < 2 ^ 31"
    and u16_length: "length (u16_bytes A w) = 2"
    and u16_round: "u16_read A (u16_bytes A w) = w"
    and parse_image: "cmsg_image A h gap data pad \<Longrightarrow>
      ParseOneSocketControlMessage A (hdr_bytes A h @ gap @ data @ pad @ bs) = Inr (h, data, bs)"
    and parse_shrinks: "ParseOneSocketControlMessage A bs = Inr (h, data, bs') \<Longrightarrow>
      length bs' < length bs"
    and GRO_SEGMENT: "UDP_GRO A \<noteq> UDP_SEGMENT A"
    and UDP_IP: "SOL_UDP A \<noteq> IPPROTO_IP A"
    and UDP_IPV6: "SOL_UDP A \<noteq> IPPROTO_IPV6 A"
    and IP_IPV6: "IPPROTO_IP A \<noteq> IPPROTO_IPV6 A"
    and Pktinfo_pos: "0 < SizeofInet4Pktinfo A" "0 < SizeofInet6Pktinfo A"
    and Pktinfo_bound: "CmsgLen A (SizeofInet4Pktinfo A) < 2 ^ 31" "CmsgLen A (SizeofInet6Pktinfo A) < 2 ^ 31"
    and Pktinfo_space: "CmsgSpace A (SizeofInet4Pktinfo A) < CmsgSpace A (SizeofInet6Pktinfo A)"
begin

lemma image_length:
  assumes "cmsg_image A h gap data pad"
  shows "length (hdr_bytes A h @ gap @ data @ pad) = CmsgSpace A (length data)"
  using assms Len_add [of "length data"] Len_hdr Space_Len [of "length data"]
  by (simp add: cmsg_image_def hdr_length)

lemma encodes_append:
  "cmsg_encodes A bs cs \<Longrightarrow> cmsg_encodes A bs' cs' \<Longrightarrow> cmsg_encodes A (bs @ bs') (cs @ cs')"
  by (induction rule: cmsg_encodes.induct) (auto intro: cmsg_encodes.intros dest: cmsg_Cons)

lemma encodes_single:
  "cmsg_image A h gap data pad \<Longrightarrow> cmsg_encodes A (hdr_bytes A h @ gap @ data @ pad) [(h, data)]"
  using cmsg_Cons [OF _ cmsg_Nil, of A h gap data pad] by simp

text \<open>A message with data is longer than a header, so the parsing loops do enter it.\<close>

lemma image_longer:
  assumes "cmsg_image A h gap data pad" "data \<noteq> []"
  shows "SizeofCmsghdr A < length (hdr_bytes A h @ gap @ data @ pad @ bs)"
  using assms by (simp add: hdr_length)

lemma list_encodes:
  assumes "cmsg_encodes A bs cs" "\<forall>(h, data) \<in> set cs. data \<noteq> []"
  shows "cmsg_list A bs = cs"
  using assms
proof (induction rule: cmsg_encodes.induct)
  case cmsg_Nil
  then show ?case by (simp add: cmsg_list.simps)
next
  case (cmsg_Cons h gap data pad bs cs)
  let ?bs = "hdr_bytes A h @ gap @ data @ pad @ bs"
  have "SizeofCmsghdr A < length ?bs"
    using cmsg_Cons by (intro image_longer) auto
  moreover have "ParseOneSocketControlMessage A ?bs = Inr (h, data, bs)"
    using cmsg_Cons.hyps(1) by (rule parse_image)
  ultimately show ?case
    using cmsg_Cons parse_shrinks [of ?bs h data bs] by (subst cmsg_list.simps) simp
qed

end

section \<open>The ABI of linux/amd64\<close>

fun le_bytes :: "nat \<Rightarrow> nat \<Rightarrow> byte list" where
  "le_bytes 0 x = []"
| "le_bytes (Suc n) x = of_nat (x mod 256) # le_bytes n (x div 256)"

fun le_val :: "byte list \<Rightarrow> nat" where
  "le_val [] = 0"
| "le_val (b # bs) = unat b + 256 * le_val bs"

lemma length_le_bytes [simp]: "length (le_bytes n x) = n"
  by (induction n arbitrary: x) auto

lemma unat_of_nat_mod256 [simp]: "unat (of_nat (x mod 256) :: byte) = x mod 256"
  by (simp add: unat_of_nat)

lemma le_val_bytes: "x < 256 ^ n \<Longrightarrow> le_val (le_bytes n x) = x"
proof (induction n arbitrary: x)
  case (Suc n)
  then have "x div 256 < 256 ^ n" by (simp add: less_mult_imp_div_less mult.commute)
  then have "le_val (le_bytes n (x div 256)) = x div 256" by (rule Suc.IH)
  then show ?case by simp
qed simp

definition cmsgAlignOf :: "nat \<Rightarrow> nat" where
  "cmsgAlignOf n = (n + 7) div 8 * 8"

definition amd64_hdr :: "cmsghdr \<Rightarrow> byte list" where
  "amd64_hdr h = le_bytes 8 (hLen h) @ le_bytes 4 (unat (hLevel h)) @ le_bytes 4 (unat (hType h))"

definition amd64_hdr_read :: "byte list \<Rightarrow> cmsghdr" where
  "amd64_hdr_read bs =
     \<lparr>hLen = le_val (take 8 bs),
      hLevel = of_nat (le_val (take 4 (drop 8 bs))),
      hType = of_nat (le_val (take 4 (drop 12 bs)))\<rparr>"

definition amd64_parse :: "byte list \<Rightarrow> goerror + cmsghdr \<times> byte list \<times> byte list" where
  "amd64_parse bs =
     (let h = amd64_hdr_read bs in
      if length bs < 16 \<or> hLen h < 16 \<or> length bs < hLen h then Inl EINVAL
      else Inr (h, drop 16 (take (hLen h) bs), drop (cmsgAlignOf (hLen h)) bs))"

definition linux_amd64 :: cmsg_abi where
  "linux_amd64 =
     \<lparr>SizeofCmsghdr = 16,
      CmsgLen = (\<lambda>n. 16 + n),
      CmsgSpace = (\<lambda>n. 16 + cmsgAlignOf n),
      SizeofInet4Pktinfo = 12,
      SizeofInet6Pktinfo = 20,
      ParseOneSocketControlMessage = amd64_parse,
      hdr_bytes = amd64_hdr,
      u16_bytes = (\<lambda>w. le_bytes 2 (unat w)),
      u16_read = (\<lambda>bs. of_nat (le_val (take 2 bs))),
      Inet4Pktinfo_Ifindex = (\<lambda>bs. of_nat (le_val (take 4 bs))),
      Inet4Pktinfo_Spec_dst = (\<lambda>bs. take 4 (drop 4 bs)),
      Inet6Pktinfo_Addr = (\<lambda>bs. take 16 bs),
      Inet6Pktinfo_Ifindex = (\<lambda>bs. of_nat (le_val (take 4 (drop 16 bs)))),
      SOL_UDP = 17,
      UDP_SEGMENT = 103,
      UDP_GRO = 104,
      IPPROTO_IP = 0,
      IP_PKTINFO = 8,
      IPPROTO_IPV6 = 41,
      IPV6_PKTINFO = 50\<rparr>"

lemma cmsgAlignOf_ge: "n \<le> cmsgAlignOf n"
  by (simp add: cmsgAlignOf_def)

lemma cmsgAlignOf_add16: "cmsgAlignOf (16 + n) = 16 + cmsgAlignOf n"
  unfolding cmsgAlignOf_def by presburger

lemma length_amd64_hdr [simp]: "length (amd64_hdr h) = 16"
  by (simp add: amd64_hdr_def)

lemma le_val_word: "le_val (le_bytes 4 (unat (w :: 32 word))) = unat w"
  using unsigned_less [of w, where ?'a = nat] by (intro le_val_bytes) simp

lemma amd64_hdr_round:
  assumes "hLen h < 2 ^ 31"
  shows "amd64_hdr_read (amd64_hdr h @ bs) = h"
proof -
  have "le_val (le_bytes 8 (hLen h)) = hLen h"
    using assms by (intro le_val_bytes) simp
  then show ?thesis
    by (simp add: amd64_hdr_read_def amd64_hdr_def le_val_word)
qed

lemma amd64_parse_image:
  assumes "cmsg_image linux_amd64 h gap data pad"
  shows "amd64_parse (amd64_hdr h @ gap @ data @ pad @ bs) = Inr (h, data, bs)"
proof -
  from assms have h: "hLen h = 16 + length data" "hLen h < 2 ^ 31" "gap = []"
    "length pad = cmsgAlignOf (length data) - length data"
    by (auto simp: cmsg_image_def linux_amd64_def)
  have "cmsgAlignOf (hLen h) = length (amd64_hdr h @ data @ pad)"
    using h cmsgAlignOf_ge [of "length data"] by (simp add: cmsgAlignOf_add16)
  then have "drop (cmsgAlignOf (hLen h)) (amd64_hdr h @ data @ pad @ bs) = bs"
    by simp
  then show ?thesis
    using h amd64_hdr_round [of h "data @ pad @ bs"] by (simp add: amd64_parse_def Let_def)
qed

interpretation amd64: cmsg_codec linux_amd64
proof unfold_locales
  fix bs h data bs'
  assume "ParseOneSocketControlMessage linux_amd64 bs = Inr (h, data, bs')"
  then have "16 \<le> hLen h" "16 \<le> length bs" "bs' = drop (cmsgAlignOf (hLen h)) bs"
    by (auto simp: linux_amd64_def amd64_parse_def Let_def split: if_splits)
  then show "length bs' < length bs"
    using cmsgAlignOf_ge [of "hLen h"] by simp
next
  fix w :: "16 word"
  have "le_val (le_bytes 2 (unat w)) = unat w"
    using unsigned_less [of w, where ?'a = nat] by (intro le_val_bytes) simp
  then show "u16_read linux_amd64 (u16_bytes linux_amd64 w) = w"
    by (simp add: linux_amd64_def)
qed (auto simp: linux_amd64_def amd64_parse_image cmsgAlignOf_ge cmsgAlignOf_def)

end
