(* ===== verification/Gso.thy ===== *)
theory Gso
  imports Cmsg
begin

text \<open>
  UDP segmentation and receive offload in control data: \<open>gso_linux.go\<close> (Linux and Android)
  and the stubs of \<open>gso_default.go\<close>. \<open>getGSOSize\<close> reads the UDP_GRO message of received control
  data, \<open>setGSOSize\<close> appends a UDP_SEGMENT message to outgoing control data. The loop of
  \<open>getGSOSize\<close> continues on the remainder the parser returns; a remainder that is not shorter
  is a loop that need not stop (\<open>Diverge\<close>), which the contract of the parser rules out.
\<close>

definition sizeOfGSOData :: nat where
  "sizeOfGSOData = 2"

function getGSOSize_loop :: "cmsg_abi \<Rightarrow> byte list \<Rightarrow> (goerror + nat) outcome" where
  "getGSOSize_loop A rem =
     (if length rem > SizeofCmsghdr A
      then (case ParseOneSocketControlMessage A rem of
              Inl err \<Rightarrow> Ret (Inl (Wrapped ''error parsing socket control message'' err))
            | Inr (hdr, data, rem') \<Rightarrow>
                if hLevel hdr = SOL_UDP A \<and> hType hdr = UDP_GRO A \<and> sizeOfGSOData \<le> length data
                then Ret (Inr (unat (u16_read A (take sizeOfGSOData data))))
                else if length rem' < length rem then getGSOSize_loop A rem' else Diverge)
      else Ret (Inr 0))"
  by pat_completeness auto
termination
  by (relation "measure (\<lambda>(A, rem). length rem)") auto

declare getGSOSize_loop.simps [simp del]

definition getGSOSize :: "goos \<Rightarrow> cmsg_abi \<Rightarrow> byte list \<Rightarrow> (goerror + nat) outcome" where
  "getGSOSize p A control = (if linux_tag p then getGSOSize_loop A control else Ret (Inr 0))"

definition setGSOSize_linux :: "cmsg_abi \<Rightarrow> cbuf \<Rightarrow> 16 word \<Rightarrow> cbuf outcome" where
  "setGSOSize_linux A control gsoSize =
     (let existingLen = clen control;
          avail = cb_cap control - existingLen;
          space = CmsgSpace A sizeOfGSOData
      in if avail < space then Ret control
         else obind (cb_reslice control (cb_cap control)) (\<lambda>c.
           let hdr = \<lparr>hLen = CmsgLen A sizeOfGSOData, hLevel = SOL_UDP A, hType = UDP_SEGMENT A\<rparr>;
               c1 = cb_copy_at c existingLen (hdr_bytes A hdr);
               c2 = cb_copy_at c1 (existingLen + CmsgLen A 0) (u16_bytes A gsoSize)
           in cb_reslice c2 (existingLen + space)))"

definition setGSOSize :: "goos \<Rightarrow> cmsg_abi \<Rightarrow> cbuf \<Rightarrow> 16 word \<Rightarrow> cbuf outcome" where
  "setGSOSize p A control gsoSize =
     (if linux_tag p then setGSOSize_linux A control gsoSize else Ret control)"

definition gsoControlSize :: "goos \<Rightarrow> cmsg_abi \<Rightarrow> nat" where
  "gsoControlSize p A = (if linux_tag p then CmsgSpace A sizeOfGSOData else 0)"

section \<open>Specification\<close>

text \<open>The UDP_GRO message \<open>getGSOSize\<close> looks for, and the first one of a stream.\<close>

definition is_gro :: "cmsg_abi \<Rightarrow> cmsghdr \<times> byte list \<Rightarrow> bool" where
  "is_gro A c \<longleftrightarrow> hLevel (fst c) = SOL_UDP A \<and> hType (fst c) = UDP_GRO A \<and> 2 \<le> length (snd c)"

definition gro_size :: "cmsg_abi \<Rightarrow> (cmsghdr \<times> byte list) list \<Rightarrow> nat" where
  "gro_size A cs = (case find (is_gro A) cs of
     None \<Rightarrow> 0 | Some c \<Rightarrow> unat (u16_read A (take 2 (snd c))))"

text \<open>
  The segment size the kernel takes from outgoing control data: the UDP_SEGMENT message, if any.
\<close>

definition is_segment :: "cmsg_abi \<Rightarrow> cmsghdr \<times> byte list \<Rightarrow> bool" where
  "is_segment A c \<longleftrightarrow> hLevel (fst c) = SOL_UDP A \<and> hType (fst c) = UDP_SEGMENT A"

definition segment_size :: "cmsg_abi \<Rightarrow> byte list \<Rightarrow> nat option" where
  "segment_size A bs =
     map_option (\<lambda>c. unat (u16_read A (take 2 (snd c)))) (find (is_segment A) (cmsg_list A bs))"

definition segment_cmsg :: "cmsg_abi \<Rightarrow> 16 word \<Rightarrow> cmsghdr \<times> byte list" where
  "segment_cmsg A g =
     (\<lparr>hLen = CmsgLen A 2, hLevel = SOL_UDP A, hType = UDP_SEGMENT A\<rparr>, u16_bytes A g)"

lemma getGSOSize_total_loop:
  assumes "cmsg_codec A"
  shows "returns (getGSOSize_loop A bs)"
  using cmsg_codec.parse_shrinks [OF assms]
  by (induction A bs rule: getGSOSize_loop.induct)
    (subst getGSOSize_loop.simps, auto split: sum.splits)

context cmsg_codec
begin

lemma get_returns: "\<exists>r. getGSOSize_loop A bs = Ret r"
  using getGSOSize_total_loop [OF cmsg_codec_axioms] by (simp add: returns_iff)

lemma get_encodes:
  assumes "cmsg_encodes A bs cs" "\<forall>(h, data) \<in> set cs. data \<noteq> []"
  shows "getGSOSize_loop A bs = Ret (Inr (gro_size A cs))"
  using assms
proof (induction rule: cmsg_encodes.induct)
  case cmsg_Nil
  then show ?case by (simp add: getGSOSize_loop.simps gro_size_def)
next
  case (cmsg_Cons h gap data pad bs cs)
  let ?bs = "hdr_bytes A h @ gap @ data @ pad @ bs"
  have "SizeofCmsghdr A < length ?bs"
    using cmsg_Cons by (intro image_longer) auto
  moreover have p: "ParseOneSocketControlMessage A ?bs = Inr (h, data, bs)"
    using cmsg_Cons.hyps(1) by (rule parse_image)
  ultimately show ?case
    using cmsg_Cons parse_shrinks [OF p]
    by (subst getGSOSize_loop.simps) (simp add: gro_size_def is_gro_def sizeOfGSOData_def)
qed

lemma set_short:
  "cb_cap c - clen c < CmsgSpace A 2 \<Longrightarrow> setGSOSize_linux A c g = Ret c"
  by (simp add: setGSOSize_linux_def Let_def sizeOfGSOData_def)

text \<open>With room for it, \<open>setGSOSize\<close> appends exactly one UDP_SEGMENT message.\<close>

lemma set_appends:
  assumes wf: "cb_wf c" and room: "clen c + CmsgSpace A 2 \<le> cb_cap c"
  obtains c' m where "setGSOSize_linux A c g = Ret c'" "cb_wf c'" "cb_cap c' = cb_cap c"
    "cb_bytes c' = cb_bytes c @ m" "cmsg_encodes A m [segment_cmsg A g]"
    "length m = CmsgSpace A 2"
proof -
  let ?h = "\<lparr>hLen = CmsgLen A 2, hLevel = SOL_UDP A, hType = UDP_SEGMENT A\<rparr>"
  let ?glen = "CmsgLen A 0 - SizeofCmsghdr A" and ?plen = "CmsgSpace A 2 - CmsgLen A 2"
  have lens: "CmsgLen A 2 = SizeofCmsghdr A + ?glen + 2" "CmsgLen A 0 = SizeofCmsghdr A + ?glen"
    "CmsgSpace A 2 = SizeofCmsghdr A + ?glen + 2 + ?plen"
    using Len_add [of 2] Len_hdr Space_Len [of 2] by simp_all
  have "sum_list [clen c, SizeofCmsghdr A, ?glen, 2, ?plen] \<le> length (cdata c)"
    using room lens by (simp add: cb_cap_def)
  from split_lengths [OF this] obtain p x gap u pad r where
    d: "cdata c = p @ x @ gap @ u @ pad @ r" and
    len: "length p = clen c" "length x = SizeofCmsghdr A" "length gap = ?glen" "length u = 2"
      "length pad = ?plen"
    by (auto simp: map_eq_Cons_conv)
  let ?m = "hdr_bytes A ?h @ gap @ u16_bytes A g @ pad"
  let ?c = "\<lparr>cdata = p @ ?m @ r, clen = clen c + CmsgSpace A 2\<rparr>"
  have img: "cmsg_image A ?h gap (u16_bytes A g) pad"
    using len Len2_bound by (simp add: cmsg_image_def u16_length)
  have lenm: "length ?m = CmsgSpace A 2"
    using image_length [OF img] by (simp add: u16_length)
  have w1: "overwrite (cdata c) (clen c) (hdr_bytes A ?h) = p @ hdr_bytes A ?h @ gap @ u @ pad @ r"
    using len by (simp add: d overwrite_mid hdr_length)
  have w2: "overwrite (p @ hdr_bytes A ?h @ gap @ u @ pad @ r) (clen c + CmsgLen A 0) (u16_bytes A g)
      = p @ ?m @ r"
    using len lens overwrite_mid [of "p @ hdr_bytes A ?h @ gap" "clen c + CmsgLen A 0" u
        "u16_bytes A g" "pad @ r"]
    by (simp add: hdr_length u16_length)
  let ?n = "clen c" and ?k = "cb_cap c"
  have k: "?n + CmsgSpace A 2 \<le> ?k" "SizeofCmsghdr A \<le> ?k - ?n" "2 \<le> ?k - (?n + CmsgLen A 0)"
    using room lens by linarith+
  have c1: "cb_copy_at (c\<lparr>clen := ?k\<rparr>) ?n (hdr_bytes A ?h) =
      \<lparr>cdata = p @ hdr_bytes A ?h @ gap @ u @ pad @ r, clen = ?k\<rparr>"
    using k(2) by (simp add: cb_copy_at_def hdr_length w1)
  have c2: "cb_copy_at \<lparr>cdata = p @ hdr_bytes A ?h @ gap @ u @ pad @ r, clen = ?k\<rparr>
      (?n + CmsgLen A 0) (u16_bytes A g) = \<lparr>cdata = p @ ?m @ r, clen = ?k\<rparr>"
    using k(3) by (simp add: cb_copy_at_def u16_length w2)
  have cap: "cb_cap \<lparr>cdata = p @ ?m @ r, clen = j\<rparr> = ?k" for j
    using len by (simp add: cb_cap_def hdr_length u16_length d)
  have set: "setGSOSize_linux A c g = Ret ?c"
    using k(1) cap by (simp add: setGSOSize_linux_def Let_def sizeOfGSOData_def cb_reslice_def c1 c2)
  show thesis
  proof (rule that [OF set _ _ _ _ lenm])
    show "cb_cap ?c = cb_cap c" by (rule cap)
    show "cb_wf ?c" using k(1) cap [of 0] by (simp add: cb_wf_def cb_cap_def)
    show "cb_bytes ?c = cb_bytes c @ ?m"
      using len lenm by (simp add: cb_bytes_def d)
    show "cmsg_encodes A ?m [segment_cmsg A g]"
      using encodes_single [OF img] by (simp add: segment_cmsg_def)
  qed
qed

lemma is_segment_cmsg [simp]: "is_segment A (segment_cmsg A g)"
  by (simp add: is_segment_def segment_cmsg_def)

lemma segment_size_encodes:
  assumes "cmsg_encodes A bs cs" "\<forall>(h, data) \<in> set cs. data \<noteq> []"
  shows "segment_size A bs =
    map_option (\<lambda>c. unat (u16_read A (take 2 (snd c)))) (find (is_segment A) cs)"
  using list_encodes [OF assms] by (simp add: segment_size_def)

end

end
