(* ===== verification/Sticky.thy ===== *)
theory Sticky
  imports Gso
begin

text \<open>
  \<open>StdNetEndpoint\<close> and the sticky source address it caches: \<open>bind_std.go\<close> (the type and its
  accessors), \<open>sticky_linux.go\<close> (Linux without Android) and the stubs of \<open>sticky_default.go\<close>
  (everywhere else). \<open>getSrcFromControl\<close> stores the PKTINFO message of a received packet in the
  endpoint, \<open>setSrcControl\<close> replays it on packets sent to that endpoint.
\<close>

record std_endpoint =
  AddrPort :: addr_port
  src :: "cbuf option"

definition src_len :: "std_endpoint \<Rightarrow> nat" where
  "src_len e = (case src e of None \<Rightarrow> 0 | Some c \<Rightarrow> clen c)"

definition src_bytes :: "std_endpoint \<Rightarrow> byte list" where
  "src_bytes e = (case src e of None \<Rightarrow> [] | Some c \<Rightarrow> cb_bytes c)"

definition ClearSrc :: "std_endpoint \<Rightarrow> std_endpoint" where
  "ClearSrc e = (case src e of None \<Rightarrow> e | Some c \<Rightarrow> e\<lparr>src := Some (c\<lparr>clen := 0\<rparr>)\<rparr>)"

definition DstIP :: "std_endpoint \<Rightarrow> addr" where
  "DstIP e = ap_addr (AddrPort e)"

definition DstToBytes :: "std_endpoint \<Rightarrow> byte list" where
  "DstToBytes e = MarshalBinary (AddrPort e)"

text \<open>The PKTINFO struct the code views at \<open>&e.src[CmsgLen(0)]\<close>.\<close>

definition pktinfo_at :: "cmsg_abi \<Rightarrow> std_endpoint \<Rightarrow> nat \<Rightarrow> byte list" where
  "pktinfo_at A e n = take n (drop (CmsgLen A 0) (src_bytes e))"

definition SrcIP :: "goos \<Rightarrow> cmsg_abi \<Rightarrow> std_endpoint \<Rightarrow> addr" where
  "SrcIP p A e =
     (if p = Linux then
        if src_len e = CmsgSpace A (SizeofInet4Pktinfo A)
        then Addr4 (Inet4Pktinfo_Spec_dst A (pktinfo_at A e (SizeofInet4Pktinfo A)))
        else if src_len e = CmsgSpace A (SizeofInet6Pktinfo A)
        then Addr6 (Inet6Pktinfo_Addr A (pktinfo_at A e (SizeofInet6Pktinfo A))) ''''
        else AddrZero
      else AddrZero)"

definition SrcIfidx :: "goos \<Rightarrow> cmsg_abi \<Rightarrow> std_endpoint \<Rightarrow> 32 word" where
  "SrcIfidx p A e =
     (if p = Linux then
        if src_len e = CmsgSpace A (SizeofInet4Pktinfo A)
        then Inet4Pktinfo_Ifindex A (pktinfo_at A e (SizeofInet4Pktinfo A))
        else if src_len e = CmsgSpace A (SizeofInet6Pktinfo A)
        then Inet6Pktinfo_Ifindex A (pktinfo_at A e (SizeofInet6Pktinfo A))
        else 0
      else 0)"

text \<open>Storing a PKTINFO message whose struct has \<open>n\<close> bytes: both branches of the loop body.\<close>

definition store_src ::
  "cmsg_abi \<Rightarrow> nat \<Rightarrow> cmsghdr \<Rightarrow> byte list \<Rightarrow> std_endpoint \<Rightarrow> std_endpoint outcome" where
  "store_src A n hdr data ep =
     (let space = CmsgSpace A n;
          buf = (case src ep of
                   None \<Rightarrow> cb_make 0 space
                 | Some c \<Rightarrow> if cb_cap c < space then cb_make 0 space else c)
      in obind (cb_reslice buf space) (\<lambda>b.
           let b1 = cb_copy_at b 0 (hdr_bytes A hdr);
               b2 = cb_copy_at b1 (CmsgLen A 0) data
           in Ret (ep\<lparr>src := Some b2\<rparr>)))"

function getSrc_loop :: "cmsg_abi \<Rightarrow> byte list \<Rightarrow> std_endpoint \<Rightarrow> std_endpoint outcome" where
  "getSrc_loop A rem ep =
     (if length rem > SizeofCmsghdr A
      then (case ParseOneSocketControlMessage A rem of
              Inl err \<Rightarrow> Ret ep
            | Inr (hdr, data, rem') \<Rightarrow>
                if hLevel hdr = IPPROTO_IP A \<and> hType hdr = IP_PKTINFO A
                then store_src A (SizeofInet4Pktinfo A) hdr data ep
                else if hLevel hdr = IPPROTO_IPV6 A \<and> hType hdr = IPV6_PKTINFO A
                then store_src A (SizeofInet6Pktinfo A) hdr data ep
                else if length rem' < length rem then getSrc_loop A rem' ep else Diverge)
      else Ret ep)"
  by pat_completeness auto
termination
  by (relation "measure (\<lambda>(A, rem, ep). length rem)") auto

declare getSrc_loop.simps [simp del]

definition getSrcFromControl ::
  "goos \<Rightarrow> cmsg_abi \<Rightarrow> byte list \<Rightarrow> std_endpoint \<Rightarrow> std_endpoint outcome" where
  "getSrcFromControl p A control ep =
     (if p = Linux then getSrc_loop A control (ClearSrc ep) else Ret ep)"

definition setSrcControl :: "goos \<Rightarrow> cbuf \<Rightarrow> std_endpoint \<Rightarrow> cbuf" where
  "setSrcControl p control ep =
     (if p = Linux then
        if cb_cap control < src_len ep then control
        else cb_append (control\<lparr>clen := 0\<rparr>) (src_bytes ep)
      else control)"

definition stickyControlSize :: "goos \<Rightarrow> cmsg_abi \<Rightarrow> nat" where
  "stickyControlSize p A = (if p = Linux then CmsgSpace A (SizeofInet6Pktinfo A) else 0)"

definition StdNetSupportsStickySockets :: "goos \<Rightarrow> bool" where
  "StdNetSupportsStickySockets p \<longleftrightarrow> p = Linux"

section \<open>Properties\<close>

definition ep_wf :: "std_endpoint \<Rightarrow> bool" where
  "ep_wf e \<longleftrightarrow> (case src e of None \<Rightarrow> True | Some c \<Rightarrow> cb_wf c)"

lemma src_len_ClearSrc [simp]: "src_len (ClearSrc e) = 0"
  by (simp add: ClearSrc_def src_len_def split: option.splits)

lemma AddrPort_ClearSrc [simp]: "AddrPort (ClearSrc e) = AddrPort e"
  by (simp add: ClearSrc_def split: option.splits)

lemma length_src_bytes [simp]: "ep_wf e \<Longrightarrow> length (src_bytes e) = src_len e"
  by (simp add: ep_wf_def src_bytes_def src_len_def split: option.splits)

lemma setSrcControl_bytes:
  assumes "ep_wf e" "src_len e \<le> cb_cap c"
  shows "cb_bytes (setSrcControl Linux c e) = src_bytes e"
    and "cb_cap (setSrcControl Linux c e) = cb_cap c"
    and "cb_wf (setSrcControl Linux c e)"
  using assms
  by (auto simp: setSrcControl_def cb_wf_def cb_bytes_def cb_append_def cb_cap_def overwrite_def)

lemma setSrcControl_len:
  assumes "ep_wf e" "src_len e \<le> cb_cap c"
  shows "clen (setSrcControl Linux c e) = src_len e"
  using setSrcControl_bytes [OF assms] length_cb_bytes assms by fastforce

lemma setSrcControl_cap: "ep_wf e \<Longrightarrow> src_len e \<le> cb_cap c \<Longrightarrow> cb_wf c \<Longrightarrow> cb_cap (setSrcControl Linux c e) = cb_cap c"
  by (auto simp: setSrcControl_def cb_append_def cb_cap_def src_len_def src_bytes_def ep_wf_def split: option.splits)

lemma setSrcControl_nonLinux [simp]: "p \<noteq> Linux \<Longrightarrow> setSrcControl p c e = c"
  by (simp add: setSrcControl_def)

text \<open>
  A PKTINFO struct of the expected size is stored as one complete control message, whatever
  the endpoint held before.
\<close>

context cmsg_codec
begin

lemma store_src_image:
  assumes wf: "ep_wf ep" and len: "hLen h = CmsgLen A n" "length data = n" "CmsgLen A n < 2 ^ 31"
  obtains ep' gap pad where "store_src A n h data ep = Ret ep'" "AddrPort ep' = AddrPort ep"
    "ep_wf ep'" "cmsg_image A h gap data pad" "src_bytes ep' = hdr_bytes A h @ gap @ data @ pad"
proof -
  let ?glen = "CmsgLen A 0 - SizeofCmsghdr A" and ?plen = "CmsgSpace A n - CmsgLen A n"
  define buf where "buf = (case src ep of None \<Rightarrow> cb_make 0 (CmsgSpace A n)
     | Some c \<Rightarrow> if cb_cap c < CmsgSpace A n then cb_make 0 (CmsgSpace A n) else c)"
  have cap: "CmsgSpace A n \<le> cb_cap buf"
    by (auto simp: buf_def split: option.splits)
  have lens: "CmsgLen A n = SizeofCmsghdr A + ?glen + n" "CmsgLen A 0 = SizeofCmsghdr A + ?glen"
    "CmsgSpace A n = SizeofCmsghdr A + ?glen + n + ?plen"
    using Len_add [of n] Len_hdr Space_Len [of n] by simp_all
  have "sum_list [SizeofCmsghdr A, ?glen, n, ?plen] \<le> length (cdata buf)"
    using cap lens by (simp add: cb_cap_def)
  from split_lengths [OF this] obtain x gap u pad r where
    d: "cdata buf = x @ gap @ u @ pad @ r" and
    l: "length x = SizeofCmsghdr A" "length gap = ?glen" "length u = n" "length pad = ?plen"
    by (auto simp: map_eq_Cons_conv)
  let ?m = "hdr_bytes A h @ gap @ data @ pad"
  have img: "cmsg_image A h gap data pad"
    using len l by (simp add: cmsg_image_def)
  have w1: "overwrite (cdata buf) 0 (hdr_bytes A h) = hdr_bytes A h @ gap @ u @ pad @ r"
    using l overwrite_mid [of "[]" 0 x "hdr_bytes A h" "gap @ u @ pad @ r"] by (simp add: d hdr_length)
  have w2: "overwrite (hdr_bytes A h @ gap @ u @ pad @ r) (CmsgLen A 0) data = ?m @ r"
    using l lens len overwrite_mid [of "hdr_bytes A h @ gap" "CmsgLen A 0" u data "pad @ r"]
    by (simp add: hdr_length)
  have k: "SizeofCmsghdr A \<le> CmsgSpace A n" "n \<le> CmsgSpace A n - CmsgLen A 0"
    using lens by linarith+
  let ?b = "\<lparr>cdata = ?m @ r, clen = CmsgSpace A n\<rparr>"
  have "store_src A n h data ep = Ret (ep\<lparr>src := Some ?b\<rparr>)"
    using cap k len
    by (simp add: store_src_def Let_def buf_def [symmetric] cb_reslice_def cb_copy_at_def
        hdr_length w1 w2)
  moreover have "length ?m = CmsgSpace A n"
    using image_length [OF img] len by simp
  ultimately show thesis
    using img by (intro that [of "ep\<lparr>src := Some ?b\<rparr>" gap pad])
      (simp_all add: ep_wf_def cb_wf_def src_bytes_def cb_bytes_def)
qed

lemma getSrc_skip:
  assumes img: "cmsg_image A h gap data pad" "data \<noteq> []"
    and skip: "hLevel h \<noteq> IPPROTO_IP A" "hLevel h \<noteq> IPPROTO_IPV6 A"
  shows "getSrc_loop A (hdr_bytes A h @ gap @ data @ pad @ bs) ep = getSrc_loop A bs ep"
  using image_longer [OF img, of bs] parse_image [OF img(1), of bs]
    parse_shrinks [OF parse_image [OF img(1), of bs]] skip
  by (subst getSrc_loop.simps) simp

lemma getSrc_returns: "\<exists>ep'. getSrc_loop A bs ep = Ret ep'"
proof (induction "length bs" arbitrary: bs rule: less_induct)
  case less
  have "\<exists>ep'. store_src A n h data ep = Ret ep'" for n h data
    by (auto simp: store_src_def Let_def cb_reslice_def split: option.splits)
  then show ?case
    using less parse_shrinks by (subst getSrc_loop.simps) (auto split: sum.splits)
qed

lemma getSrc_find:
  assumes "cmsg_encodes A bs (pre @ (h, data) # post)"
    and "\<forall>(h', d') \<in> set pre. d' \<noteq> [] \<and> hLevel h' \<noteq> IPPROTO_IP A \<and> hLevel h' \<noteq> IPPROTO_IPV6 A"
    and "data \<noteq> []"
    and "hLevel h = IPPROTO_IP A \<and> hType h = IP_PKTINFO A \<and> n = SizeofInet4Pktinfo A \<or>
         hLevel h = IPPROTO_IPV6 A \<and> hType h = IPV6_PKTINFO A \<and> n = SizeofInet6Pktinfo A"
  shows "getSrc_loop A bs ep = store_src A n h data ep"
    and "hLen h = CmsgLen A (length data)"
proof -
  have "getSrc_loop A bs ep = store_src A n h data ep \<and> hLen h = CmsgLen A (length data)"
    using assms
  proof (induction pre arbitrary: bs)
    case Nil
    then obtain gap pad bs' where img: "cmsg_image A h gap data pad"
      and bs: "bs = hdr_bytes A h @ gap @ data @ pad @ bs'"
      by (auto elim: cmsg_encodes.cases)
    show ?case
      using Nil.prems image_longer [OF img, of bs'] parse_image [OF img, of bs'] IP_IPV6 img
      unfolding bs by (subst getSrc_loop.simps) (auto simp: cmsg_image_def)
  next
    case (Cons c pre)
    obtain h' d' where c: "c = (h', d')" by (cases c)
    from Cons.prems(1) c obtain gap pad bs' where img: "cmsg_image A h' gap d' pad"
      and bs: "bs = hdr_bytes A h' @ gap @ d' @ pad @ bs'"
      and rest: "cmsg_encodes A bs' (pre @ (h, data) # post)"
      by (auto elim: cmsg_encodes.cases)
    show ?case
      using Cons.IH [OF rest] Cons.prems c getSrc_skip [OF img] bs by auto
  qed
  then show "getSrc_loop A bs ep = store_src A n h data ep" "hLen h = CmsgLen A (length data)"
    by blast+
qed

lemma ClearSrc_wf: "ep_wf ep \<Longrightarrow> ep_wf (ClearSrc ep)"
  by (auto simp: ep_wf_def ClearSrc_def cb_wf_def split: option.splits)

text \<open>
  Receiving and replaying: the endpoint holds the PKTINFO message as received, its struct is
  the one the accessors read, and \<open>setSrcControl\<close> puts that message, alone, on the next packet.
\<close>

lemma sticky_round:
  assumes enc: "cmsg_encodes A control (pre @ (h, data) # post)"
    and pre: "\<forall>(h', d') \<in> set pre. d' \<noteq> [] \<and> hLevel h' \<noteq> IPPROTO_IP A \<and> hLevel h' \<noteq> IPPROTO_IPV6 A"
    and kind: "hLevel h = IPPROTO_IP A \<and> hType h = IP_PKTINFO A \<and> n = SizeofInet4Pktinfo A \<or>
         hLevel h = IPPROTO_IPV6 A \<and> hType h = IPV6_PKTINFO A \<and> n = SizeofInet6Pktinfo A"
    and len: "length data = n" and wf: "ep_wf ep" and cap: "CmsgSpace A n \<le> cb_cap out"
  obtains ep' where "getSrcFromControl Linux A control ep = Ret ep'" "AddrPort ep' = AddrPort ep"
    "src_len ep' = CmsgSpace A n" "pktinfo_at A ep' n = data"
    "cmsg_list A (cb_bytes (setSrcControl Linux out ep')) = [(h, data)]"
proof -
  have ne: "data \<noteq> []" using len kind Pktinfo_pos by auto
  have bound: "CmsgLen A n < 2 ^ 31" using kind Pktinfo_bound by auto
  note find = getSrc_find [OF enc pre ne kind]
  obtain ep' gap pad where st: "store_src A n h data (ClearSrc ep) = Ret ep'"
    "AddrPort ep' = AddrPort (ClearSrc ep)" "ep_wf ep'" and img: "cmsg_image A h gap data pad"
    and bytes: "src_bytes ep' = hdr_bytes A h @ gap @ data @ pad"
    using store_src_image [OF ClearSrc_wf [OF wf], of h n data] find(2) len bound by blast
  have sl: "src_len ep' = CmsgSpace A n"
    using image_length [OF img] bytes len length_src_bytes [OF st(3)] by simp
  have "cmsg_list A (cb_bytes (setSrcControl Linux out ep')) = [(h, data)]"
    using setSrcControl_bytes [OF st(3)] sl cap bytes list_encodes [OF encodes_single [OF img]] ne
    by simp
  moreover have "pktinfo_at A ep' n = data"
    using img len Len_hdr by (simp add: pktinfo_at_def bytes cmsg_image_def hdr_length)
  ultimately show thesis
    using that [of ep'] st sl find(1) by (simp add: getSrcFromControl_def)
qed

end

end
