(* ===== verification/Std_Bind.thy ===== *)
theory Std_Bind
  imports Conn Controlfns Sticky
begin

text \<open>
  The life cycle of \<open>StdNetBind\<close> (\<open>bind_std.go\<close>): construction, the two pools, \<open>Open\<close> with its
  two families and its retries, \<open>Close\<close>, and the socket marks and descriptors
  (\<open>mark_unix.go\<close>, \<open>mark_default.go\<close>, \<open>boundif_android.go\<close>). The mutex makes each of these
  operations atomic; they are functions from the bind and the world to both.
\<close>

section \<open>State\<close>

definition FamilyOrderIPv6First :: int where
  "FamilyOrderIPv6First = 1"

text \<open>\<open>OnFamilyOpenError\<close> is a callback of the caller: its calls are part of the history, and the
  field says whether it is set.\<close>

record std_options =
  oFamilyOrder :: int
  oAllowSingleFamily :: bool
  oOnFamilyOpenError :: bool
  oBatchSize :: int

record std_bind =
  s_network :: "network option"
  s_options :: std_options
  s_ipv4 :: "conn option"
  s_ipv6 :: "conn option"
  s_ipv4PC :: "conn option"
  s_ipv6PC :: "conn option"
  s_ipv4TxOffload :: bool
  s_ipv4RxOffload :: bool
  s_ipv6TxOffload :: bool
  s_ipv6RxOffload :: bool
  s_udpAddrPool :: "udp_addr list"
  s_msgsPool :: "message list list"
  s_blackhole4 :: bool
  s_blackhole6 :: bool
  s_batchSize :: nat

definition stdNetBindBatchSize :: "goos \<Rightarrow> network option \<Rightarrow> std_options \<Rightarrow> nat" where
  "stdNetBindBatchSize p net opts =
     (if oBatchSize opts > 0 then nat (oBatchSize opts)
      else case net of
        None \<Rightarrow> 1
      | Some n \<Rightarrow> if nIsNative n \<and> (p = Linux \<or> p = Android) then IdealBatchSize else 1)"

definition NewStdNetBindWithOptions :: "goos \<Rightarrow> network option \<Rightarrow> std_options \<Rightarrow> std_bind" where
  "NewStdNetBindWithOptions p net opts =
     \<lparr>s_network = net, s_options = opts, s_ipv4 = None, s_ipv6 = None, s_ipv4PC = None, s_ipv6PC = None,
      s_ipv4TxOffload = False, s_ipv4RxOffload = False, s_ipv6TxOffload = False, s_ipv6RxOffload = False,
      s_udpAddrPool = [], s_msgsPool = [], s_blackhole4 = False, s_blackhole6 = False,
      s_batchSize = stdNetBindBatchSize p net opts\<rparr>"

definition NewStdNetBind :: "goos \<Rightarrow> network option \<Rightarrow> std_bind" where
  "NewStdNetBind p net = NewStdNetBindWithOptions p net
     \<lparr>oFamilyOrder = 0, oAllowSingleFamily = False, oOnFamilyOpenError = False, oBatchSize = 0\<rparr>"

definition BatchSize :: "std_bind \<Rightarrow> nat" where
  "BatchSize s = s_batchSize s"

section \<open>Pools\<close>

text \<open>\<open>sync.Pool.Get\<close>: a pooled value or a new one.\<close>

definition pool_get :: "nat option \<Rightarrow> 'a \<Rightarrow> 'a list \<Rightarrow> 'a \<times> 'a list" where
  "pool_get choice new pool =
     (case choice of
        None \<Rightarrow> (new, pool)
      | Some i \<Rightarrow> if i < length pool then (pool ! i, take i pool @ drop (Suc i) pool) else (new, pool))"

definition new_message :: "goos \<Rightarrow> cmsg_abi \<Rightarrow> message" where
  "new_message p A =
     \<lparr>Buffers = [nil_slice], OOB = cb_make 0 (stickyControlSize p A + gsoControlSize p A),
      Addr = None, N = 0, NN = 0\<rparr>"

definition new_udp_addr :: udp_addr where
  "new_udp_addr = \<lparr>ua_IP = cb_make 16 16, ua_Port = 0, ua_Zone = []\<rparr>"

definition getMessages :: "env \<Rightarrow> cmsg_abi \<Rightarrow> std_bind \<Rightarrow> world \<Rightarrow> message list \<times> std_bind" where
  "getMessages E A s w =
     (let (msgs, pool) = pool_get (ePoolGet E MsgsPool w) (replicate (s_batchSize s) (new_message (eGOOS E) A))
                           (s_msgsPool s)
      in (msgs, s\<lparr>s_msgsPool := pool\<rparr>))"

definition reset_message :: "message \<Rightarrow> message" where
  "reset_message m = \<lparr>Buffers = Buffers m, OOB = (OOB m)\<lparr>clen := 0\<rparr>, Addr = None, N = 0, NN = 0\<rparr>"

definition putMessages :: "message list \<Rightarrow> std_bind \<Rightarrow> std_bind" where
  "putMessages msgs s = s\<lparr>s_msgsPool := map reset_message msgs # s_msgsPool s\<rparr>"

definition getUDPAddr :: "env \<Rightarrow> std_bind \<Rightarrow> world \<Rightarrow> udp_addr \<times> std_bind" where
  "getUDPAddr E s w =
     (let (ua, pool) = pool_get (ePoolGet E UdpAddrPool w) new_udp_addr (s_udpAddrPool s)
      in (ua, s\<lparr>s_udpAddrPool := pool\<rparr>))"

definition putUDPAddr :: "udp_addr \<Rightarrow> std_bind \<Rightarrow> std_bind" where
  "putUDPAddr ua s = s\<lparr>s_udpAddrPool := ua # s_udpAddrPool s\<rparr>"

text \<open>An \<open>Endpoint\<close> value: a \<open>*StdNetEndpoint\<close>, or one of another implementation with its \<open>DstIP\<close>.\<close>

datatype endpoint = StdEndpoint std_endpoint | OtherEndpoint addr

definition endpoint_DstIP :: "endpoint \<Rightarrow> addr" where
  "endpoint_DstIP e = (case e of StdEndpoint ep \<Rightarrow> DstIP ep | OtherEndpoint a \<Rightarrow> a)"

section \<open>Open\<close>

definition familyOrder :: "std_bind \<Rightarrow> string \<times> string" where
  "familyOrder s =
     (if oFamilyOrder (s_options s) = FamilyOrderIPv6First then (''udp6'', ''udp4'') else (''udp4'', ''udp6''))"

definition listenAddress :: "string \<Rightarrow> nat \<Rightarrow> string" where
  "listenAddress nw port =
     (if nw = ''udp4'' then JoinHostPort ''0.0.0.0'' (Itoa port)
      else if nw = ''udp6'' then JoinHostPort ''::'' (Itoa port)
      else '':'' @ Itoa port)"

definition listenNet :: "env \<Rightarrow> std_bind \<Rightarrow> string \<Rightarrow> nat \<Rightarrow> world \<Rightarrow> (goerror + conn \<times> nat) \<times> world" where
  "listenNet E s nw port w =
     (case s_network s of
        None \<Rightarrow> (Inl ErrNoNetwork, w)
      | Some net \<Rightarrow>
          let address = listenAddress nw port;
              (r, w1) = net_Listen net (listenConfig E) nw address w
          in case r of
               Inl err \<Rightarrow> (Inl err, w1)
             | Inr c \<Rightarrow>
                 let (cerr, w2) = configureSocket E c nw address w1
                 in case cerr of
                      Some err \<Rightarrow> (Inl err, snd (conn_Close E c w2))
                    | None \<Rightarrow>
                        let laddr = eLocalAddr E w2 c
                        in case eResolveUDPAddr E (fst laddr) (snd laddr) of
                             Inl err \<Rightarrow> (Inl err, snd (conn_Close E c w2))
                           | Inr uport \<Rightarrow> (Inr (c, uport), w2))"

text \<open>
  The part of \<open>Open\<close> from the label \<open>again\<close> to the assignment of the families: the first and
  the second connection, the port, and the error kept for \<open>OnFamilyOpenError\<close>.
\<close>

record opened =
  op_first :: "conn option"
  op_second :: "conn option"
  op_port :: nat
  op_familyError :: "(string \<times> goerror) option"

datatype attempt = Again world | Done "goerror + opened" world

text \<open>The code after the label; \<open>Again\<close> is the \<open>goto\<close>.\<close>

definition open_attempt :: "env \<Rightarrow> std_bind \<Rightarrow> nat \<Rightarrow> nat \<Rightarrow> world \<Rightarrow> attempt" where
  "open_attempt E s uport tries w =
     (let (firstNetwork, secondNetwork) = familyOrder s;
          (r1, w1) = listenNet E s firstNetwork uport w
      in case r1 of
           Inl firstErr \<Rightarrow>
             if \<not> errors_Is firstErr EAFNOSUPPORT then Done (Inl firstErr) w1
             else let (r2, w2) = listenNet E s secondNetwork uport w1
                  in (case r2 of
                        Inr (c2, secondPort) \<Rightarrow>
                          Done (Inr \<lparr>op_first = None, op_second = Some c2, op_port = secondPort, op_familyError = None\<rparr>) w2
                      | Inl secondErr \<Rightarrow>
                          if \<not> errors_Is secondErr EAFNOSUPPORT then Done (Inl secondErr) w2
                          else Done (Inl EAFNOSUPPORT) w2)
         | Inr (c1, actualPort) \<Rightarrow>
             let (r2, w2) = listenNet E s secondNetwork actualPort w1
             in case r2 of
                  Inr (c2, secondPort) \<Rightarrow>
                    Done (Inr \<lparr>op_first = Some c1, op_second = Some c2, op_port = actualPort, op_familyError = None\<rparr>) w2
                | Inl secondErr \<Rightarrow>
                    if uport = 0 \<and> \<not> oAllowSingleFamily (s_options s) \<and> errors_Is secondErr EADDRINUSE \<and> tries < 100
                    then Again (snd (conn_Close E c1 w2))
                    else if oAllowSingleFamily (s_options s)
                    then Done (Inr \<lparr>op_first = Some c1, op_second = None, op_port = actualPort,
                                    op_familyError = Some (secondNetwork, secondErr)\<rparr>) w2
                    else if \<not> errors_Is secondErr EAFNOSUPPORT
                    then Done (Inl secondErr) (snd (conn_Close E c1 w2))
                    else Done (Inr \<lparr>op_first = Some c1, op_second = None, op_port = actualPort, op_familyError = None\<rparr>) w2)"

lemma open_attempt_Again: "open_attempt E s uport tries w = Again w' \<Longrightarrow> tries < 100"
  by (auto simp: open_attempt_def Let_def split: prod.splits sum.splits if_splits)

function open_again :: "env \<Rightarrow> std_bind \<Rightarrow> nat \<Rightarrow> nat \<Rightarrow> world \<Rightarrow> (goerror + opened) \<times> world" where
  "open_again E s uport tries w =
     (case open_attempt E s uport tries w of
        Again w' \<Rightarrow> open_again E s uport (tries + 1) w'
      | Done r w' \<Rightarrow> (r, w'))"
  by pat_completeness auto
termination
  by (relation "measure (\<lambda>(E, s, uport, tries, w). 100 - tries)") (auto dest: open_attempt_Again)

declare open_again.simps [simp del]

text \<open>
  The closures \<open>Open\<close> returns, by what they capture: the native connection for batch reads, the
  connection, and whether receive offload is on.
\<close>

datatype receive_func =
    ReceiveIPv4 "conn option" conn bool
  | ReceiveIPv6 "conn option" conn bool

text \<open>\<open>nativeConn := unwrapUDPConn(conn); nativeConn != nil && GOOS is linux or android\<close>.\<close>

definition batch_conn :: "env \<Rightarrow> conn \<Rightarrow> conn option outcome" where
  "batch_conn E c =
     obind (unwrapUDPConn E c) (\<lambda>native.
       Ret (if eGOOS E = Linux \<or> eGOOS E = Android then native else None))"

definition install4 ::
  "env \<Rightarrow> conn option \<Rightarrow> std_bind \<Rightarrow> world \<Rightarrow> (receive_func list \<times> std_bind \<times> world) outcome" where
  "install4 E oc s w =
     (case oc of
        None \<Rightarrow> Ret ([], s, w)
      | Some c \<Rightarrow>
          let ((tx, rx), w') = supportsUDPOffload E c w
          in obind (batch_conn E c) (\<lambda>pc.
               Ret ([ReceiveIPv4 pc c rx],
                    s\<lparr>s_ipv4TxOffload := tx, s_ipv4RxOffload := rx,
                      s_ipv4PC := (if pc = None then s_ipv4PC s else pc), s_ipv4 := Some c\<rparr>, w')))"

definition install6 ::
  "env \<Rightarrow> conn option \<Rightarrow> std_bind \<Rightarrow> world \<Rightarrow> (receive_func list \<times> std_bind \<times> world) outcome" where
  "install6 E oc s w =
     (case oc of
        None \<Rightarrow> Ret ([], s, w)
      | Some c \<Rightarrow>
          let ((tx, rx), w') = supportsUDPOffload E c w
          in obind (batch_conn E c) (\<lambda>pc.
               Ret ([ReceiveIPv6 pc c rx],
                    s\<lparr>s_ipv6TxOffload := tx, s_ipv6RxOffload := rx,
                      s_ipv6PC := (if pc = None then s_ipv6PC s else pc), s_ipv6 := Some c\<rparr>, w')))"

definition open_callback :: "std_bind \<Rightarrow> (string \<times> goerror) option \<Rightarrow> world \<Rightarrow> world" where
  "open_callback s fe w =
     (case fe of
        None \<Rightarrow> w
      | Some (nw, err) \<Rightarrow>
          if oOnFamilyOpenError (s_options s) then record_conn (EvOnFamilyOpenError nw err) w else w)"

definition Open ::
  "env \<Rightarrow> std_bind \<Rightarrow> port \<Rightarrow> world
    \<Rightarrow> ((goerror + receive_func list \<times> port) \<times> std_bind \<times> world) outcome" where
  "Open E s uport w =
     (if s_ipv4 s \<noteq> None \<or> s_ipv6 s \<noteq> None then Ret (Inl ErrBindAlreadyOpen, s, w)
      else let (r, w1) = open_again E s (unat uport) 0 w
           in case r of
                Inl err \<Rightarrow> Ret (Inl err, s, w1)
              | Inr op \<Rightarrow>
                  let (v4conn, v6conn) =
                        (if fst (familyOrder s) = ''udp4'' then (op_first op, op_second op)
                         else (op_second op, op_first op))
                  in obind (install4 E v4conn s w1) (\<lambda>(fns4, s2, w2).
                       obind (install6 E v6conn s2 w2) (\<lambda>(fns6, s3, w3).
                         let fns = fns4 @ fns6;
                             w4 = open_callback s3 (op_familyError op) w3
                         in Ret (if fns = [] then Inl EAFNOSUPPORT else Inr (fns, of_nat (op_port op)), s3, w4))))"

section \<open>Close\<close>

definition close_family :: "env \<Rightarrow> conn option \<Rightarrow> world \<Rightarrow> goerror option \<times> world" where
  "close_family E oc w = (case oc of None \<Rightarrow> (None, w) | Some c \<Rightarrow> conn_Close E c w)"

definition Close :: "env \<Rightarrow> std_bind \<Rightarrow> world \<Rightarrow> goerror option \<times> std_bind \<times> world" where
  "Close E s w =
     (let (err1, w1) = close_family E (s_ipv4 s) w;
          (err2, w2) = close_family E (s_ipv6 s) w1
      in (if err1 \<noteq> None then err1 else err2,
          s\<lparr>s_ipv4PC := (if s_ipv4 s \<noteq> None then None else s_ipv4PC s), s_ipv4 := None,
            s_ipv6PC := (if s_ipv6 s \<noteq> None then None else s_ipv6PC s), s_ipv6 := None,
            s_blackhole4 := False, s_blackhole6 := False,
            s_ipv4TxOffload := False, s_ipv4RxOffload := False,
            s_ipv6TxOffload := False, s_ipv6RxOffload := False\<rparr>, w2))"

section \<open>Marks and descriptors\<close>

definition fwmarkIoctl :: "goos \<Rightarrow> int" where
  "fwmarkIoctl p =
     (if p = Linux \<or> p = Android then 36 else if p = FreeBSD then 0x1015 else if p = OpenBSD then 0x1021 else 0)"

text \<open>One family of \<open>SetMark\<close>; \<open>operr\<close> is the variable both callbacks assign.\<close>

definition set_mark_on ::
  "env \<Rightarrow> conn option \<Rightarrow> 32 word \<Rightarrow> goerror option \<Rightarrow> world \<Rightarrow> goerror option \<times> goerror option \<times> world" where
  "set_mark_on E oc mark operr w =
     (case oc of
        None \<Rightarrow> (None, operr, w)
      | Some c \<Rightarrow>
          let (err, operr', t) = run_control (eSockoptControl E w c) operr
                (\<lambda>f. sys_setsockopt E f (Opt_SOL_SOCKET (fwmarkIoctl (eGOOS E))) (uint mark)) (w_sock w);
              err' = (if err = None then operr' else err)
          in (eIgnoreUnsupported E err', operr', w\<lparr>w_sock := t\<rparr>))"

definition SetMark :: "env \<Rightarrow> std_bind \<Rightarrow> 32 word \<Rightarrow> world \<Rightarrow> goerror option \<times> world" where
  "SetMark E s mark w =
     (if fwmarkIoctl (eGOOS E) = 0 then (None, w)
      else let (err4, operr, w1) = set_mark_on E (s_ipv4 s) mark None w
           in if err4 \<noteq> None then (err4, w1)
              else let (err6, _, w2) = set_mark_on E (s_ipv6 s) mark operr w1 in (err6, w2))"

definition PeekLookAtSocketFd4 :: "env \<Rightarrow> std_bind \<Rightarrow> world \<Rightarrow> int \<times> goerror option" where
  "PeekLookAtSocketFd4 E s w = (case eGetFd E w (s_ipv4 s) of Inl err \<Rightarrow> (- 1, Some err) | Inr f \<Rightarrow> (f, None))"

definition PeekLookAtSocketFd6 :: "env \<Rightarrow> std_bind \<Rightarrow> world \<Rightarrow> int \<times> goerror option" where
  "PeekLookAtSocketFd6 E s w = (case eGetFd E w (s_ipv6 s) of Inl err \<Rightarrow> (- 1, Some err) | Inr f \<Rightarrow> (f, None))"

section \<open>Sockets held and sockets open\<close>

definition held_by :: "std_bind \<Rightarrow> conn \<Rightarrow> int" where
  "held_by s c = holds (s_ipv4 s) c + holds (s_ipv6 s) c"

lemma configureSocket_leaks [simp]: "configureSocket E d nw ad w = (r, w') \<Longrightarrow> leaks w0 w' c = leaks w0 w c"
  by (auto simp: configureSocket_def leaks_def Let_def split: prod.splits option.splits if_splits)

lemma supportsUDPOffload_conn: "supportsUDPOffload E d w = (r, w') \<Longrightarrow> w_conn w' = w_conn w"
  by (auto simp: supportsUDPOffload_def Let_def split: prod.splits if_splits)

lemma close_leaks: "leaks w0 (snd (conn_Close E d w)) c = leaks w0 w c - holds (Some d) c"
  by (simp add: conn_Close_def record_conn_def leaks_def)

lemma listenNet_leaks:
  assumes "listenNet E s nw port w = (r, w')"
  shows "leaks w0 w' c = leaks w0 w c + (case r of Inl _ \<Rightarrow> 0 | Inr (d, _) \<Rightarrow> holds (Some d) c)"
proof (cases "s_network s")
  case None
  then show ?thesis using assms by (auto simp: listenNet_def)
next
  case (Some net)
  let ?ad = "listenAddress nw port"
  obtain r1 w1 where l: "net_Listen net (listenConfig E) nw ?ad w = (r1, w1)" by fastforce
  have l1: "leaks w0 w1 c = leaks w0 w c + (case r1 of Inl _ \<Rightarrow> 0 | Inr d \<Rightarrow> holds (Some d) c)"
    using net_Listen_leaks [OF l, of c] leaks_trans [of w0 w1 c w] by simp
  show ?thesis
  proof (cases r1)
    case (Inl err)
    then show ?thesis using assms Some l l1 by (auto simp: listenNet_def Let_def)
  next
    case (Inr d)
    obtain ce w2 where cs: "configureSocket E d nw ?ad w1 = (ce, w2)" by fastforce
    then have "leaks w0 w2 c = leaks w0 w c + holds (Some d) c"
      using l1 Inr by simp
    then show ?thesis
      using assms Some l Inr cs
      by (auto simp: listenNet_def Let_def close_leaks split: option.splits sum.splits)
  qed
qed

lemma open_attempt_leaks:
  "leaks w0 (case open_attempt E s uport tries w of Again w' \<Rightarrow> w' | Done _ w' \<Rightarrow> w') c = leaks w0 w c +
     (case open_attempt E s uport tries w of
        Done (Inr op) _ \<Rightarrow> holds (op_first op) c + holds (op_second op) c | _ \<Rightarrow> 0)"
proof -
  obtain n1 n2 where fo: "familyOrder s = (n1, n2)" by fastforce
  obtain r1 w1 where l1: "listenNet E s n1 uport w = (r1, w1)" by fastforce
  note k1 = listenNet_leaks [OF l1, of w0 c]
  show ?thesis
  proof (cases r1)
    case (Inl e1)
    obtain r2 w2 where l2: "listenNet E s n2 uport w1 = (r2, w2)" by fastforce
    show ?thesis
      using fo l1 l2 Inl k1 listenNet_leaks [OF l2, of w0 c]
      by (auto simp: open_attempt_def split: sum.splits)
  next
    case (Inr cp)
    obtain c1 p1 where cp: "cp = (c1, p1)" by fastforce
    obtain r2 w2 where l2: "listenNet E s n2 p1 w1 = (r2, w2)" by fastforce
    show ?thesis
      using fo l1 l2 Inr cp k1 listenNet_leaks [OF l2, of w0 c]
      by (auto simp: open_attempt_def close_leaks split: sum.splits)
  qed
qed

lemma open_again_leaks:
  "open_again E s uport tries w = (r, w') \<Longrightarrow>
   leaks w0 w' c = leaks w0 w c + (case r of Inl _ \<Rightarrow> 0 | Inr op \<Rightarrow> holds (op_first op) c + holds (op_second op) c)"
proof (induction E s uport tries w rule: open_again.induct)
  case (1 E s uport tries w)
  show ?case
    using "1.prems" "1.IH" open_attempt_leaks [of w0 E s uport tries w c]
    by (subst (asm) open_again.simps) (auto split: attempt.splits sum.splits)
qed

text \<open>What one family of \<open>Open\<close> changes.\<close>

definition with4 :: "conn option \<Rightarrow> bool \<Rightarrow> bool \<Rightarrow> conn option \<Rightarrow> std_bind \<Rightarrow> std_bind" where
  "with4 oc tx rx pc s =
     (if oc = None then s
      else s\<lparr>s_ipv4TxOffload := tx, s_ipv4RxOffload := rx,
             s_ipv4PC := (if pc = None then s_ipv4PC s else pc), s_ipv4 := oc\<rparr>)"

definition with6 :: "conn option \<Rightarrow> bool \<Rightarrow> bool \<Rightarrow> conn option \<Rightarrow> std_bind \<Rightarrow> std_bind" where
  "with6 oc tx rx pc s =
     (if oc = None then s
      else s\<lparr>s_ipv6TxOffload := tx, s_ipv6RxOffload := rx,
             s_ipv6PC := (if pc = None then s_ipv6PC s else pc), s_ipv6 := oc\<rparr>)"

definition fns4 :: "conn option \<Rightarrow> bool \<Rightarrow> conn option \<Rightarrow> receive_func list" where
  "fns4 oc rx pc = (case oc of None \<Rightarrow> [] | Some c \<Rightarrow> [ReceiveIPv4 pc c rx])"

definition fns6 :: "conn option \<Rightarrow> bool \<Rightarrow> conn option \<Rightarrow> receive_func list" where
  "fns6 oc rx pc = (case oc of None \<Rightarrow> [] | Some c \<Rightarrow> [ReceiveIPv6 pc c rx])"

lemma install4_Ret:
  assumes "install4 E oc s w = Ret (fns, s', w')"
  obtains tx rx pc where "s' = with4 oc tx rx pc s" "fns = fns4 oc rx pc" "w_conn w' = w_conn w"
proof (cases oc)
  case None
  then show thesis using assms that by (simp add: install4_def with4_def fns4_def)
next
  case (Some d)
  obtain tx rx w1 where o: "supportsUDPOffload E d w = ((tx, rx), w1)" by (metis surj_pair)
  then obtain pc where r: "fns = [ReceiveIPv4 pc d rx]" "w' = w1" "s' = with4 oc tx rx pc s"
    using assms Some unfolding install4_def by (auto simp: obind_eq_Ret with4_def)
  then show thesis using that [of tx rx pc] Some supportsUDPOffload_conn [OF o] by (simp add: fns4_def)
qed

lemma install6_Ret:
  assumes "install6 E oc s w = Ret (fns, s', w')"
  obtains tx rx pc where "s' = with6 oc tx rx pc s" "fns = fns6 oc rx pc" "w_conn w' = w_conn w"
proof (cases oc)
  case None
  then show thesis using assms that by (simp add: install6_def with6_def fns6_def)
next
  case (Some d)
  obtain tx rx w1 where o: "supportsUDPOffload E d w = ((tx, rx), w1)" by (metis surj_pair)
  then obtain pc where r: "fns = [ReceiveIPv6 pc d rx]" "w' = w1" "s' = with6 oc tx rx pc s"
    using assms Some unfolding install6_def by (auto simp: obind_eq_Ret with6_def)
  then show thesis using that [of tx rx pc] Some supportsUDPOffload_conn [OF o] by (simp add: fns6_def)
qed

lemma open_callback_leaks [simp]: "leaks w0 (open_callback s fe w) c = leaks w0 w c"
  by (auto simp: open_callback_def leaks_def record_conn_def split: option.splits)

definition closed :: "std_bind \<Rightarrow> bool" where
  "closed s \<longleftrightarrow> s_ipv4 s = None \<and> s_ipv6 s = None"

definition v4_of :: "std_bind \<Rightarrow> opened \<Rightarrow> conn option" where
  "v4_of s op = (if fst (familyOrder s) = ''udp4'' then op_first op else op_second op)"

definition v6_of :: "std_bind \<Rightarrow> opened \<Rightarrow> conn option" where
  "v6_of s op = (if fst (familyOrder s) = ''udp4'' then op_second op else op_first op)"

lemma Open_installs:
  assumes "closed s" "open_again E s (unat uport) 0 w = (Inr op, w1)"
  shows "Open E s uport w =
    obind (install4 E (v4_of s op) s w1) (\<lambda>(f4, s2, w2).
      obind (install6 E (v6_of s op) s2 w2) (\<lambda>(f6, s3, w3).
        Ret (if f4 @ f6 = [] then Inl EAFNOSUPPORT else Inr (f4 @ f6, of_nat (op_port op)), s3,
             open_callback s3 (op_familyError op) w3)))"
  using assms unfolding Open_def closed_def v4_of_def v6_of_def
  by (cases "fst (familyOrder s) = ''udp4''") (simp_all add: Let_def)

text \<open>The three ways \<open>Open\<close> returns.\<close>

lemma Open_cases:
  assumes "Open E s uport w = Ret (r, s', w')"
  obtains (already) "\<not> closed s" "r = Inl ErrBindAlreadyOpen" "s' = s" "w' = w"
  | (failed) err where "closed s" "open_again E s (unat uport) 0 w = (Inl err, w')" "r = Inl err" "s' = s"
  | (installed) op w1 w3 tx4 rx4 pc4 tx6 rx6 pc6 where
      "closed s" "open_again E s (unat uport) 0 w = (Inr op, w1)"
      "s' = with6 (v6_of s op) tx6 rx6 pc6 (with4 (v4_of s op) tx4 rx4 pc4 s)"
      "w' = open_callback s' (op_familyError op) w3" "w_conn w3 = w_conn w1"
      "r = (if fns4 (v4_of s op) rx4 pc4 @ fns6 (v6_of s op) rx6 pc6 = [] then Inl EAFNOSUPPORT
            else Inr (fns4 (v4_of s op) rx4 pc4 @ fns6 (v6_of s op) rx6 pc6, of_nat (op_port op)))"
proof (cases "closed s")
  case False
  then have "r = Inl ErrBindAlreadyOpen" "s' = s" "w' = w" using assms by (auto simp: Open_def closed_def)
  then show thesis by (rule already [OF False])
next
  case True
  obtain r1 w1 where oa: "open_again E s (unat uport) 0 w = (r1, w1)" by fastforce
  show thesis
  proof (cases r1)
    case (Inl err)
    then have "r = Inl err" "s' = s" "w' = w1" using assms oa True by (auto simp: Open_def closed_def)
    then show thesis using failed [OF True, of err] oa Inl by simp
  next
    case (Inr op)
    with assms oa True obtain f4 s2 w2 f6 w3 where i: "install4 E (v4_of s op) s w1 = Ret (f4, s2, w2)"
      "install6 E (v6_of s op) s2 w2 = Ret (f6, s', w3)" "w' = open_callback s' (op_familyError op) w3"
      "r = (if f4 @ f6 = [] then Inl EAFNOSUPPORT else Inr (f4 @ f6, of_nat (op_port op)))"
      by (auto simp: Open_installs obind_eq_Ret)
    obtain tx4 rx4 pc4 where a: "s2 = with4 (v4_of s op) tx4 rx4 pc4 s" "f4 = fns4 (v4_of s op) rx4 pc4"
      "w_conn w2 = w_conn w1"
      by (rule install4_Ret [OF i(1)])
    obtain tx6 rx6 pc6 where b: "s' = with6 (v6_of s op) tx6 rx6 pc6 s2" "f6 = fns6 (v6_of s op) rx6 pc6"
      "w_conn w3 = w_conn w2"
      by (rule install6_Ret [OF i(2)])
    show thesis using installed [OF True, of op w1 tx6 rx6 pc6 tx4 rx4 pc4 w3] oa Inr i(3,4) a b by simp
  qed
qed

lemma Open_leaks:
  assumes "Open E s uport w = Ret (r, s', w')"
  shows "leaks w w' c = held_by s' c - held_by s c"
  using assms
proof (cases rule: Open_cases)
  case (failed err)
  then show ?thesis using open_again_leaks [OF failed(2), of w c] by simp
next
  case (installed op w1 w3 tx4 rx4 pc4 tx6 rx6 pc6)
  have "leaks w w1 c = holds (v4_of s op) c + holds (v6_of s op) c"
    using open_again_leaks [OF installed(2), of w c] by (simp add: v4_of_def v6_of_def)
  then have "leaks w w' c = holds (v4_of s op) c + holds (v6_of s op) c"
    using installed(4,5) by simp (simp add: leaks_def)
  moreover have "held_by s' c = holds (v4_of s op) c + holds (v6_of s op) c" "held_by s c = 0"
    using installed(1,3) by (auto simp: held_by_def closed_def with4_def with6_def)
  ultimately show ?thesis by simp
qed simp

text \<open>
  C4. \<open>Open\<close> accounts for every socket on every path, retries and errors included: what it
  leaves open beyond what was open before is exactly what the bind now holds.
\<close>

theorem Open_no_leak:
  assumes "Open E s uport w = Ret (r, s', w')"
  shows "leaks w w' c = held_by s' c - held_by s c"
  using assms by (rule Open_leaks)

section \<open>The state invariant\<close>

text \<open>A family without a socket has no batch connection, no offload and no black hole.\<close>

definition bind_wf :: "std_bind \<Rightarrow> bool" where
  "bind_wf s \<longleftrightarrow>
     (s_ipv4 s = None \<longrightarrow> s_ipv4PC s = None \<and> \<not> s_ipv4TxOffload s \<and> \<not> s_ipv4RxOffload s \<and> \<not> s_blackhole4 s) \<and>
     (s_ipv6 s = None \<longrightarrow> s_ipv6PC s = None \<and> \<not> s_ipv6TxOffload s \<and> \<not> s_ipv6RxOffload s \<and> \<not> s_blackhole6 s)"

lemma bind_wf_with:
  "bind_wf s \<Longrightarrow> bind_wf (with4 oc tx rx pc s)" "bind_wf s \<Longrightarrow> bind_wf (with6 oc tx rx pc s)"
  by (auto simp: bind_wf_def with4_def with6_def)

lemma bind_wf_New: "bind_wf (NewStdNetBindWithOptions p net opts)"
  by (simp add: bind_wf_def NewStdNetBindWithOptions_def)

lemma bind_wf_Open: "Open E s uport w = Ret (r, s', w') \<Longrightarrow> bind_wf s \<Longrightarrow> bind_wf s'"
  by (erule Open_cases) (auto intro: bind_wf_with)

lemma with_simps [simp]:
  "s_batchSize (with4 oc tx rx pc s) = s_batchSize s" "s_batchSize (with6 oc tx rx pc s) = s_batchSize s"
  "s_network (with4 oc tx rx pc s) = s_network s" "s_network (with6 oc tx rx pc s) = s_network s"
  "s_options (with4 oc tx rx pc s) = s_options s" "s_options (with6 oc tx rx pc s) = s_options s"
  "s_msgsPool (with4 oc tx rx pc s) = s_msgsPool s" "s_msgsPool (with6 oc tx rx pc s) = s_msgsPool s"
  "s_udpAddrPool (with4 oc tx rx pc s) = s_udpAddrPool s" "s_udpAddrPool (with6 oc tx rx pc s) = s_udpAddrPool s"
  by (simp_all add: with4_def with6_def)

lemma with_family:
  "s_ipv4 (with4 oc tx rx pc s) = (if oc = None then s_ipv4 s else oc)"
  "s_ipv4PC (with4 oc tx rx pc s) = (if oc = None \<or> pc = None then s_ipv4PC s else pc)"
  "s_ipv4RxOffload (with4 oc tx rx pc s) = (if oc = None then s_ipv4RxOffload s else rx)"
  "s_ipv6 (with6 oc tx rx pc s) = (if oc = None then s_ipv6 s else oc)"
  "s_ipv6PC (with6 oc tx rx pc s) = (if oc = None \<or> pc = None then s_ipv6PC s else pc)"
  "s_ipv6RxOffload (with6 oc tx rx pc s) = (if oc = None then s_ipv6RxOffload s else rx)"
  "s_ipv4 (with6 oc tx rx pc s) = s_ipv4 s" "s_ipv6 (with4 oc tx rx pc s) = s_ipv6 s"
  "s_ipv4PC (with6 oc tx rx pc s) = s_ipv4PC s" "s_ipv6PC (with4 oc tx rx pc s) = s_ipv6PC s"
  "s_ipv4RxOffload (with6 oc tx rx pc s) = s_ipv4RxOffload s"
  "s_ipv6RxOffload (with4 oc tx rx pc s) = s_ipv6RxOffload s"
  by (simp_all add: with4_def with6_def)

lemma Close_leaks:
  assumes "Close E s w = (err, s', w')"
  shows "leaks w0 w' c = leaks w0 w c - held_by s c"
  using assms
  by (auto simp: Close_def close_family_def conn_Close_def record_conn_def leaks_def held_by_def
      split: option.splits prod.splits)

lemma Close_state:
  assumes "Close E s w = (err, s', w')" "bind_wf s"
  shows "s' = (NewStdNetBindWithOptions p (s_network s) (s_options s))
      \<lparr>s_udpAddrPool := s_udpAddrPool s, s_msgsPool := s_msgsPool s, s_batchSize := s_batchSize s\<rparr>"
  using assms
  by (auto simp: Close_def bind_wf_def NewStdNetBindWithOptions_def split: prod.splits)

section \<open>Bounds and termination of Open\<close>

fun is_listen :: "conn_event \<Rightarrow> bool" where
  "is_listen (EvListen _ _ _) = True"
| "is_listen _ = False"

definition listens :: "world \<Rightarrow> nat" where
  "listens w = length (filter is_listen (w_conn w))"

lemma listenNet_listens:
  "listenNet E s nw port w = (r, w') \<Longrightarrow> listens w' \<le> Suc (listens w)"
  by (auto simp: listenNet_def net_Listen_def conn_Close_def record_conn_def listens_def configureSocket_def Let_def
      split: option.splits sum.splits prod.splits if_splits)

lemma open_attempt_listens:
  "listens (case open_attempt E s uport tries w of Again w' \<Rightarrow> w' | Done _ w' \<Rightarrow> w') \<le> listens w + 2"
proof -
  obtain n1 n2 where fo: "familyOrder s = (n1, n2)" by fastforce
  have step: "listens (snd (listenNet E s nw port u)) \<le> Suc (listens u)" for nw port u
    by (rule listenNet_listens [OF prod.collapse [symmetric]])
  have two: "listens (snd (listenNet E s n2 port (snd (listenNet E s n1 uport w)))) \<le> listens w + 2" for port
    using step [of n2 port "snd (listenNet E s n1 uport w)"] step [of n1 uport w] by simp
  have close: "listens (snd (conn_Close E c u)) = listens u" for c u
    by (simp add: conn_Close_def record_conn_def listens_def)
  show ?thesis
    using two step [of n1 uport w] fo
    by (auto simp: open_attempt_def close Let_def split: prod.splits sum.splits) (metis snd_conv)+
qed

lemma open_again_listens:
  "tries \<le> 100 \<Longrightarrow> listens (snd (open_again E s uport tries w)) \<le> listens w + 2 * (101 - tries)"
proof (induction E s uport tries w rule: open_again.induct)
  case (1 E s uport tries w)
  show ?case
  proof (cases "open_attempt E s uport tries w")
    case (Again w')
    then have "listens (snd (open_again E s uport (tries + 1) w')) \<le> listens w' + 2 * (101 - (tries + 1))"
      using "1.IH" [OF Again] open_attempt_Again [OF Again] by simp
    then show ?thesis
      using Again open_attempt_listens [of E s uport tries w] open_attempt_Again [OF Again]
      by (subst open_again.simps) simp
  next
    case (Done r w')
    then show ?thesis
      using open_attempt_listens [of E s uport tries w] "1.prems" by (subst open_again.simps) simp
  qed
qed

lemma fns_Nil: "fns4 oc rx pc = [] \<longleftrightarrow> oc = None" "fns6 oc rx pc = [] \<longleftrightarrow> oc = None"
  by (auto simp: fns4_def fns6_def split: option.splits)

text \<open>
  C5. \<open>Open\<close> is all or nothing. When it succeeds the bind was closed and is now open with the
  invariant, and there is one receive function for each open family, in the order IPv4, IPv6,
  capturing the socket, batch connection and receive offload the bind holds; when it reports an
  error the bind is as it was.
\<close>

theorem Open_all_or_nothing:
  assumes "Open E s uport w = Ret (r, s', w')" "bind_wf s"
  shows "case r of
      Inl err \<Rightarrow> s' = s
    | Inr (fns, port) \<Rightarrow> closed s \<and> \<not> closed s' \<and> bind_wf s' \<and>
        fns = fns4 (s_ipv4 s') (s_ipv4RxOffload s') (s_ipv4PC s') @ fns6 (s_ipv6 s') (s_ipv6RxOffload s') (s_ipv6PC s')"
  using assms(1)
proof (cases rule: Open_cases)
  case (installed op w1 w3 tx4 rx4 pc4 tx6 rx6 pc6)
  have wf: "bind_wf s'" using assms(2) installed(3) by (simp add: bind_wf_with)
  have none: "s_ipv4 s = None" "s_ipv6 s = None" "s_ipv4PC s = None" "s_ipv6PC s = None"
    using installed(1) assms(2) by (auto simp: closed_def bind_wf_def)
  have ip: "s_ipv4 s' = v4_of s op" "s_ipv6 s' = v6_of s op"
    using none by (simp_all add: installed(3) with_family)
  have f4: "fns4 (v4_of s op) rx4 pc4 = fns4 (s_ipv4 s') (s_ipv4RxOffload s') (s_ipv4PC s')"
    using none ip(1) by (cases "v4_of s op") (simp_all add: installed(3) with_family fns4_def)
  have f6: "fns6 (v6_of s op) rx6 pc6 = fns6 (s_ipv6 s') (s_ipv6RxOffload s') (s_ipv6PC s')"
    using none ip(2) by (cases "v6_of s op") (simp_all add: installed(3) with_family fns6_def)
  show ?thesis
  proof (cases "v4_of s op = None \<and> v6_of s op = None")
    case True
    then show ?thesis using installed(3,6) by (simp add: with4_def with6_def fns4_def fns6_def)
  next
    case False
    then have "\<not> closed s'" using ip by (simp add: closed_def)
    moreover have "fns4 (v4_of s op) rx4 pc4 @ fns6 (v6_of s op) rx6 pc6 \<noteq> []" using False by (simp add: fns_Nil)
    then have "r = Inr (fns4 (v4_of s op) rx4 pc4 @ fns6 (v6_of s op) rx6 pc6, of_nat (op_port op))"
      using installed(6) by (simp only: if_False)
    ultimately show ?thesis using installed(1) wf f4 f6 by simp
  qed
qed auto

text \<open>
  C6. The random-port retry is bounded: a call of \<open>Open\<close> asks the network for at most 202 sockets,
  and when following \<open>GetWrapped\<close> ends, the call returns.
\<close>

theorem Open_terminates:
  assumes "\<forall>v v'. eGetWrapped E v = Some v' \<longrightarrow> (depth :: conn \<Rightarrow> nat) v' < depth v"
  shows "\<exists>r s' w'. Open E s uport w = Ret (r, s', w') \<and> listens w' \<le> listens w + 202"
proof (cases "closed s")
  case False
  then show ?thesis by (auto simp: Open_def closed_def)
next
  case True
  have bc: "\<exists>pc. batch_conn E c = Ret pc" for c
    using unwrapValue_ends [of "eGetWrapped E" depth c] assms by (auto simp: batch_conn_def unwrapUDPConn_def)
  have i4: "\<exists>x. install4 E oc u v = Ret x" for oc u v
    using bc [of "the oc"] by (cases oc) (auto simp: install4_def split: prod.splits)
  have i6: "\<exists>x. install6 E oc u v = Ret x" for oc u v
    using bc [of "the oc"] by (cases oc) (auto simp: install6_def split: prod.splits)
  obtain r1 w1 where oa: "open_again E s (unat uport) 0 w = (r1, w1)" by fastforce
  have n: "listens w1 \<le> listens w + 202" using open_again_listens [of 0 E s "unat uport" w] oa by simp
  show ?thesis
  proof (cases r1)
    case (Inl err)
    then show ?thesis using oa True n by (auto simp: Open_def closed_def)
  next
    case (Inr op)
    obtain f4 s2 w2 where a: "install4 E (v4_of s op) s w1 = Ret (f4, s2, w2)" using i4 by (metis surj_pair)
    obtain f6 s3 w3 where b: "install6 E (v6_of s op) s2 w2 = Ret (f6, s3, w3)" using i6 by (metis surj_pair)
    have "w_conn w3 = w_conn w1" by (rule install4_Ret [OF a], rule install6_Ret [OF b]) simp
    then have "listens (open_callback s3 fe w3) = listens w1" for fe
      by (auto simp: listens_def open_callback_def record_conn_def split: option.splits)
    then show ?thesis using Open_installs [OF True] oa Inr a b n by simp
  qed
qed

section \<open>One port for both families\<close>

lemma listenNet_listened:
  assumes "listenNet E s nw port w = (Inr (c, p), w')"
  shows "EvListen nw (listenAddress nw port) (Inr c) \<in> set (w_conn w')"
    and "\<exists>u. eResolveUDPAddr E (fst (eLocalAddr E u c)) (snd (eLocalAddr E u c)) = Inr p"
  using assms
  by (auto simp: listenNet_def net_Listen_def conn_Close_def record_conn_def configureSocket_def Let_def
      split: option.splits sum.splits prod.splits if_splits)

lemma listenNet_mono: "listenNet E s nw port w = (r, w') \<Longrightarrow> set (w_conn w) \<subseteq> set (w_conn w')"
  by (auto simp: listenNet_def net_Listen_def conn_Close_def record_conn_def configureSocket_def Let_def
      split: option.splits sum.splits prod.splits if_splits)

definition one_port :: "env \<Rightarrow> std_bind \<Rightarrow> nat \<Rightarrow> opened \<Rightarrow> world \<Rightarrow> bool" where
  "one_port E s uport op w \<longleftrightarrow>
     (\<forall>c1 c2. op_first op = Some c1 \<longrightarrow> op_second op = Some c2 \<longrightarrow>
        EvListen (fst (familyOrder s)) (listenAddress (fst (familyOrder s)) uport) (Inr c1) \<in> set (w_conn w) \<and>
        EvListen (snd (familyOrder s)) (listenAddress (snd (familyOrder s)) (op_port op)) (Inr c2) \<in> set (w_conn w) \<and>
        (\<exists>u. eResolveUDPAddr E (fst (eLocalAddr E u c1)) (snd (eLocalAddr E u c1)) = Inr (op_port op)))"

lemma open_attempt_one_port: "open_attempt E s uport tries w = Done (Inr op) w' \<Longrightarrow> one_port E s uport op w'"
  unfolding one_port_def open_attempt_def
  by (auto simp: Let_def split: prod.splits sum.splits if_splits
      dest: listenNet_listened) (metis listenNet_listened(1) listenNet_mono subsetD)

lemma open_again_one_port: "open_again E s uport tries w = (Inr op, w') \<Longrightarrow> one_port E s uport op w'"
proof (induction E s uport tries w rule: open_again.induct)
  case (1 E s uport tries w)
  then show ?case
    by (subst (asm) (2) open_again.simps) (auto split: attempt.splits dest: open_attempt_one_port)
qed

text \<open>
  C7. Both families listen on one port: when \<open>Open\<close> returns with two sockets, the first family was
  listened on at the requested port, the second at the port the first one resolved to, and that
  port is the one reported, as an unsigned 16-bit number.
\<close>

theorem Open_one_port:
  assumes "Open E s uport w = Ret (Inr (fns, port), s', w')" "s_ipv4 s' = Some c4" "s_ipv6 s' = Some c6"
  shows "\<exists>p u. port = of_nat p \<and>
    (let (n1, n2) = familyOrder s; (c1, c2) = (if n1 = ''udp4'' then (c4, c6) else (c6, c4)) in
       EvListen n1 (listenAddress n1 (unat uport)) (Inr c1) \<in> set (w_conn w') \<and>
       EvListen n2 (listenAddress n2 p) (Inr c2) \<in> set (w_conn w') \<and>
       eResolveUDPAddr E (fst (eLocalAddr E u c1)) (snd (eLocalAddr E u c1)) = Inr p)"
  using assms(1)
proof (cases rule: Open_cases)
  case (installed op w1 w3 tx4 rx4 pc4 tx6 rx6 pc6)
  have "set (w_conn w1) \<subseteq> set (w_conn w')"
    using installed(4,5) by (auto simp: open_callback_def record_conn_def split: option.splits)
  moreover have "v4_of s op = Some c4" "v6_of s op = Some c6"
    using installed(1,3) assms(2,3) by (auto simp: closed_def with4_def with6_def split: if_splits)
  moreover obtain n1 n2 where fo: "familyOrder s = (n1, n2)" by fastforce
  ultimately obtain u where
    "let (c1, c2) = (if n1 = ''udp4'' then (c4, c6) else (c6, c4)) in
       EvListen n1 (listenAddress n1 (unat uport)) (Inr c1) \<in> set (w_conn w') \<and>
       EvListen n2 (listenAddress n2 (op_port op)) (Inr c2) \<in> set (w_conn w') \<and>
       eResolveUDPAddr E (fst (eLocalAddr E u c1)) (snd (eLocalAddr E u c1)) = Inr (op_port op)"
    using open_again_one_port [OF installed(2)]
    by (cases "n1 = ''udp4''") (auto simp: one_port_def v4_of_def v6_of_def)
  moreover have "port = of_nat (op_port op)" using installed(6) by (simp split: if_splits)
  ultimately show ?thesis using fo by (intro exI [of _ "op_port op"] exI [of _ u]) (simp add: Let_def)
qed auto

end
