(* ===== verification/Coalesce.thy ===== *)
theory Coalesce
  imports Sticky
begin

text \<open>
  Transmit coalescing: \<open>coalesceMessages\<close> of \<open>bind_std.go\<close>, which appends the payloads of a
  batch in place into the first buffer of the batch. The scatter-gather variant of
  \<open>batching_conn_linux.go\<close> follows the same batching rule, so the rule is stated once, as a
  function on lists of buffers, and its consequences are proved once in the locale
  \<open>batch_rule\<close>.
\<close>

definition maxIPv4PayloadLen :: nat where
  "maxIPv4PayloadLen = 2 ^ 16 - 1 - 20 - 8"

definition maxIPv6PayloadLen :: nat where
  "maxIPv6PayloadLen = 2 ^ 16 - 1 - 8"

definition udpSegmentMaxDatagrams :: nat where
  "udpSegmentMaxDatagrams = 64"

type_synonym setGSOFunc = "cbuf \<Rightarrow> 16 word \<Rightarrow> cbuf outcome"

text \<open>
  The loop variables. \<open>co_n\<close> is \<open>base + 1\<close>, the number of messages started, so that the
  initial \<open>base = -1\<close> is \<open>0\<close>.
\<close>

record coalesce_state =
  co_mem :: store
  co_msgs :: "message list"
  co_n :: nat
  co_gsoSize :: nat
  co_dgramCnt :: nat
  co_endBatch :: bool

definition at_base :: "coalesce_state \<Rightarrow> message outcome" where
  "at_base st =
     (if co_n st = 0 then Panic IndexOutOfRange else idx (co_msgs st) (co_n st - 1))"

definition set_gso_at_base :: "setGSOFunc \<Rightarrow> coalesce_state \<Rightarrow> coalesce_state outcome" where
  "set_gso_at_base setGSO st =
     obind (at_base st) (\<lambda>m.
       obind (setGSO (OOB m) (of_nat (co_gsoSize st))) (\<lambda>c.
         Ret (st\<lparr>co_msgs := (co_msgs st)[co_n st - 1 := m\<lparr>OOB := c\<rparr>]\<rparr>)))"

text \<open>The part of the loop body after the \<open>if i > 0\<close> block: start a new message.\<close>

definition coalesce_start ::
  "goos \<Rightarrow> setGSOFunc \<Rightarrow> udp_addr \<Rightarrow> std_endpoint \<Rightarrow> slice \<Rightarrow> coalesce_state
    \<Rightarrow> coalesce_state outcome" where
  "coalesce_start p setGSO addr ep buf st =
     obind (if co_dgramCnt st > 1 then set_gso_at_base setGSO st else Ret st) (\<lambda>st1.
       obind (idx (co_msgs st1) (co_n st1)) (\<lambda>m.
         obind (upd (Buffers m) 0 buf) (\<lambda>bs.
           Ret (st1\<lparr>co_msgs := (co_msgs st1)[co_n st1 :=
                      m\<lparr>OOB := setSrcControl p (OOB m) ep, Buffers := bs, Addr := Some addr\<rparr>],
                    co_n := Suc (co_n st1), co_gsoSize := slen buf, co_dgramCnt := 1,
                    co_endBatch := False\<rparr>))))"

text \<open>
  One iteration; \<open>first\<close> is \<open>i = 0\<close> and \<open>final\<close> is \<open>i = len(bufs)-1\<close>.
\<close>

definition coalesce_step ::
  "goos \<Rightarrow> setGSOFunc \<Rightarrow> udp_addr \<Rightarrow> std_endpoint \<Rightarrow> nat \<Rightarrow> bool \<Rightarrow> bool \<Rightarrow> slice
    \<Rightarrow> coalesce_state \<Rightarrow> coalesce_state outcome" where
  "coalesce_step p setGSO addr ep maxPayloadLen first final buf st =
     (if first then coalesce_start p setGSO addr ep buf st
      else obind (at_base st) (\<lambda>m.
        obind (idx (Buffers m) 0) (\<lambda>b.
          let msgLen = slen buf;
              baseLenBefore = slen b;
              freeBaseCap = scap b - baseLenBefore
          in if msgLen + baseLenBefore \<le> maxPayloadLen \<and> msgLen \<le> co_gsoSize st \<and>
                msgLen \<le> freeBaseCap \<and> co_dgramCnt st < udpSegmentMaxDatagrams \<and>
                \<not> co_endBatch st
             then let (h, b') = sl_append (co_mem st) b buf;
                      st1 = st\<lparr>co_mem := h,
                               co_msgs := (co_msgs st)[co_n st - 1 := set_buffer0 m b']\<rparr>
                  in obind (if final then set_gso_at_base setGSO st1 else Ret st1) (\<lambda>st2.
                       Ret (st2\<lparr>co_dgramCnt := Suc (co_dgramCnt st2),
                                co_endBatch := (msgLen < co_gsoSize st2 \<or> co_endBatch st2)\<rparr>))
             else coalesce_start p setGSO addr ep buf st)))"

fun coalesce_loop ::
  "goos \<Rightarrow> setGSOFunc \<Rightarrow> udp_addr \<Rightarrow> std_endpoint \<Rightarrow> nat \<Rightarrow> bool \<Rightarrow> slice list
    \<Rightarrow> coalesce_state \<Rightarrow> coalesce_state outcome" where
  "coalesce_loop p setGSO addr ep maxPayloadLen first [] st = Ret st"
| "coalesce_loop p setGSO addr ep maxPayloadLen first (buf # bufs) st =
     obind (coalesce_step p setGSO addr ep maxPayloadLen first (bufs = []) buf st)
       (coalesce_loop p setGSO addr ep maxPayloadLen False bufs)"

definition maxPayloadLen_for :: "addr \<Rightarrow> nat" where
  "maxPayloadLen_for a = (if Is6 a then maxIPv6PayloadLen else maxIPv4PayloadLen)"

definition coalesceMessages ::
  "goos \<Rightarrow> udp_addr \<Rightarrow> std_endpoint \<Rightarrow> slice list \<Rightarrow> message list \<Rightarrow> setGSOFunc \<Rightarrow> store
    \<Rightarrow> (nat \<times> message list \<times> store) outcome" where
  "coalesceMessages p addr ep bufs msgs setGSO h =
     obind (coalesce_loop p setGSO addr ep (maxPayloadLen_for (DstIP ep)) True bufs
              \<lparr>co_mem = h, co_msgs = msgs, co_n = 0, co_gsoSize = 0, co_dgramCnt = 0,
               co_endBatch = False\<rparr>)
       (\<lambda>st. Ret (co_n st, co_msgs st, co_mem st))"

section \<open>The batching rule\<close>

definition total_len :: "slice list \<Rightarrow> nat" where
  "total_len g = sum_list (map slen g)"

text \<open>
  \<open>batches ok bufs\<close> is the greedy grouping: a buffer joins the current batch while \<open>ok\<close>
  allows it and otherwise starts the next one.
\<close>

fun groups :: "('b list \<Rightarrow> 'b \<Rightarrow> bool) \<Rightarrow> 'b list \<Rightarrow> 'b list \<Rightarrow> 'b list list" where
  "groups ok cur [] = [cur]"
| "groups ok cur (b # bs) =
     (if ok cur b then groups ok (cur @ [b]) bs else cur # groups ok [b] bs)"

definition batches :: "('b list \<Rightarrow> 'b \<Rightarrow> bool) \<Rightarrow> 'b list \<Rightarrow> 'b list list" where
  "batches ok bs = (case bs of [] \<Rightarrow> [] | b # bs' \<Rightarrow> groups ok [b] bs')"

definition gso_ok :: "nat \<Rightarrow> slice list \<Rightarrow> slice \<Rightarrow> bool" where
  "gso_ok maxLen cur b \<longleftrightarrow>
     slen b + total_len cur \<le> maxLen \<and> slen b \<le> slen (hd cur) \<and>
     length cur < udpSegmentMaxDatagrams \<and> \<not> slen (last cur) < slen (hd cur)"

definition std_ok :: "nat \<Rightarrow> slice list \<Rightarrow> slice \<Rightarrow> bool" where
  "std_ok maxLen cur b \<longleftrightarrow> gso_ok maxLen cur b \<and> slen b \<le> scap (hd cur) - total_len cur"

text \<open>What the kernel requires of a batch sent with UDP_SEGMENT.\<close>

definition batch_inv :: "nat \<Rightarrow> slice list \<Rightarrow> bool" where
  "batch_inv maxLen g \<longleftrightarrow>
     g \<noteq> [] \<and> length g \<le> udpSegmentMaxDatagrams \<and>
     (\<forall>b \<in> set (butlast g). slen b = slen (hd g)) \<and> slen (last g) \<le> slen (hd g) \<and>
     (1 < length g \<longrightarrow> total_len g \<le> maxLen)"

lemma total_simps [simp]:
  "total_len [] = 0" "total_len (b # g) = slen b + total_len g" "total_len (g @ g') = total_len g + total_len g'"
  by (simp_all add: total_len_def)

lemma total_hd: "g \<noteq> [] \<Longrightarrow> slen (hd g) \<le> total_len g"
  by (cases g) auto

lemma groups_ne [simp]: "groups ok cur bs \<noteq> []"
  by (induction ok cur bs rule: groups.induct) auto

lemma concat_groups [simp]: "concat (groups ok cur bs) = cur @ bs"
  by (induction ok cur bs rule: groups.induct) auto

lemma length_groups: "length (groups ok cur bs) \<le> Suc (length bs)"
  by (induction ok cur bs rule: groups.induct) auto

lemma concat_batches [simp]: "concat (batches ok bs) = bs"
  by (simp add: batches_def split: list.splits)

lemma batches_subset: "g \<in> set (batches ok bs) \<Longrightarrow> set g \<subseteq> set bs"
  by (metis Union_upper concat_batches image_eqI set_concat)

lemma length_batches: "length (batches ok bs) \<le> length bs"
  using length_groups by (auto simp: batches_def split: list.splits)

locale batch_rule =
  fixes ok :: "slice list \<Rightarrow> slice \<Rightarrow> bool" and maxLen :: nat
  assumes ok_gso: "ok cur b \<Longrightarrow> gso_ok maxLen cur b"
begin

lemma single_inv: "batch_inv maxLen [b]"
  by (simp add: batch_inv_def udpSegmentMaxDatagrams_def)

lemma snoc_inv:
  assumes "batch_inv maxLen cur" "ok cur b"
  shows "batch_inv maxLen (cur @ [b])"
proof -
  have ne: "cur \<noteq> []" using assms(1) by (simp add: batch_inv_def)
  have all: "slen x = slen (hd cur)" if "x \<in> set cur" for x
  proof (cases "x = last cur")
    case True
    then show ?thesis
      using assms(1) ok_gso [OF assms(2)] by (simp add: batch_inv_def gso_ok_def)
  next
    case False
    have "cur = butlast cur @ [last cur]" using ne by simp
    then have "x \<in> set (butlast cur)"
      using that False by (metis Un_iff empty_iff list.set(1) set_ConsD set_append)
    then show ?thesis using assms(1) by (simp add: batch_inv_def)
  qed
  have eq: "hd (cur @ [b]) = hd cur" "butlast (cur @ [b]) = cur" "last (cur @ [b]) = b"
    using ne by simp_all
  have "\<forall>x \<in> set (butlast (cur @ [b])). slen x = slen (hd (cur @ [b]))"
    unfolding eq using all by blast
  then show ?thesis
    using ok_gso [OF assms(2)] unfolding batch_inv_def gso_ok_def eq by simp
qed

lemma groups_inv: "batch_inv maxLen cur \<Longrightarrow> g \<in> set (groups ok cur bs) \<Longrightarrow> batch_inv maxLen g"
proof (induction bs arbitrary: cur)
  case (Cons b bs)
  then show ?case
    using Cons.IH [OF snoc_inv] Cons.IH [OF single_inv] by (auto split: if_splits)
qed simp

lemma batches_inv: "g \<in> set (batches ok bs) \<Longrightarrow> batch_inv maxLen g"
  using groups_inv single_inv by (auto simp: batches_def split: list.splits)

text \<open>Cutting a batch's payload at its segment size gives its datagrams back.\<close>

lemma batch_segments:
  assumes inv: "batch_inv maxLen g" and len: "\<forall>b \<in> set g. length (rd b) = slen b \<and> 0 < slen b"
  shows "segments (slen (hd g)) (concat (map rd g)) = map rd g"
proof -
  have g: "g = butlast g @ [last g]" "last g \<in> set g" "hd g \<in> set g"
    using inv by (simp_all add: batch_inv_def)
  let ?bs = "map rd (butlast g)" and ?b = "rd (last g)"
  have "segments (slen (hd g)) (concat (?bs @ [?b])) = ?bs @ [?b]"
  proof (rule segments_concat)
    show "\<forall>x \<in> set ?bs. length x = slen (hd g)"
      using inv len in_set_butlastD [of _ g] by (fastforce simp: batch_inv_def)
    have l: "length ?b = slen (last g)" "0 < slen (last g)" "0 < slen (hd g)"
      using len g(2,3) by blast+
    show "?b \<noteq> []" using l(1,2) by auto
    show "length ?b \<le> slen (hd g)" using inv l(1) by (simp add: batch_inv_def)
    show "0 < slen (hd g)" by (rule l(3))
  qed
  moreover have "map rd g = ?bs @ [?b]"
    using arg_cong [OF g(1), of "map rd"] by (simp only: map_append list.map)
  ultimately show ?thesis by (simp only:)
qed

text \<open>The segment size of a batch of several datagrams fits its 16-bit field.\<close>

lemma batch_gso_16bit:
  assumes "batch_inv maxLen g" "1 < length g" "maxLen < 2 ^ 16"
  shows "unat (of_nat (slen (hd g)) :: 16 word) = slen (hd g)"
proof -
  have "slen (hd g) \<le> total_len g" using assms(1) total_hd by (simp add: batch_inv_def)
  then have "slen (hd g) < 2 ^ 16" using assms by (simp add: batch_inv_def)
  then show ?thesis by (simp add: unat_of_nat)
qed

end

interpretation std: batch_rule "std_ok maxLen" maxLen for maxLen
  by unfold_locales (simp add: std_ok_def)

interpretation sg: batch_rule "gso_ok maxLen" maxLen for maxLen
  by unfold_locales

end
