(* ===== verification/Split.thy ===== *)
theory Split
  imports Coalesce
begin

text \<open>
  Receive splitting: \<open>splitCoalescedMessages\<close> and \<open>groReadBatchSize\<close> of \<open>bind_std.go\<close>. Messages
  that the kernel coalesced were read into the tail of the slice and are cut into datagrams
  that are copied to the front, possibly within the array being read.
\<close>

type_synonym getGSOFunc = "byte list \<Rightarrow> (goerror + nat) outcome"

text \<open>
  The inner loop: \<open>j\<close> datagrams of \<open>msg = &msgs[i]\<close> remain. \<open>msg\<close> is a pointer, so its fields are
  those of the current \<open>msgs[i]\<close>.
\<close>

fun split_copy ::
  "nat \<Rightarrow> nat \<Rightarrow> nat \<Rightarrow> nat \<Rightarrow> nat \<Rightarrow> nat \<Rightarrow> message list \<Rightarrow> store
    \<Rightarrow> (goerror option \<times> nat \<times> message list \<times> store) outcome" where
  "split_copy 0 i gsoSize start stop n msgs h = Ret (None, n, msgs, h)"
| "split_copy (Suc j) i gsoSize start stop n msgs h =
     (if n > i then Ret (Some ErrSplitOverflow, n, msgs, h)
      else obind (idx msgs n) (\<lambda>d.
        obind (idx (Buffers d) 0) (\<lambda>dst.
          obind (idx msgs i) (\<lambda>m.
            obind (idx (Buffers m) 0) (\<lambda>b.
              obind (sl_reslice b start stop) (\<lambda>seg.
                let (h', copied) = sl_copy h dst seg;
                    msgs' = msgs[n := d\<lparr>N := copied, Addr := Addr m\<rparr>];
                    stop' = stop + gsoSize;
                    stop'' = (if stop' > N (msgs' ! i) then N (msgs' ! i) else stop')
                in split_copy j i gsoSize stop stop'' (Suc n) msgs' h'))))))"

fun split_loop ::
  "getGSOFunc \<Rightarrow> nat \<Rightarrow> nat \<Rightarrow> nat \<Rightarrow> message list \<Rightarrow> store
    \<Rightarrow> (goerror option \<times> nat \<times> message list \<times> store) outcome" where
  "split_loop getGSO 0 i n msgs h = Ret (None, n, msgs, h)"
| "split_loop getGSO (Suc k) i n msgs h =
     obind (idx msgs i) (\<lambda>m.
       if N m = 0 then Ret (None, n, msgs, h)
       else obind (cb_reslice (OOB m) (NN m)) (\<lambda>control.
         obind (getGSO (cb_bytes control)) (\<lambda>r.
           case r of
             Inl err \<Rightarrow> Ret (Some err, n, msgs, h)
           | Inr gsoSize \<Rightarrow>
               let numToSplit = (if gsoSize > 0 then (N m + gsoSize - 1) div gsoSize else 1);
                   stop = (if gsoSize > 0 then gsoSize else N m)
               in obind (split_copy numToSplit i gsoSize 0 stop n msgs h)
                    (\<lambda>(err, n', msgs', h').
                      if err \<noteq> None then Ret (err, n', msgs', h')
                      else split_loop getGSO k (Suc i) n'
                             (if Suc i \<noteq> n' then msgs'[i := (msgs' ! i)\<lparr>N := 0\<rparr>] else msgs') h'))))"

definition splitCoalescedMessages ::
  "message list \<Rightarrow> nat \<Rightarrow> getGSOFunc \<Rightarrow> store
    \<Rightarrow> (goerror option \<times> nat \<times> message list \<times> store) outcome" where
  "splitCoalescedMessages msgs firstMsgAt getGSO h =
     split_loop getGSO (length msgs - firstMsgAt) firstMsgAt 0 msgs h"

definition groReadBatchSize :: "nat \<Rightarrow> nat" where
  "groReadBatchSize batchSize =
     (let n = (batchSize + udpSegmentMaxDatagrams - 1) div udpSegmentMaxDatagrams
      in if n < 1 then 1 else if n > batchSize then batchSize else n)"

section \<open>One copy\<close>

definition msgs_ok :: "store \<Rightarrow> message list \<Rightarrow> bool" where
  "msgs_ok h msgs \<longleftrightarrow>
     (\<forall>m \<in> set msgs. Buffers m \<noteq> [] \<and> sl_wf h (buffer0 m)) \<and>
     distinct (map (\<lambda>m. sarr (buffer0 m)) msgs)"

text \<open>The datagram a message holds.\<close>

definition held :: "store \<Rightarrow> message \<Rightarrow> byte list" where
  "held h m = take (N m) (sl_read h (buffer0 m))"

lemma msgs_ok_nth:
  assumes "msgs_ok h msgs" "k < length msgs"
  shows "Buffers (msgs ! k) \<noteq> []" "sl_wf h (buffer0 (msgs ! k))"
  using assms by (auto simp: msgs_ok_def)

lemma msgs_ok_sarr:
  assumes "msgs_ok h msgs" "k < length msgs" "j < length msgs" "k \<noteq> j"
  shows "sarr (buffer0 (msgs ! k)) \<noteq> sarr (buffer0 (msgs ! j))"
  using assms nth_eq_iff_index_eq [of "map (\<lambda>m. sarr (buffer0 m)) msgs" k j]
  by (simp add: msgs_ok_def)

lemma idx_Buffers0: "Buffers m \<noteq> [] \<Longrightarrow> idx (Buffers m) 0 = Ret (buffer0 m)"
  by (simp add: buffer0_def)

lemma buffer0_upd [simp]: "buffer0 (m\<lparr>N := x, Addr := a\<rparr>) = buffer0 m" "buffer0 (m\<lparr>N := x\<rparr>) = buffer0 m"
  by (simp_all add: buffer0_def)

lemma split_copy_step:
  assumes ok: "msgs_ok h msgs" and ni: "n \<le> i" "i < length msgs"
    and bounds: "start \<le> stop" "stop \<le> slen (buffer0 (msgs ! i))"
    and fits: "stop - start \<le> slen (buffer0 (msgs ! n))"
    and msgs': "msgs' = msgs[n := (msgs ! n)\<lparr>N := stop - start, Addr := Addr (msgs ! i)\<rparr>]"
  obtains h' where
    "\<And>j. split_copy (Suc j) i g start stop n msgs h =
       split_copy j i g stop (if stop + g > N (msgs' ! i) then N (msgs' ! i) else stop + g) (Suc n) msgs' h'"
    "take (stop - start) (sl_read h' (buffer0 (msgs ! n))) =
       take (stop - start) (drop start (sl_read h (buffer0 (msgs ! i))))"
    "\<And>k. k < length msgs \<Longrightarrow> k \<noteq> n \<Longrightarrow>
       sl_read h' (buffer0 (msgs ! k)) = sl_read h (buffer0 (msgs ! k))"
    "msgs_ok h' msgs'"
proof -
  let ?b = "buffer0 (msgs ! i)" and ?d = "buffer0 (msgs ! n)"
  let ?seg = "?b\<lparr>soff := soff ?b + start, slen := stop - start, scap := scap ?b - start\<rparr>"
  let ?s = "take (stop - start) (drop start (sl_read h ?b))"
  let ?h = "sl_write h (sarr ?d) (soff ?d) ?s"
  have n: "n < length msgs" using ni by simp
  note wfd = msgs_ok_nth [OF ok n] and wfb = msgs_ok_nth [OF ok ni(2)]
  have rs: "sl_reslice ?b start stop = Ret ?seg"
    using bounds wfb(2) by (simp add: sl_reslice_def sl_wf_def)
  have sg: "sl_read h ?seg = ?s"
    using bounds by (simp add: sl_read_def take_drop add.commute)
  have ls: "length ?s = stop - start"
    using bounds wfb(2) by simp
  have cp: "sl_copy h ?d ?seg = (?h, stop - start)"
    using fits ls by (simp add: sl_copy_def Let_def sg min_def)
  have arr: "soff ?d + length ?s \<le> length (arrs h (sarr ?d))"
    using wfd(2) fits ls by (simp add: sl_wf_def)
  show thesis
  proof (rule that [of ?h])
    show "split_copy (Suc j) i g start stop n msgs h =
       split_copy j i g stop (if stop + g > N (msgs' ! i) then N (msgs' ! i) else stop + g) (Suc n) msgs' ?h" for j
      using ni n wfd wfb unfolding msgs' by (simp add: rs cp Let_def flip: buffer0_def)
    have "take (stop - start) (sl_read ?h ?d) = take (stop - start) (drop (soff ?d) (overwrite (arrs h (sarr ?d)) (soff ?d) ?s))"
      using fits by (simp add: sl_read_def min_def)
    also have "\<dots> = ?s"
      using read_overwrite_at [of "soff ?d" "arrs h (sarr ?d)" ?s] arr ls by simp
    finally show "take (stop - start) (sl_read ?h ?d) = ?s" .
    show "sl_read ?h (buffer0 (msgs ! k)) = sl_read h (buffer0 (msgs ! k))"
      if "k < length msgs" "k \<noteq> n" for k
      using msgs_ok_sarr [OF ok that(1) n that(2)] by simp
    have "map (\<lambda>m. sarr (buffer0 m)) msgs' = map (\<lambda>m. sarr (buffer0 m)) msgs"
      using n by (simp add: msgs' map_update list_update_same_conv)
    moreover have "\<forall>m \<in> set msgs'. Buffers m \<noteq> [] \<and> sl_wf ?h (buffer0 m)"
      using ok wfd arr by (auto simp: msgs' msgs_ok_def dest!: subsetD [OF set_update_subset_insert])
    ultimately show "msgs_ok ?h msgs'"
      using ok by (simp add: msgs_ok_def)
  qed
qed

section \<open>One source message\<close>

text \<open>
  The datagrams \<open>segs\<close> of message \<open>i\<close> are held by the messages from \<open>n\<close> on; the other messages
  and their buffers are as before.
\<close>

definition split_result ::
  "message list \<Rightarrow> store \<Rightarrow> nat \<Rightarrow> nat \<Rightarrow> byte list list \<Rightarrow> message list \<Rightarrow> store \<Rightarrow> bool" where
  "split_result msgs h i n segs msgs' h' \<longleftrightarrow>
     msgs_ok h' msgs' \<and> length msgs' = length msgs \<and>
     (\<forall>k < length segs.
        msgs' ! (n + k) = (msgs ! (n + k))\<lparr>N := length (segs ! k), Addr := Addr (msgs ! i)\<rparr> \<and>
        held h' (msgs' ! (n + k)) = segs ! k) \<and>
     (\<forall>k < length msgs. k < n \<or> n + length segs \<le> k \<longrightarrow>
        msgs' ! k = msgs ! k \<and> sl_read h' (buffer0 (msgs ! k)) = sl_read h (buffer0 (msgs ! k)))"

lemma split_copy_segments:
  assumes "msgs_ok h msgs" "i < length msgs" "xs \<noteq> []" "xs = drop start (held h (msgs ! i))"
    and "N (msgs ! i) \<le> slen (buffer0 (msgs ! i))"
    and "stop = start + length (hd (segments g xs))"
    and "n + length (segments g xs) \<le> Suc i"
    and "\<forall>k < length (segments g xs). length (segments g xs ! k) \<le> slen (buffer0 (msgs ! (n + k)))"
  shows "\<exists>msgs' h'.
    split_copy (length (segments g xs)) i g start stop n msgs h =
      Ret (None, n + length (segments g xs), msgs', h') \<and>
    split_result msgs h i n (segments g xs) msgs' h'"
  using assms
proof (induction g xs arbitrary: start "stop" n msgs h rule: segments.induct)
  case (1 g xs)
  note pre = "1.prems"
  let ?m = "msgs ! i" and ?s = "hd (segments g xs)"
  let ?msgs = "msgs[n := (msgs ! n)\<lparr>N := stop - start, Addr := Addr ?m\<rparr>]"
  have ni: "n \<le> i" using pre(7) segments_ne [of g xs] by (cases "segments g xs") auto
  have wfi: "sl_wf h (buffer0 ?m)" using msgs_ok_nth [OF pre(1,2)] by simp
  have lenx: "length xs = N ?m - start" "start < N ?m"
    using pre(3-5) wfi by (auto simp: held_def)
  have ls: "length ?s \<le> length xs" "stop - start = length ?s"
    using pre(6) arg_cong [OF hd_segments_prefix [of g xs], of length] by simp_all
  have s: "take (stop - start) (drop start (sl_read h (buffer0 ?m))) = ?s"
  proof -
    have "?s = take (length ?s) (drop start (take (N ?m) (sl_read h (buffer0 ?m))))"
      using hd_segments_prefix [of g xs] pre(4) by (simp add: held_def)
    then show ?thesis using ls lenx by (simp add: drop_take min_def)
  qed
  have bounds: "start \<le> stop" "stop \<le> slen (buffer0 ?m)"
    using pre(5,6) ls lenx by auto
  have fits: "stop - start \<le> slen (buffer0 (msgs ! n))"
    using pre(8) ls(2) segments_ne [of g xs] by (metis add.right_neutral hd_conv_nth length_greater_0_conv)
  obtain h' where st: "\<And>j. split_copy (Suc j) i g start stop n msgs h =
       split_copy j i g stop (if stop + g > N (?msgs ! i) then N (?msgs ! i) else stop + g) (Suc n) ?msgs h'"
    and tgt: "take (stop - start) (sl_read h' (buffer0 (msgs ! n))) = ?s"
    and oth: "\<And>k. k < length msgs \<Longrightarrow> k \<noteq> n \<Longrightarrow>
       sl_read h' (buffer0 (msgs ! k)) = sl_read h (buffer0 (msgs ! k))"
    and ok: "msgs_ok h' ?msgs"
    by (rule split_copy_step [OF pre(1) ni pre(2) bounds fits refl, of g]) (use s in auto)
  have n: "n < length msgs" using ni pre(2) by simp
  show ?case
  proof (cases "g = 0 \<or> length xs \<le> g")
    case True
    then have seg: "segments g xs = [xs]" by (auto simp: segments.simps [of g xs])
    show ?thesis
      using st [of 0] seg tgt oth ok n ls
      by (intro exI [of _ ?msgs] exI [of _ h']) (auto simp: split_result_def held_def)
  next
    case False
    let ?ys = "drop g xs" and ?segs = "segments g xs" and ?rest = "segments g (drop g xs)"
    have g: "0 < g" "g < length xs" using False by auto
    have seg: "?segs = take g xs # ?rest" using g by (rule segments_long)
    have e: "stop = start + g" using pre(6) seg g by simp
    have nlt: "n < i" using pre(7) seg segments_ne [of g ?ys] by (cases ?rest) auto
    have mi: "?msgs ! i = ?m" using nlt by simp
    have heldi: "held h' ?m = held h ?m" using oth [OF pre(2)] nlt by (simp add: held_def)
    define stop' where "stop' = (if stop + g > N ?m then N ?m else stop + g)"
    have e': "stop' = stop + length (hd ?rest)"
      using g lenx e by (auto simp: stop'_def length_hd_segments min_def)
    have "\<exists>msgs' h''. split_copy (length ?rest) i g stop stop' (Suc n) ?msgs h' =
          Ret (None, Suc n + length ?rest, msgs', h'') \<and> split_result ?msgs h' i (Suc n) ?rest msgs' h''"
    proof (rule "1.IH" [OF False ok])
      show "?ys = drop stop (held h' (?msgs ! i))"
        using pre(4) e heldi mi by (simp add: add.commute)
      show "\<forall>k < length ?rest. length (?rest ! k) \<le> slen (buffer0 (?msgs ! (Suc n + k)))"
        using pre(8) seg by auto
    qed (use pre g seg e' mi in auto)
    then obtain msgs' h'' where r: "split_copy (length ?rest) i g stop stop' (Suc n) ?msgs h' =
          Ret (None, Suc n + length ?rest, msgs', h'')"
      and res: "split_result ?msgs h' i (Suc n) ?rest msgs' h''" by blast
    have new: "msgs' ! (Suc n + k) = (msgs ! (Suc n + k))\<lparr>N := length (?rest ! k), Addr := Addr ?m\<rparr>"
      "held h'' (msgs' ! (Suc n + k)) = ?rest ! k" if "k < length ?rest" for k
    proof -
      have "msgs' ! (Suc n + k) = (?msgs ! (Suc n + k))\<lparr>N := length (?rest ! k), Addr := Addr (?msgs ! i)\<rparr>"
        using res that unfolding split_result_def by blast
      then show "msgs' ! (Suc n + k) = (msgs ! (Suc n + k))\<lparr>N := length (?rest ! k), Addr := Addr ?m\<rparr>"
        using mi by simp
      show "held h'' (msgs' ! (Suc n + k)) = ?rest ! k"
        using res that unfolding split_result_def by blast
    qed
    have old: "msgs' ! k = ?msgs ! k" "sl_read h'' (buffer0 (?msgs ! k)) = sl_read h' (buffer0 (?msgs ! k))"
      if "k < length msgs" "k < Suc n \<or> Suc n + length ?rest \<le> k" for k
      using res that unfolding split_result_def length_list_update by blast+
    have "split_copy (length ?segs) i g start stop n msgs h = Ret (None, n + length ?segs, msgs', h'')"
    proof -
      have "length ?segs = Suc (length ?rest)" by (simp add: seg)
      moreover have "split_copy (Suc (length ?rest)) i g start stop n msgs h =
          split_copy (length ?rest) i g stop stop' (Suc n) ?msgs h'"
        using st [of "length ?rest"] unfolding mi stop'_def .
      ultimately show ?thesis by (simp only: r add_Suc add_Suc_right)
    qed
    moreover have "msgs' ! (n + k) = (msgs ! (n + k))\<lparr>N := length (?segs ! k), Addr := Addr ?m\<rparr> \<and>
        held h'' (msgs' ! (n + k)) = ?segs ! k" if "k < length ?segs" for k
    proof (cases k)
      case 0
      have "msgs' ! n = ?msgs ! n" "sl_read h'' (buffer0 (?msgs ! n)) = sl_read h' (buffer0 (?msgs ! n))"
        using old [OF n] by blast+
      then show ?thesis using 0 seg n tgt ls g by (simp add: held_def)
    next
      case (Suc j)
      then show ?thesis using new [of j] that seg by simp
    qed
    moreover have "msgs' ! k = msgs ! k \<and> sl_read h'' (buffer0 (msgs ! k)) = sl_read h (buffer0 (msgs ! k))"
      if "k < length msgs" "k < n \<or> n + length ?segs \<le> k" for k
    proof -
      have "k \<noteq> n" "k < Suc n \<or> Suc n + length ?rest \<le> k" using that seg by auto
      then show ?thesis using old [OF that(1)] oth [OF that(1)] by simp
    qed
    moreover have "msgs_ok h'' msgs'" "length msgs' = length msgs"
      using res by (simp_all add: split_result_def)
    ultimately show ?thesis unfolding split_result_def by blast
  qed
qed

section \<open>The whole slice\<close>

text \<open>
  A received message as the socket leaves it: the payload lies in the buffer, the control
  bytes in the control buffer, and the reported segment size is not larger than the payload.
\<close>

definition source_ok :: "getGSOFunc \<Rightarrow> (message \<Rightarrow> nat) \<Rightarrow> message \<Rightarrow> bool" where
  "source_ok getGSO gso m \<longleftrightarrow>
     N m \<le> slen (buffer0 m) \<and> NN m \<le> cb_cap (OOB m) \<and>
     getGSO (take (NN m) (cdata (OOB m))) = Ret (Inr (gso m)) \<and> gso m \<le> N m"

definition datagrams_of :: "(message \<Rightarrow> nat) \<Rightarrow> store \<Rightarrow> message \<Rightarrow> (byte list \<times> udp_addr option) list" where
  "datagrams_of gso h m = map (\<lambda>s. (s, Addr m)) (segments (gso m) (held h m))"

definition sources :: "nat \<Rightarrow> message list \<Rightarrow> message list" where
  "sources i msgs = takeWhile (\<lambda>m. N m \<noteq> 0) (drop i msgs)"

text \<open>The datagrams \<open>ds\<close> are held by the messages from \<open>n\<close> on.\<close>

definition delivered ::
  "message list \<Rightarrow> nat \<Rightarrow> (byte list \<times> udp_addr option) list \<Rightarrow> message list \<Rightarrow> store \<Rightarrow> bool" where
  "delivered msgs n ds msgs' h' \<longleftrightarrow>
     (\<forall>t < length ds.
        msgs' ! (n + t) = (msgs ! (n + t))\<lparr>N := length (fst (ds ! t)), Addr := snd (ds ! t)\<rparr> \<and>
        held h' (msgs' ! (n + t)) = fst (ds ! t))"

definition unchanged :: "message list \<Rightarrow> store \<Rightarrow> (nat \<Rightarrow> bool) \<Rightarrow> message list \<Rightarrow> store \<Rightarrow> bool" where
  "unchanged msgs h P msgs' h' \<longleftrightarrow>
     (\<forall>k < length msgs. P k \<longrightarrow>
        msgs' ! k = msgs ! k \<and> sl_read h' (buffer0 (msgs ! k)) = sl_read h (buffer0 (msgs ! k)))"

text \<open>The datagrams fit the buffers of the messages they go to.\<close>

definition room :: "message list \<Rightarrow> nat \<Rightarrow> (byte list \<times> udp_addr option) list \<Rightarrow> bool" where
  "room msgs n ds \<longleftrightarrow> (\<forall>t < length ds. length (fst (ds ! t)) \<le> slen (buffer0 (msgs ! (n + t))))"

text \<open>A message without the fields that splitting assigns.\<close>

definition erase :: "message \<Rightarrow> message" where
  "erase m = m\<lparr>N := 0, Addr := None\<rparr>"

lemma erase_upd [simp]: "erase (m\<lparr>N := x, Addr := a\<rparr>) = erase m" "erase (m\<lparr>N := x\<rparr>) = erase m"
  by (simp_all add: erase_def)

lemma erase_eq:
  assumes "erase m = erase m'"
  shows "m\<lparr>N := x, Addr := a\<rparr> = m'\<lparr>N := x, Addr := a\<rparr>" "buffer0 m = buffer0 m'"
  using assms by (cases m; cases m'; simp add: erase_def buffer0_def)+

lemma erase_nth:
  "map erase msgs' = map erase msgs \<Longrightarrow> k < length msgs \<Longrightarrow> erase (msgs' ! k) = erase (msgs ! k)"
  by (metis length_map nth_map)

lemma room_append:
  assumes "room msgs n (xs @ ys)"
  shows "room msgs n xs" "room msgs (n + length xs) ys"
proof -
  have a: "length (fst ((xs @ ys) ! t)) \<le> slen (buffer0 (msgs ! (n + t)))" if "t < length xs + length ys" for t
    using assms that by (simp add: room_def)
  show "room msgs n xs"
    unfolding room_def
  proof (intro allI impI)
    fix t assume "t < length xs"
    then show "length (fst (xs ! t)) \<le> slen (buffer0 (msgs ! (n + t)))"
      using a [of t] by (simp add: nth_append)
  qed
  show "room msgs (n + length xs) ys"
    unfolding room_def
  proof (intro allI impI)
    fix t assume "t < length ys"
    then show "length (fst (ys ! t)) \<le> slen (buffer0 (msgs ! (n + length xs + t)))"
      using a [of "length xs + t"] by (simp add: nth_append add.assoc)
  qed
qed

lemma room_cong:
  assumes "room msgs n ds" "map erase msgs' = map erase msgs" "n + length ds \<le> length msgs"
  shows "room msgs' n ds"
  using assms erase_eq(2) [OF erase_nth [OF assms(2)]] by (simp add: room_def)

lemma sources_Cons:
  "i < length msgs \<Longrightarrow> N (msgs ! i) \<noteq> 0 \<Longrightarrow> sources i msgs = msgs ! i # sources (Suc i) msgs"
  by (simp add: sources_def Cons_nth_drop_Suc [symmetric])

lemma length_sources: "length (sources i msgs) \<le> length msgs - i"
  unfolding sources_def using length_takeWhile_le [of _ "drop i msgs"] by simp

lemma msgs_ok_zero:
  assumes "msgs_ok h msgs"
  shows "msgs_ok h (msgs[i := (msgs ! i)\<lparr>N := 0\<rparr>])"
proof (cases "i < length msgs")
  case True
  have "map (\<lambda>m. sarr (buffer0 m)) (msgs[i := (msgs ! i)\<lparr>N := 0\<rparr>]) = map (\<lambda>m. sarr (buffer0 m)) msgs"
    using True by (simp add: map_update list_update_same_conv)
  then show ?thesis
    using assms msgs_ok_nth [OF assms True]
    by (auto simp: msgs_ok_def dest!: subsetD [OF set_update_subset_insert])
next
  case False
  then show ?thesis using assms by (simp add: list_update_beyond)
qed

lemma split_one:
  assumes ok: "msgs_ok h msgs" "i < length msgs" "N (msgs ! i) \<noteq> 0" "source_ok getGSO gso (msgs ! i)"
    and ds: "ds = datagrams_of gso h (msgs ! i)" and fits: "n + length ds \<le> Suc i"
    and size: "room msgs n ds"
  obtains msgs' h' where
    "split_loop getGSO (Suc k) i n msgs h = split_loop getGSO k (Suc i) (n + length ds) msgs' h'"
    "msgs_ok h' msgs'" "length msgs' = length msgs" "delivered msgs n ds msgs' h'"
    "unchanged msgs h (\<lambda>k. k < n \<or> i < k) msgs' h'" "map erase msgs' = map erase msgs"
proof -
  let ?m = "msgs ! i"
  let ?g = "gso ?m" and ?xs = "held h (msgs ! i)"
  let ?segs = "segments ?g ?xs"
  have src: "N ?m \<le> slen (buffer0 ?m)" "NN ?m \<le> cb_cap (OOB ?m)"
    "getGSO (take (NN ?m) (cdata (OOB ?m))) = Ret (Inr ?g)" "?g \<le> N ?m"
    using ok(4) by (auto simp: source_ok_def)
  have len: "length ?xs = N ?m" using src(1) msgs_ok_nth [OF ok(1,2)] by (simp add: held_def)
  then have ne: "?xs \<noteq> []" using ok(3) by auto
  have lds: "length ds = length ?segs" "\<And>t. t < length ?segs \<Longrightarrow> ds ! t = (?segs ! t, Addr ?m)"
    by (simp_all add: ds datagrams_of_def)
  let ?num = "if ?g > 0 then (N ?m + ?g - 1) div ?g else 1"
  let ?stop = "if ?g > 0 then ?g else N ?m"
  have num: "?num = length ?segs" using len ne by (simp add: length_segments)
  have e: "?stop = 0 + length (hd ?segs)" using len src(4) by (simp add: length_hd_segments)
  have "\<exists>msgs' h'. split_copy (length ?segs) i ?g 0 ?stop n msgs h = Ret (None, n + length ?segs, msgs', h') \<and>
      split_result msgs h i n ?segs msgs' h'"
    by (rule split_copy_segments [OF ok(1,2) ne _ src(1) e]) (use fits size lds in \<open>auto simp: room_def\<close>)
  then obtain msgs1 h' where cp: "split_copy (length ?segs) i ?g 0 ?stop n msgs h = Ret (None, n + length ?segs, msgs1, h')"
    and res: "split_result msgs h i n ?segs msgs1 h'" by blast
  let ?n = "n + length ds"
  let ?msgs = "if Suc i \<noteq> ?n then msgs1[i := (msgs1 ! i)\<lparr>N := 0\<rparr>] else msgs1"
  have ctl: "cb_reslice (OOB ?m) (NN ?m) = Ret ((OOB ?m)\<lparr>clen := NN ?m\<rparr>)"
    using src(2) by (simp add: cb_reslice_def)
  have gg: "getGSO (cb_bytes ((OOB ?m)\<lparr>clen := NN ?m\<rparr>)) = Ret (Inr ?g)"
    using src(3) by (simp add: cb_bytes_def)
  have eq: "split_loop getGSO (Suc k) i n msgs h = split_loop getGSO k (Suc i) ?n ?msgs h'"
    by (simp only: split_loop.simps(2) idx_Ret [OF ok(2)] obind.simps if_not_P [OF ok(3)] ctl
        gg sum.case Let_def num cp prod.case lds(1)) simp
  have r: "msgs_ok h' msgs1" "length msgs1 = length msgs" using res by (simp_all add: split_result_def)
  have "delivered msgs n ds ?msgs h'"
    unfolding delivered_def
  proof (intro allI impI)
    fix t assume t: "t < length ds"
    have "?msgs ! (n + t) = msgs1 ! (n + t)"
      using t fits by (cases "n + t = i") auto
    moreover have "msgs1 ! (n + t) = (msgs ! (n + t))\<lparr>N := length (?segs ! t), Addr := Addr ?m\<rparr>"
      "held h' (msgs1 ! (n + t)) = ?segs ! t"
      using res t unfolding split_result_def lds(1) by blast+
    moreover have "ds ! t = (?segs ! t, Addr ?m)" using lds t by simp
    ultimately show "?msgs ! (n + t) = (msgs ! (n + t))\<lparr>N := length (fst (ds ! t)), Addr := snd (ds ! t)\<rparr> \<and>
        held h' (?msgs ! (n + t)) = fst (ds ! t)"
      by (simp only: fst_conv snd_conv)
  qed
  moreover have "unchanged msgs h (\<lambda>k. k < n \<or> i < k) ?msgs h'"
    unfolding unchanged_def
  proof (intro allI impI)
    fix k assume k: "k < length msgs" "k < n \<or> i < k"
    have "k \<noteq> i" using k fits lds(1) segments_ne [of ?g ?xs] by (cases ?segs) auto
    then have "?msgs ! k = msgs1 ! k" by simp
    moreover have "k < n \<or> n + length ?segs \<le> k" using k fits lds(1) by auto
    then have "msgs1 ! k = msgs ! k" "sl_read h' (buffer0 (msgs ! k)) = sl_read h (buffer0 (msgs ! k))"
      using res k(1) unfolding split_result_def by blast+
    ultimately show "?msgs ! k = msgs ! k \<and> sl_read h' (buffer0 (msgs ! k)) = sl_read h (buffer0 (msgs ! k))"
      by simp
  qed
  moreover have "msgs_ok h' ?msgs" using r(1) msgs_ok_zero by simp
  moreover have "length ?msgs = length msgs" using r(2) by simp
  moreover have "map erase ?msgs = map erase msgs"
  proof (rule nth_equalityI)
    fix k assume "k < length (map erase ?msgs)"
    then have k: "k < length msgs" using r(2) by (simp split: if_splits)
    have "erase (msgs1 ! k) = erase (msgs ! k)"
    proof (cases "k < n \<or> n + length ?segs \<le> k")
      case True
      then have "msgs1 ! k = msgs ! k" using res k unfolding split_result_def by blast
      then show ?thesis by simp
    next
      case False
      then obtain t where "t < length ?segs" "k = n + t"
        using le_Suc_ex [of n k] by auto
      then have "msgs1 ! k = (msgs ! k)\<lparr>N := length (?segs ! t), Addr := Addr ?m\<rparr>"
        using res unfolding split_result_def by blast
      then show ?thesis by simp
    qed
    then show "map erase ?msgs ! k = map erase msgs ! k" using k r(2) by (cases "k = i") auto
  qed (use r(2) in simp)
  ultimately show thesis using that [OF eq] by blast
qed

lemma delivered_append:
  assumes "delivered msgs n ds msgs1 h1" "delivered msgs1 (n + length ds) ds' msgs2 h2"
    and "unchanged msgs1 h1 (\<lambda>k. k < n + length ds) msgs2 h2" "map erase msgs1 = map erase msgs"
    and "n + length ds + length ds' \<le> length msgs"
  shows "delivered msgs n (ds @ ds') msgs2 h2"
  unfolding delivered_def
proof (intro allI impI)
  fix t assume t: "t < length (ds @ ds')"
  let ?d = "(ds @ ds') ! t"
  have len: "n + t < length msgs1" using t assms(5) arg_cong [OF assms(4), of length] by simp
  show "msgs2 ! (n + t) = (msgs ! (n + t))\<lparr>N := length (fst ?d), Addr := snd ?d\<rparr> \<and>
      held h2 (msgs2 ! (n + t)) = fst ?d"
  proof (cases "t < length ds")
    case True
    then have "?d = ds ! t" by (simp add: nth_append)
    then have d: "msgs1 ! (n + t) = (msgs ! (n + t))\<lparr>N := length (fst ?d), Addr := snd ?d\<rparr>"
      "held h1 (msgs1 ! (n + t)) = fst ?d"
      using assms(1) True unfolding delivered_def by auto
    have "msgs2 ! (n + t) = msgs1 ! (n + t)"
      "sl_read h2 (buffer0 (msgs1 ! (n + t))) = sl_read h1 (buffer0 (msgs1 ! (n + t)))"
      using assms(3) True len unfolding unchanged_def by auto
    then have "msgs2 ! (n + t) = msgs1 ! (n + t)" "held h2 (msgs2 ! (n + t)) = held h1 (msgs1 ! (n + t))"
      by (simp_all only: held_def)
    then show ?thesis using d by (simp only:)
  next
    case False
    let ?s = "t - length ds"
    have s: "?s < length ds'" "n + t = n + length ds + ?s" "?d = ds' ! ?s"
      using t False by (auto simp: nth_append)
    have "n + t < length msgs" using s assms(5) by auto
    note eq = erase_eq(1) [OF erase_nth [OF assms(4) this]]
    have "msgs2 ! (n + t) = (msgs1 ! (n + t))\<lparr>N := length (fst ?d), Addr := snd ?d\<rparr> \<and>
        held h2 (msgs2 ! (n + t)) = fst ?d"
      using assms(2) s(1) unfolding delivered_def s(2,3) by blast
    then show ?thesis unfolding eq .
  qed
qed

definition datagrams :: "(message \<Rightarrow> nat) \<Rightarrow> store \<Rightarrow> message list \<Rightarrow> (byte list \<times> udp_addr option) list" where
  "datagrams gso h ms = concat (map (datagrams_of gso h) ms)"

lemma datagrams_simps [simp]:
  "datagrams gso h [] = []" "datagrams gso h (m # ms) = datagrams_of gso h m @ datagrams gso h ms"
  by (simp_all add: datagrams_def)

text \<open>
  No overflow: when message \<open>i + j\<close> has been split, at most \<open>i + j + 1\<close> datagrams are stored.
\<close>

definition no_overflow :: "(message \<Rightarrow> nat) \<Rightarrow> store \<Rightarrow> nat \<Rightarrow> nat \<Rightarrow> message list \<Rightarrow> bool" where
  "no_overflow gso h i n ms \<longleftrightarrow>
     (\<forall>j < length ms. n + length (datagrams gso h (take (Suc j) ms)) \<le> Suc (i + j))"

lemma no_overflow_Cons:
  "no_overflow gso h i n (m # ms) \<longleftrightarrow>
     n + length (datagrams_of gso h m) \<le> Suc i \<and>
     no_overflow gso h (Suc i) (n + length (datagrams_of gso h m)) ms"
  by (auto simp: no_overflow_def All_less_Suc2 add.assoc)

lemma no_overflow_total:
  "no_overflow gso h i n ms \<Longrightarrow> ms \<noteq> [] \<Longrightarrow> n + length (datagrams gso h ms) \<le> i + length ms"
  unfolding no_overflow_def by (erule allE [of _ "length ms - 1"]) (cases ms, auto)

lemma sources_unchanged:
  assumes "unchanged msgs h P msgs' h'" "length msgs' = length msgs" "\<And>k. i \<le> k \<Longrightarrow> P k"
  shows "sources i msgs' = sources i msgs"
    and "m \<in> set (sources i msgs) \<Longrightarrow> datagrams_of gso h' m = datagrams_of gso h m"
proof -
  have "drop i msgs' = drop i msgs"
    using assms by (auto simp: list_eq_iff_nth_eq unchanged_def)
  then show "sources i msgs' = sources i msgs" by (simp add: sources_def)
  assume "m \<in> set (sources i msgs)"
  then have "m \<in> set (drop i msgs)" by (auto simp: sources_def dest: set_takeWhileD)
  then obtain k where "k < length msgs - i" "m = msgs ! (i + k)" by (auto simp: in_set_conv_nth)
  then have "sl_read h' (buffer0 m) = sl_read h (buffer0 m)"
    using assms(1) assms(3) [of "i + k"] by (simp add: unchanged_def less_diff_conv add.commute)
  then show "datagrams_of gso h' m = datagrams_of gso h m"
    by (simp add: datagrams_of_def held_def)
qed

lemma unchanged_trans:
  assumes "unchanged msgs h P msgs1 h1" "unchanged msgs1 h1 Q msgs2 h2" "length msgs1 = length msgs"
    and "\<And>k. R k \<Longrightarrow> P k \<and> Q k"
  shows "unchanged msgs h R msgs2 h2"
  using assms unfolding unchanged_def by auto

definition split_all_result ::
  "message list \<Rightarrow> store \<Rightarrow> nat \<Rightarrow> (byte list \<times> udp_addr option) list
    \<Rightarrow> (goerror option \<times> nat \<times> message list \<times> store) outcome \<Rightarrow> bool" where
  "split_all_result msgs h n ds r \<longleftrightarrow> (\<exists>msgs' h'. r = Ret (None, n + length ds, msgs', h') \<and>
     msgs_ok h' msgs' \<and> length msgs' = length msgs \<and> delivered msgs n ds msgs' h' \<and>
     unchanged msgs h (\<lambda>k. k < n) msgs' h' \<and> map erase msgs' = map erase msgs)"

lemma split_loop_none:
  assumes "msgs_ok h msgs" "length msgs = i + k" "sources i msgs = []"
  shows "split_all_result msgs h n [] (split_loop getGSO k i n msgs h)"
proof (cases k)
  case 0
  then show ?thesis using assms by (simp add: split_all_result_def delivered_def unchanged_def)
next
  case (Suc k')
  then have "N (msgs ! i) = 0" using assms(2,3) sources_Cons [of i msgs] by fastforce
  then show ?thesis
    using assms Suc by (simp add: split_all_result_def delivered_def unchanged_def)
qed

lemma split_loop_all:
  assumes "msgs_ok h msgs" "length msgs = i + k" "\<forall>m \<in> set (sources i msgs). source_ok getGSO gso m"
    and "no_overflow gso h i n (sources i msgs)" and "ds = datagrams gso h (sources i msgs)"
    and "room msgs n ds"
  shows "split_all_result msgs h n ds (split_loop getGSO k i n msgs h)"
  using assms
proof (induction k arbitrary: i n msgs h ds)
  case 0
  then show ?case using split_loop_none [of h msgs i 0] by (simp add: sources_def)
next
  case (Suc k)
  show ?case
  proof (cases "N (msgs ! i) = 0")
    case True
    then have "sources i msgs = []" using Suc.prems(2) by (simp add: sources_def takeWhile_eq_Nil_iff hd_drop_conv_nth)
    then show ?thesis using split_loop_none [OF Suc.prems(1,2)] Suc.prems(5) by simp
  next
    case False
    let ?m = "msgs ! i" and ?ms = "sources (Suc i) msgs"
    let ?d = "datagrams_of gso h ?m" and ?ds = "datagrams gso h ?ms"
    have src: "sources i msgs = ?m # ?ms" using False Suc.prems(2) by (intro sources_Cons) auto
    have ds: "ds = ?d @ ?ds" using Suc.prems(5) src by simp
    have ov: "n + length ?d \<le> Suc i" "no_overflow gso h (Suc i) (n + length ?d) ?ms"
      using Suc.prems(4) src by (simp_all add: no_overflow_Cons)
    note size = room_append [OF Suc.prems(6) [unfolded ds]]
    obtain msgs1 h1 where one:
      "split_loop getGSO (Suc k) i n msgs h = split_loop getGSO k (Suc i) (n + length ?d) msgs1 h1"
      "msgs_ok h1 msgs1" "length msgs1 = length msgs" "delivered msgs n ?d msgs1 h1"
      "unchanged msgs h (\<lambda>k. k < n \<or> i < k) msgs1 h1" "map erase msgs1 = map erase msgs"
      by (rule split_one [OF Suc.prems(1) _ False _ refl ov(1) size(1), of getGSO k])
        (use Suc.prems(2,3) src in auto)
    note same = sources_unchanged [OF one(5,3), of "Suc i"]
    have src1: "sources (Suc i) msgs1 = ?ms" by (rule same(1)) simp
    have dg: "datagrams_of gso h1 m = datagrams_of gso h m" if "m \<in> set ?ms" for m
      using same(2) [of m] that by simp
    have ds1: "datagrams gso h1 ms = datagrams gso h ms" if "set ms \<subseteq> set ?ms" for ms
      using that dg by (induction ms) auto
    have tot: "n + length ?d + length ?ds \<le> length msgs"
    proof (cases "?ms = []")
      case True
      then show ?thesis using ov(1) Suc.prems(2) by simp
    next
      case ne: False
      show ?thesis using no_overflow_total [OF ov(2) ne] length_sources [of "Suc i" msgs] Suc.prems(2) by simp
    qed
    have "split_all_result msgs1 h1 (n + length ?d) ?ds (split_loop getGSO k (Suc i) (n + length ?d) msgs1 h1)"
    proof (rule Suc.IH)
      show "length msgs1 = Suc i + k" using one(3) Suc.prems(2) by simp
      show "\<forall>m \<in> set (sources (Suc i) msgs1). source_ok getGSO gso m" using Suc.prems(3) src src1 by simp
      have "datagrams gso h1 (take j ?ms) = datagrams gso h (take j ?ms)" for j
        by (rule ds1) (rule set_take_subset)
      then show "no_overflow gso h1 (Suc i) (n + length ?d) (sources (Suc i) msgs1)"
        using ov(2) src1 by (simp add: no_overflow_def)
      show "?ds = datagrams gso h1 (sources (Suc i) msgs1)" using ds1 src1 by simp
      show "room msgs1 (n + length ?d) ?ds" by (rule room_cong [OF size(2) one(6) tot])
    qed (rule one(2))
    then obtain msgs2 h2 where
      two: "split_loop getGSO k (Suc i) (n + length ?d) msgs1 h1 = Ret (None, n + length ?d + length ?ds, msgs2, h2)"
      "msgs_ok h2 msgs2" "length msgs2 = length msgs1" "delivered msgs1 (n + length ?d) ?ds msgs2 h2"
      "unchanged msgs1 h1 (\<lambda>k. k < n + length ?d) msgs2 h2" "map erase msgs2 = map erase msgs1"
      unfolding split_all_result_def by blast
    have "delivered msgs n ds msgs2 h2"
      unfolding ds by (rule delivered_append [OF one(4) two(4,5) one(6) tot])
    moreover have "unchanged msgs h (\<lambda>k. k < n) msgs2 h2"
      by (rule unchanged_trans [OF one(5) two(5) one(3)]) auto
    ultimately show ?thesis
      unfolding split_all_result_def one(1) two(1) using two(2,3,6) one(3,6) ds
      by (intro exI [of _ msgs2] exI [of _ h2]) simp
  qed
qed

section \<open>Enough room\<close>

text \<open>
  The receive path reads into the last \<open>k\<close> messages of the slice. When the kernel coalesces at
  most \<open>udpSegmentMaxDatagrams\<close> datagrams into a message, \<open>64 * k\<close> messages are enough for all of
  them, at every moment of the in-place split.
\<close>

lemma length_datagrams_le:
  "\<forall>m \<in> set ms. length (datagrams_of gso h m) \<le> c \<Longrightarrow> length (datagrams gso h ms) \<le> c * length ms"
  by (induction ms) (auto simp: add_mono)

lemma no_overflow_max:
  assumes "\<forall>m \<in> set ms. length (datagrams_of gso h m) \<le> Suc c" "Suc c * k \<le> l" "length ms \<le> k"
  shows "no_overflow gso h (l - k) 0 ms"
  unfolding no_overflow_def
proof (intro allI impI)
  fix j assume j: "j < length ms"
  have "length (datagrams gso h (take (Suc j) ms)) \<le> Suc c * length (take (Suc j) ms)"
    by (rule length_datagrams_le) (use assms(1) in \<open>auto dest: in_set_takeD\<close>)
  also have "length (take (Suc j) ms) = Suc j" using j by simp
  also have "Suc c * Suc j = Suc j + c * Suc j" by simp
  also have "c * Suc j \<le> c * k" using j assms(3) by (intro mult_le_mono) auto
  finally show "0 + length (datagrams gso h (take (Suc j) ms)) \<le> Suc (l - k + j)"
    using assms(2) by simp
qed

lemma groReadBatchSize_dvd:
  assumes "udpSegmentMaxDatagrams dvd b" "0 < b"
  shows "udpSegmentMaxDatagrams * groReadBatchSize b = b"
proof -
  obtain k where "b = 64 * k" using assms by (auto simp: udpSegmentMaxDatagrams_def)
  moreover have "(64 * k + 63) div 64 = k" by simp
  ultimately show ?thesis
    using assms(2) by (simp add: groReadBatchSize_def udpSegmentMaxDatagrams_def Let_def)
qed

lemma groReadBatchSize_bounds:
  "0 < b \<Longrightarrow> 0 < groReadBatchSize b \<and> groReadBatchSize b \<le> b"
  by (auto simp: groReadBatchSize_def Let_def)

end
