(* ===== verification/Std_Receive.thy ===== *)
theory Std_Receive
  imports Std_Bind Split
begin

text \<open>
  The receive path of \<open>StdNetBind\<close> (\<open>bind_std.go\<close>): \<open>receiveIP\<close> with its three ways of reading
  and the receive functions made by \<open>makeReceiveIPv4\<close> and \<open>makeReceiveIPv6\<close>.
\<close>

section \<open>Reading\<close>

text \<open>
  What a read leaves in a message: the payload is scattered over the buffers and cut off where
  they end, the control data is cut off at the length of \<open>OOB\<close>.
\<close>

fun rx_scatter :: "store \<Rightarrow> slice list \<Rightarrow> byte list \<Rightarrow> store \<times> nat" where
  "rx_scatter h [] d = (h, 0)"
| "rx_scatter h (b # bs) d =
     (let k = min (slen b) (length d);
          (h', n) = rx_scatter (sl_write h (sarr b) (soff b) (take k d)) bs (drop k d)
      in (h', k + n))"

definition rx_into :: "store \<Rightarrow> rx_msg \<Rightarrow> message \<Rightarrow> store \<times> message" where
  "rx_into h r m =
     (let (h', n) = rx_scatter h (Buffers m) (rx_data r);
          c = take (clen (OOB m)) (rx_control r)
      in (h', m\<lparr>N := n, NN := length c, OOB := (OOB m)\<lparr>cdata := overwrite (cdata (OOB m)) 0 c\<rparr>,
                Addr := rx_addr r\<rparr>))"

fun rx_all :: "store \<Rightarrow> rx_msg list \<Rightarrow> message list \<Rightarrow> store \<times> message list" where
  "rx_all h (r # rs) (m # ms) =
     (let (h', m') = rx_into h r m; (h'', ms') = rx_all h' rs ms in (h'', m' # ms'))"
| "rx_all h rs ms = (h, ms)"

definition conn_ReadBatch ::
  "env \<Rightarrow> conn \<Rightarrow> message list \<Rightarrow> store \<Rightarrow> world \<Rightarrow> (goerror + nat) \<times> message list \<times> store \<times> world" where
  "conn_ReadBatch E c ms h w =
     (case eReadBatch E w c (length ms) of
        Inl err \<Rightarrow> (Inl err, ms, h, record_conn (EvReadBatch c (length ms) (Inl err)) w)
      | Inr rs \<Rightarrow>
          let (h', ms') = rx_all h rs ms
          in (Inr (length rs), ms', h', record_conn (EvReadBatch c (length ms) (Inr (length rs))) w))"

text \<open>A nil \<open>*net.UDPAddr\<close>, whose \<open>AddrPort\<close> is the zero value.\<close>

definition nil_udp_addr :: udp_addr where
  "nil_udp_addr = \<lparr>ua_IP = cb_make 0 0, ua_Port = 0, ua_Zone = []\<rparr>"

definition conn_ReadMsgUDP ::
  "env \<Rightarrow> conn \<Rightarrow> message \<Rightarrow> slice \<Rightarrow> store \<Rightarrow> world \<Rightarrow> goerror option \<times> message \<times> store \<times> world" where
  "conn_ReadMsgUDP E c m b h w =
     (case eReadMsgUDP E w c of
        Inl err \<Rightarrow> (Some err, m\<lparr>N := 0, NN := 0, Addr := Some nil_udp_addr\<rparr>, h, record_conn (EvReadMsg c (Some err)) w)
      | Inr r \<Rightarrow>
          let addr = (case rx_addr r of None \<Rightarrow> nil_udp_addr | Some ua \<Rightarrow> ua);
              (h', m') = rx_into h (r\<lparr>rx_addr := Some addr\<rparr>) (m\<lparr>Buffers := [b]\<rparr>)
          in (None, m'\<lparr>Buffers := Buffers m\<rparr>, h', record_conn (EvReadMsg c None) w))"

section \<open>receiveIP\<close>

fun arm_messages :: "message list \<Rightarrow> slice list \<Rightarrow> message list outcome" where
  "arm_messages [] bufs = Ret []"
| "arm_messages (m # ms) [] = Panic IndexOutOfRange"
| "arm_messages (m # ms) (b # bufs) =
     obind (upd (Buffers m) 0 b) (\<lambda>bs.
       obind (arm_messages ms bufs) (\<lambda>ms'.
         Ret (m\<lparr>Buffers := bs, OOB := (OOB m)\<lparr>clen := cb_cap (OOB m)\<rparr>\<rparr> # ms')))"

definition receive_batch ::
  "env \<Rightarrow> cmsg_abi \<Rightarrow> conn option \<Rightarrow> conn \<Rightarrow> bool \<Rightarrow> message list \<Rightarrow> store \<Rightarrow> world
    \<Rightarrow> ((goerror + nat) \<times> message list \<times> store \<times> world) outcome" where
  "receive_batch E A br c rxOffload msgs h w =
     (if br \<noteq> None \<and> (eGOOS E = Linux \<or> eGOOS E = Android) then
        if rxOffload \<and> length msgs > 1 then
          let readAt = length msgs - groReadBatchSize (length msgs);
              (r, tail, h1, w1) = conn_ReadBatch E (the br) (drop readAt msgs) h w
          in case r of
               Inl err \<Rightarrow> Ret (Inl err, take readAt msgs @ tail, h1, w1)
             | Inr _ \<Rightarrow>
                 obind (splitCoalescedMessages (take readAt msgs @ tail) readAt (getGSOSize (eGOOS E) A) h1)
                   (\<lambda>(err, n, msgs', h'). Ret (case err of Some e \<Rightarrow> Inl e | None \<Rightarrow> Inr n, msgs', h', w1))
        else Ret (conn_ReadBatch E (the br) msgs h w)
      else
        obind (idx msgs 0) (\<lambda>m.
          obind (idx (Buffers m) 0) (\<lambda>b.
            let (err, m', h', w') = conn_ReadMsgUDP E c m b h w
            in Ret (case err of Some e \<Rightarrow> Inl e | None \<Rightarrow> Inr 1, msgs[0 := m'], h', w'))))"

text \<open>The last loop: \<open>k\<close> messages from index \<open>i\<close> on become sizes and endpoints.\<close>

fun receive_endpoints ::
  "goos \<Rightarrow> cmsg_abi \<Rightarrow> nat \<Rightarrow> nat \<Rightarrow> message list \<Rightarrow> nat list \<Rightarrow> endpoint option list
    \<Rightarrow> (nat list \<times> endpoint option list) outcome" where
  "receive_endpoints p A 0 i msgs sizes eps = Ret (sizes, eps)"
| "receive_endpoints p A (Suc k) i msgs sizes eps =
     obind (idx msgs i) (\<lambda>m.
       obind (upd sizes i (N m)) (\<lambda>sizes'.
         if N m = 0 then receive_endpoints p A k (Suc i) msgs sizes' eps
         else case Addr m of
           None \<Rightarrow> Panic BadTypeAssertion
         | Some ua \<Rightarrow>
             let ap = UDPAddr_AddrPort ua;
                 ep = \<lparr>AddrPort = \<lparr>ap_addr = Unmap (ap_addr ap), ap_port = ap_port ap\<rparr>, src = None\<rparr>
             in obind (cb_reslice (OOB m) (NN m)) (\<lambda>control.
                  obind (getSrcFromControl p A (cb_bytes control) ep) (\<lambda>ep'.
                    obind (upd eps i (Some (StdEndpoint ep'))) (\<lambda>eps'.
                      receive_endpoints p A k (Suc i) msgs sizes' eps')))))"

record receive_result =
  rr_n :: nat
  rr_err :: "goerror option"
  rr_sizes :: "nat list"
  rr_eps :: "endpoint option list"
  rr_bind :: std_bind
  rr_mem :: store
  rr_world :: world

definition receiveIP ::
  "env \<Rightarrow> cmsg_abi \<Rightarrow> std_bind \<Rightarrow> conn option \<Rightarrow> conn \<Rightarrow> bool \<Rightarrow> slice list \<Rightarrow> nat list \<Rightarrow> endpoint option list
    \<Rightarrow> store \<Rightarrow> world \<Rightarrow> receive_result outcome" where
  "receiveIP E A s br c rxOffload bufs sizes eps h w =
     (case validateReceiveBuffers bufs sizes eps (s_batchSize s) of
        Some err \<Rightarrow> Ret \<lparr>rr_n = 0, rr_err = Some err, rr_sizes = sizes, rr_eps = eps, rr_bind = s, rr_mem = h, rr_world = w\<rparr>
      | None \<Rightarrow>
          let (msgs, s1) = getMessages E A s w
          in obind (arm_messages msgs bufs) (\<lambda>msgs1.
               obind (receive_batch E A br c rxOffload msgs1 h w) (\<lambda>(r, msgs2, h2, w2).
                 case r of
                   Inl err \<Rightarrow>
                     Ret \<lparr>rr_n = 0, rr_err = Some err, rr_sizes = sizes, rr_eps = eps,
                          rr_bind = putMessages msgs2 s1, rr_mem = h2, rr_world = w2\<rparr>
                 | Inr numMsgs \<Rightarrow>
                     obind (receive_endpoints (eGOOS E) A numMsgs 0 msgs2 sizes eps) (\<lambda>(sizes', eps').
                       Ret \<lparr>rr_n = numMsgs, rr_err = None, rr_sizes = sizes', rr_eps = eps',
                            rr_bind = putMessages msgs2 s1, rr_mem = h2, rr_world = w2\<rparr>))))"

section \<open>The receive functions\<close>

definition receive_closed ::
  "std_bind \<Rightarrow> nat list \<Rightarrow> endpoint option list \<Rightarrow> store \<Rightarrow> world \<Rightarrow> receive_result outcome" where
  "receive_closed s sizes eps h w =
     Ret \<lparr>rr_n = 0, rr_err = Some NetErrClosed, rr_sizes = sizes, rr_eps = eps, rr_bind = s, rr_mem = h, rr_world = w\<rparr>"

definition makeReceiveIPv4 ::
  "env \<Rightarrow> cmsg_abi \<Rightarrow> std_bind \<Rightarrow> conn option \<Rightarrow> conn \<Rightarrow> bool \<Rightarrow> slice list \<Rightarrow> nat list \<Rightarrow> endpoint option list
    \<Rightarrow> store \<Rightarrow> world \<Rightarrow> receive_result outcome" where
  "makeReceiveIPv4 E A s pc c rxOffload bufs sizes eps h w =
     (if networkDown (s_network s) w then receive_closed s sizes eps h w
      else if s_ipv4 s = None then receive_closed s sizes eps h w
      else receiveIP E A s pc c rxOffload bufs sizes eps h w)"

definition makeReceiveIPv6 ::
  "env \<Rightarrow> cmsg_abi \<Rightarrow> std_bind \<Rightarrow> conn option \<Rightarrow> conn \<Rightarrow> bool \<Rightarrow> slice list \<Rightarrow> nat list \<Rightarrow> endpoint option list
    \<Rightarrow> store \<Rightarrow> world \<Rightarrow> receive_result outcome" where
  "makeReceiveIPv6 E A s pc c rxOffload bufs sizes eps h w =
     (if networkDown (s_network s) w then receive_closed s sizes eps h w
      else if s_ipv6 s = None then receive_closed s sizes eps h w
      else receiveIP E A s pc c rxOffload bufs sizes eps h w)"

definition receive_with ::
  "env \<Rightarrow> cmsg_abi \<Rightarrow> std_bind \<Rightarrow> receive_func \<Rightarrow> slice list \<Rightarrow> nat list \<Rightarrow> endpoint option list
    \<Rightarrow> store \<Rightarrow> world \<Rightarrow> receive_result outcome" where
  "receive_with E A s fn bufs sizes eps h w =
     (case fn of
        ReceiveIPv4 pc c rx \<Rightarrow> makeReceiveIPv4 E A s pc c rx bufs sizes eps h w
      | ReceiveIPv6 pc c rx \<Rightarrow> makeReceiveIPv6 E A s pc c rx bufs sizes eps h w)"

end
