(* ===== verification/Coalesce_Correct.thy ===== *)
theory Coalesce_Correct
  imports Coalesce
begin

text \<open>
  \<open>coalesceMessages\<close> implements the batching rule: the messages it fills are the batches of
  \<open>batches (std_ok maxLen)\<close>, each with the payload of its datagrams in order, and the caller's
  buffers keep their contents although the batches are assembled in the spare capacity of
  the first buffer of each batch. The client side of \<open>setGSOFunc\<close> is the locale
  \<open>gso_setter\<close>.
\<close>

locale gso_setter =
  fixes setGSO :: setGSOFunc
  assumes set_returns: "cb_wf c \<Longrightarrow> \<exists>c'. setGSO c g = Ret c' \<and> cb_wf c'"

definition set_oob :: "setGSOFunc \<Rightarrow> cbuf \<Rightarrow> nat \<Rightarrow> cbuf" where
  "set_oob setGSO c g = (case setGSO c (of_nat g) of Ret c' \<Rightarrow> c' | _ \<Rightarrow> c)"

definition merged :: "slice list \<Rightarrow> slice" where
  "merged g = (hd g)\<lparr>slen := total_len g\<rparr>"

text \<open>The message a batch is assembled in; \<open>closed\<close> once its segment size has been set.\<close>

definition batch_msg ::
  "goos \<Rightarrow> setGSOFunc \<Rightarrow> udp_addr \<Rightarrow> std_endpoint \<Rightarrow> bool \<Rightarrow> message \<Rightarrow> slice list \<Rightarrow> message" where
  "batch_msg p setGSO addr ep closed m g =
     m\<lparr>Buffers := (Buffers m)[0 := merged g],
       OOB := (let c = setSrcControl p (OOB m) ep in
               if closed \<and> 1 < length g then set_oob setGSO c (slen (hd g)) else c),
       Addr := Some addr\<rparr>"

definition msgs_rel ::
  "goos \<Rightarrow> setGSOFunc \<Rightarrow> udp_addr \<Rightarrow> std_endpoint \<Rightarrow> message list \<Rightarrow> slice list list \<Rightarrow>
   slice list \<Rightarrow> bool \<Rightarrow> message list \<Rightarrow> bool" where
  "msgs_rel p setGSO addr ep msgs0 done cur closed msgs \<longleftrightarrow>
     length msgs = length msgs0 \<and> length done < length msgs0 \<and>
     (\<forall>k < length done. msgs ! k = batch_msg p setGSO addr ep True (msgs0 ! k) (done ! k)) \<and>
     msgs ! length done = batch_msg p setGSO addr ep closed (msgs0 ! length done) cur \<and>
     (\<forall>k. length done < k \<and> k < length msgs0 \<longrightarrow> msgs ! k = msgs0 ! k)"

definition mem_rel :: "store \<Rightarrow> store \<Rightarrow> slice list \<Rightarrow> slice list list \<Rightarrow> bool" where
  "mem_rel h0 h bufs gs \<longleftrightarrow>
     (\<forall>b \<in> set bufs. sl_wf h b \<and> sl_read h b = sl_read h0 b) \<and>
     (\<forall>g \<in> set gs. sl_wf h (merged g) \<and> sl_read h (merged g) = concat (map (sl_read h0) g))"

definition counters_rel :: "slice list \<Rightarrow> coalesce_state \<Rightarrow> bool" where
  "counters_rel cur st \<longleftrightarrow>
     cur \<noteq> [] \<and> co_gsoSize st = slen (hd cur) \<and> co_dgramCnt st = length cur \<and>
     (co_endBatch st \<longleftrightarrow> slen (last cur) < slen (hd cur))"

definition pool_ready :: "message list \<Rightarrow> bool" where
  "pool_ready msgs \<longleftrightarrow> (\<forall>m \<in> set msgs. Buffers m \<noteq> [] \<and> cb_wf (OOB m))"

lemma setSrcControl_wf: "cb_wf c \<Longrightarrow> cb_wf (setSrcControl p c ep)"
proof -
  assume wf: "cb_wf c"
  have "cb_wf (c\<lparr>clen := 0\<rparr>)" by (simp add: cb_wf_def)
  then show ?thesis using wf by (simp add: setSrcControl_def)
qed

lemma merged_simps [simp]:
  "slen (merged g) = total_len g" "sarr (merged g) = sarr (hd g)" "soff (merged g) = soff (hd g)"
  "scap (merged g) = scap (hd g)"
  by (simp_all add: merged_def)

lemma merged_single [simp]: "merged [b] = b"
  by (simp add: merged_def)

lemma batch_msg_simps [simp]:
  "Buffers m \<noteq> [] \<Longrightarrow> buffer0 (batch_msg p setGSO addr ep closed m g) = merged g"
  "length (Buffers (batch_msg p setGSO addr ep closed m g)) = length (Buffers m)"
  "Addr (batch_msg p setGSO addr ep closed m g) = Some addr"
  "N (batch_msg p setGSO addr ep closed m g) = N m"
  "NN (batch_msg p setGSO addr ep closed m g) = NN m"
  by (simp_all add: batch_msg_def buffer0_def)

text \<open>Appending a buffer to the current batch, in the array of the batch's first buffer.\<close>

lemma mem_rel_join:
  assumes rel: "mem_rel h0 h bufs (gs @ [cur])" and ne: "cur \<noteq> []"
    and sub: "set (concat gs @ cur @ [b]) \<subseteq> set bufs" and gne: "\<forall>g \<in> set gs. g \<noteq> []"
    and dist: "distinct (map sarr bufs)" "distinct (concat gs @ cur @ [b])"
    and room: "slen b \<le> scap (hd cur) - total_len cur" "total_len cur \<le> scap (hd cur)"
  shows "sl_append h (merged cur) b =
           (sl_write h (sarr (hd cur)) (soff (hd cur) + total_len cur) (sl_read h b),
            merged (cur @ [b]))"
    and "mem_rel h0 (fst (sl_append h (merged cur) b)) bufs (gs @ [cur @ [b]])"
proof -
  let ?off = "soff (hd cur) + total_len cur"
  let ?h = "sl_write h (sarr (hd cur)) ?off (sl_read h b)"
  have inj: "sarr x = sarr y \<longleftrightarrow> x = y" if "x \<in> set bufs" "y \<in> set bufs" for x y
    using dist(1) that by (auto simp: distinct_map inj_on_def)
  have hd: "hd cur \<in> set cur" "hd cur \<in> set bufs" "b \<in> set bufs" "hd cur \<noteq> b"
    using ne sub dist(2) by auto
  have wf: "sl_wf h (merged cur)" "sl_wf h b" and rdb: "sl_read h b = sl_read h0 b"
    and rdc: "sl_read h (merged cur) = concat (map (sl_read h0) cur)"
    using rel hd by (auto simp: mem_rel_def)
  have len: "length (sl_read h b) = slen b" using wf by simp
  have fits: "?off + slen b \<le> length (arrs h (sarr (hd cur)))" "?off \<le> length (arrs h (sarr (hd cur)))"
    using wf(1) room by (auto simp: sl_wf_def)
  show app: "sl_append h (merged cur) b = (?h, merged (cur @ [b]))"
    using room ne by (simp add: sl_append_def Let_def merged_def)
  have keep: "sl_wf ?h x \<longleftrightarrow> sl_wf h x" for x
    using fits len by simp
  have bufs: "sl_read ?h x = sl_read h x" if "x \<in> set bufs" for x
  proof (cases "x = hd cur")
    case True
    then have "sl_wf h x" using rel that by (simp add: mem_rel_def)
    then show ?thesis
      using True sl_read_write_beyond [of h x ?off] fits(2) total_hd [OF ne] by simp
  next
    case False
    then show ?thesis using inj [OF that hd(2)] by simp
  qed
  have other: "sl_read ?h (merged g) = sl_read h (merged g)" if "g \<in> set gs" for g
  proof -
    have "hd g \<in> set g" using gne that by simp
    then have "hd g \<in> set (concat gs)" using that by auto
    then have "hd g \<noteq> hd cur" "hd g \<in> set bufs"
      using dist(2) hd(1) sub by auto
    then show ?thesis using inj [OF _ hd(2)] by simp
  qed
  have new: "sl_read ?h (merged (cur @ [b])) = concat (map (sl_read h0) (cur @ [b]))"
    using sl_read_extend [OF wf(1), of "merged (cur @ [b])" "sl_read h b"] ne rdc rdb len
    by simp
  have "sl_wf h (merged (cur @ [b]))"
    using wf(1) room ne by (auto simp: sl_wf_def)
  then show "mem_rel h0 (fst (sl_append h (merged cur) b)) bufs (gs @ [cur @ [b]])"
    using rel bufs other new keep unfolding app by (auto simp: mem_rel_def)
qed

text \<open>The loop variables between two iterations.\<close>

definition coalesce_rel ::
  "goos \<Rightarrow> setGSOFunc \<Rightarrow> udp_addr \<Rightarrow> std_endpoint \<Rightarrow> store \<Rightarrow> slice list \<Rightarrow> message list \<Rightarrow>
   slice list list \<Rightarrow> slice list \<Rightarrow> bool \<Rightarrow> coalesce_state \<Rightarrow> bool" where
  "coalesce_rel p setGSO addr ep h0 bufs msgs0 done cur closed st \<longleftrightarrow>
     msgs_rel p setGSO addr ep msgs0 done cur closed (co_msgs st) \<and>
     mem_rel h0 (co_mem st) bufs (done @ [cur]) \<and> counters_rel cur st \<and>
     co_n st = Suc (length done) \<and> (\<forall>g \<in> set done. g \<noteq> [])"

lemma msgs_rel_single:
  "length cur \<le> 1 \<Longrightarrow>
   msgs_rel p setGSO addr ep msgs0 done cur closed msgs =
   msgs_rel p setGSO addr ep msgs0 done cur closed' msgs"
  by (simp add: msgs_rel_def batch_msg_def Let_def)

lemma at_base_rel:
  assumes "coalesce_rel p setGSO addr ep h0 bufs msgs0 done cur closed st"
  shows "at_base st = Ret (batch_msg p setGSO addr ep closed (msgs0 ! length done) cur)"
  using assms by (auto simp: coalesce_rel_def msgs_rel_def at_base_def)

text \<open>What the call leaves: one message per batch, the others untouched.\<close>

definition refines_batches ::
  "goos \<Rightarrow> setGSOFunc \<Rightarrow> udp_addr \<Rightarrow> std_endpoint \<Rightarrow> store \<Rightarrow> message list \<Rightarrow> slice list \<Rightarrow>
   slice list list \<Rightarrow> message list \<Rightarrow> store \<Rightarrow> bool" where
  "refines_batches p setGSO addr ep h msgs bufs gs msgs' h' \<longleftrightarrow>
     length msgs' = length msgs \<and> length gs \<le> length msgs \<and>
     (\<forall>k < length gs. msgs' ! k = batch_msg p setGSO addr ep True (msgs ! k) (gs ! k)) \<and>
     (\<forall>k. length gs \<le> k \<and> k < length msgs \<longrightarrow> msgs' ! k = msgs ! k) \<and> mem_rel h h' bufs gs"

context gso_setter
begin

lemma set_oob_eq:
  assumes "cb_wf c"
  shows "setGSO c (of_nat g) = Ret (set_oob setGSO c g)" and "cb_wf (set_oob setGSO c g)"
  using set_returns [OF assms, of "of_nat g"] by (auto simp: set_oob_def)

text \<open>Setting the segment size closes the current batch, if it has several datagrams.\<close>

lemma close_rel:
  assumes rel: "coalesce_rel p setGSO addr ep h0 bufs msgs0 done cur False st"
    and ready: "pool_ready msgs0" and several: "1 < length cur"
  obtains st' where "set_gso_at_base setGSO st = Ret st'"
    "coalesce_rel p setGSO addr ep h0 bufs msgs0 done cur True st'"
    "co_dgramCnt st' = co_dgramCnt st" "co_gsoSize st' = co_gsoSize st"
    "co_endBatch st' = co_endBatch st" "co_mem st' = co_mem st"
proof -
  let ?orig = "msgs0 ! length done"
  let ?m = "batch_msg p setGSO addr ep False ?orig cur"
  let ?m' = "batch_msg p setGSO addr ep True ?orig cur"
  let ?st = "st\<lparr>co_msgs := (co_msgs st)[length done := ?m']\<rparr>"
  have d: "length done < length msgs0" "length (co_msgs st) = length msgs0" "co_n st = Suc (length done)"
    "co_gsoSize st = slen (hd cur)"
    using rel by (auto simp: coalesce_rel_def msgs_rel_def counters_rel_def)
  have "cb_wf (OOB ?orig)" using ready d by (simp add: pool_ready_def)
  then have wf: "cb_wf (OOB ?m)"
    by (simp add: batch_msg_def Let_def setSrcControl_wf)
  have eq: "?m\<lparr>OOB := set_oob setGSO (OOB ?m) (slen (hd cur))\<rparr> = ?m'"
    using several by (simp add: batch_msg_def Let_def)
  have "set_gso_at_base setGSO st = Ret ?st"
    using at_base_rel [OF rel] set_oob_eq(1) [OF wf] d eq by (simp add: set_gso_at_base_def)
  moreover have "coalesce_rel p setGSO addr ep h0 bufs msgs0 done cur True ?st"
    using rel d by (auto simp: coalesce_rel_def msgs_rel_def counters_rel_def nth_list_update)
  ultimately show thesis by (intro that [of ?st]) auto
qed

text \<open>Starting the next message.\<close>

lemma start_rel:
  assumes rel: "coalesce_rel p setGSO addr ep h0 bufs msgs0 done cur False st"
    and ready: "pool_ready msgs0" and room: "Suc (length done) < length msgs0"
    and b: "b \<in> set bufs"
  obtains st' where "coalesce_start p setGSO addr ep b st = Ret st'"
    "coalesce_rel p setGSO addr ep h0 bufs msgs0 (done @ [cur]) [b] True st'"
proof -
  have cnt: "co_dgramCnt st = length cur" using rel by (simp add: coalesce_rel_def counters_rel_def)
  obtain st1 where st1: "(if co_dgramCnt st > 1 then set_gso_at_base setGSO st else Ret st) = Ret st1"
    and rel1: "coalesce_rel p setGSO addr ep h0 bufs msgs0 done cur True st1"
  proof (cases "1 < length cur")
    case True
    then show thesis using close_rel [OF rel ready] that cnt by auto
  next
    case False
    then have "coalesce_rel p setGSO addr ep h0 bufs msgs0 done cur True st"
      using rel msgs_rel_single [of cur p setGSO addr ep msgs0 "done" True "co_msgs st" False]
      by (simp add: coalesce_rel_def)
    then show thesis using that [of st] cnt False by simp
  qed
  let ?k = "Suc (length done)" and ?m = "msgs0 ! Suc (length done)"
  have k: "co_n st1 = ?k" "?k < length (co_msgs st1)" "co_msgs st1 ! ?k = ?m"
    using rel1 room by (auto simp: coalesce_rel_def msgs_rel_def)
  have buf: "Buffers ?m \<noteq> []" using ready room by (simp add: pool_ready_def)
  let ?m' = "batch_msg p setGSO addr ep True ?m [b]"
  have eq: "?m\<lparr>OOB := setSrcControl p (OOB ?m) ep, Buffers := (Buffers ?m)[0 := b], Addr := Some addr\<rparr> = ?m'"
    by (simp add: batch_msg_def)
  let ?st = "st1\<lparr>co_msgs := (co_msgs st1)[?k := ?m'], co_n := Suc ?k, co_gsoSize := slen b,
      co_dgramCnt := 1, co_endBatch := False\<rparr>"
  have "coalesce_start p setGSO addr ep b st = Ret ?st"
    unfolding coalesce_start_def st1 using k buf eq by simp
  moreover have "coalesce_rel p setGSO addr ep h0 bufs msgs0 (done @ [cur]) [b] True ?st"
  proof -
    have "sl_wf (co_mem st1) b" "sl_read (co_mem st1) b = sl_read h0 b"
      using rel1 b by (simp_all add: coalesce_rel_def mem_rel_def)
    then have "mem_rel h0 (co_mem st1) bufs ((done @ [cur]) @ [[b]])"
      using rel1 by (auto simp: coalesce_rel_def mem_rel_def)
    moreover have "msgs_rel p setGSO addr ep msgs0 (done @ [cur]) [b] True (co_msgs ?st)"
      using rel1 room k by (auto simp: coalesce_rel_def msgs_rel_def nth_append nth_list_update less_Suc_eq)
    ultimately show ?thesis
      using rel1 by (auto simp: coalesce_rel_def counters_rel_def)
  qed
  ultimately show thesis by (rule that)
qed

text \<open>The guard of the loop body is the batching rule.\<close>

lemma join_rel:
  assumes rel: "coalesce_rel p setGSO addr ep h0 bufs msgs0 done cur False st"
    and ready: "pool_ready msgs0" and ok: "std_ok maxLen cur b"
    and sub: "set (concat done @ cur @ [b]) \<subseteq> set bufs"
    and dist: "distinct (map sarr bufs)" "distinct (concat done @ cur @ [b])"
  obtains st' where "coalesce_step p setGSO addr ep maxLen False final b st = Ret st'"
    "coalesce_rel p setGSO addr ep h0 bufs msgs0 done (cur @ [b]) final st'"
proof -
  let ?orig = "msgs0 ! length done"
  let ?m = "batch_msg p setGSO addr ep False ?orig cur"
  let ?m' = "batch_msg p setGSO addr ep False ?orig (cur @ [b])"
  have st: "cur \<noteq> []" "co_gsoSize st = slen (hd cur)" "co_dgramCnt st = length cur"
    "co_endBatch st \<longleftrightarrow> slen (last cur) < slen (hd cur)" "co_n st = Suc (length done)"
    "length done < length msgs0" "length (co_msgs st) = length msgs0"
    using rel by (auto simp: coalesce_rel_def counters_rel_def msgs_rel_def)
  have buf: "Buffers ?orig \<noteq> []" using ready st by (simp add: pool_ready_def)
  have b0: "idx (Buffers ?m) 0 = Ret (merged cur)"
    using buf by (simp add: batch_msg_def)
  have wfm: "sl_wf (co_mem st) (merged cur)"
    using rel by (simp add: coalesce_rel_def mem_rel_def)
  have mem: "mem_rel h0 (co_mem st) bufs (done @ [cur])" "\<forall>g \<in> set done. g \<noteq> []"
    using rel by (simp_all add: coalesce_rel_def)
  have room: "slen b \<le> scap (hd cur) - total_len cur" "total_len cur \<le> scap (hd cur)"
    using ok wfm by (auto simp: std_ok_def sl_wf_def)
  note join = mem_rel_join [OF mem(1) st(1) sub mem(2) dist room]
  let ?h = "sl_write (co_mem st) (sarr (hd cur)) (soff (hd cur) + total_len cur) (sl_read (co_mem st) b)"
  have app: "sl_append (co_mem st) (merged cur) b = (?h, merged (cur @ [b]))"
    by (rule join(1))
  have mem': "mem_rel h0 ?h bufs (done @ [cur @ [b]])"
    using join(2) unfolding app by simp
  have sb: "set_buffer0 ?m (merged (cur @ [b])) = ?m'"
    using st(1) by (simp add: set_buffer0_def batch_msg_def Let_def)
  let ?st1 = "st\<lparr>co_mem := ?h, co_msgs := (co_msgs st)[length done := ?m']\<rparr>"
  let ?fin = "\<lambda>s. s\<lparr>co_dgramCnt := Suc (co_dgramCnt s),
      co_endBatch := (slen b < co_gsoSize s \<or> co_endBatch s)\<rparr>"
  have guard: "slen b + slen (merged cur) \<le> maxLen" "slen b \<le> co_gsoSize st"
    "slen b \<le> scap (merged cur) - slen (merged cur)" "co_dgramCnt st < udpSegmentMaxDatagrams"
    "\<not> co_endBatch st"
    using ok st by (simp_all add: std_ok_def gso_ok_def)
  have step: "coalesce_step p setGSO addr ep maxLen False final b st =
      obind (if final then set_gso_at_base setGSO ?st1 else Ret ?st1) (\<lambda>s. Ret (?fin s))"
    using at_base_rel [OF rel] b0 guard st(5)
    by (simp add: coalesce_step_def Let_def app sb)
  have rel1: "coalesce_rel p setGSO addr ep h0 bufs msgs0 done (cur @ [b]) False (?fin ?st1)"
  proof -
    have "msgs_rel p setGSO addr ep msgs0 done (cur @ [b]) False ((co_msgs st)[length done := ?m'])"
      using rel st(6,7) unfolding coalesce_rel_def msgs_rel_def by auto
    moreover have "counters_rel (cur @ [b]) (?fin ?st1)"
      using st(1-4) guard(5) by (simp add: counters_rel_def)
    ultimately show ?thesis
      using mem' mem(2) st(5) unfolding coalesce_rel_def by simp
  qed
  show thesis
  proof (cases final)
    case False
    then show ?thesis using that [of "?fin ?st1"] step rel1 by simp
  next
    case True
    have several: "1 < length (cur @ [b])" using st(1) by (cases cur) auto
    have base: "set_gso_at_base setGSO (?fin s) =
      obind (set_gso_at_base setGSO s) (\<lambda>s'. Ret (?fin s'))" for s
      by (cases s) (simp add: set_gso_at_base_def at_base_def idx_def obind_assoc)
    obtain st' where st': "set_gso_at_base setGSO (?fin ?st1) = Ret st'"
      "coalesce_rel p setGSO addr ep h0 bufs msgs0 done (cur @ [b]) True st'"
      by (rule close_rel [OF rel1 ready several])
    then show ?thesis using that [of st'] step True base [of ?st1] by simp
  qed
qed

lemma step_new:
  assumes rel: "coalesce_rel p setGSO addr ep h0 bufs msgs0 done cur False st"
    and ready: "pool_ready msgs0" and no: "\<not> std_ok maxLen cur b"
  shows "coalesce_step p setGSO addr ep maxLen False final b st = coalesce_start p setGSO addr ep b st"
proof -
  have st: "co_gsoSize st = slen (hd cur)" "co_dgramCnt st = length cur"
    "co_endBatch st \<longleftrightarrow> slen (last cur) < slen (hd cur)" "length done < length msgs0"
    using rel by (auto simp: coalesce_rel_def counters_rel_def msgs_rel_def)
  have "Buffers (msgs0 ! length done) \<noteq> []" using ready st by (simp add: pool_ready_def)
  then have "idx (Buffers (batch_msg p setGSO addr ep False (msgs0 ! length done) cur)) 0 = Ret (merged cur)"
    by (simp add: batch_msg_def)
  then show ?thesis
    using at_base_rel [OF rel] no st by (auto simp: coalesce_step_def std_ok_def gso_ok_def)
qed

lemma loop_rel:
  assumes "coalesce_rel p setGSO addr ep h0 bufs msgs0 done cur False st" "pool_ready msgs0"
    and "set (concat done @ cur @ rest) \<subseteq> set bufs" "distinct (map sarr bufs)"
    and "distinct (concat done @ cur @ rest)" "length done + length rest < length msgs0"
    and "rest = [] \<longrightarrow> length cur \<le> 1"
  shows "\<exists>st' done' cur'. coalesce_loop p setGSO addr ep maxLen False rest st = Ret st' \<and>
    coalesce_rel p setGSO addr ep h0 bufs msgs0 done' cur' True st' \<and>
    done' @ [cur'] = done @ groups (std_ok maxLen) cur rest"
  using assms
proof (induction rest arbitrary: "done" cur st)
  case Nil
  then have "coalesce_rel p setGSO addr ep h0 bufs msgs0 done cur True st"
    using msgs_rel_single [of cur p setGSO addr ep msgs0 "done" True "co_msgs st" False]
    by (simp add: coalesce_rel_def)
  then show ?case by auto
next
  case (Cons b rest)
  note pre = Cons.prems
  show ?case
  proof (cases "std_ok maxLen cur b")
    case True
    have j: "set (concat done @ cur @ [b]) \<subseteq> set bufs" "distinct (concat done @ cur @ [b])"
      using pre(3,5) by auto
    obtain st1 where st1: "coalesce_step p setGSO addr ep maxLen False (rest = []) b st = Ret st1"
      "coalesce_rel p setGSO addr ep h0 bufs msgs0 done (cur @ [b]) (rest = []) st1"
      by (rule join_rel [OF pre(1,2) True j(1) pre(4) j(2)])
    show ?thesis
    proof (cases "rest = []")
      case True
      then show ?thesis using st1 \<open>std_ok maxLen cur b\<close> by auto
    next
      case False
      then show ?thesis
        using Cons.IH [of "done" "cur @ [b]" st1] st1 pre \<open>std_ok maxLen cur b\<close> by simp
    qed
  next
    case False
    have room: "Suc (length done) < length msgs0" and b: "b \<in> set bufs" using pre by auto
    obtain st1 where st1: "coalesce_start p setGSO addr ep b st = Ret st1"
      "coalesce_rel p setGSO addr ep h0 bufs msgs0 (done @ [cur]) [b] True st1"
      by (rule start_rel [OF pre(1,2) room b])
    have "coalesce_rel p setGSO addr ep h0 bufs msgs0 (done @ [cur]) [b] False st1"
      using st1(2) msgs_rel_single [of "[b]" p setGSO addr ep msgs0 "done @ [cur]" False "co_msgs st1" True]
      by (simp add: coalesce_rel_def)
    then show ?thesis
      using Cons.IH [of "done @ [cur]" "[b]" st1] st1 step_new [OF pre(1,2) False] pre False by simp
  qed
qed

text \<open>The first iteration.\<close>

lemma first_rel:
  assumes "pool_ready msgs0" "msgs0 \<noteq> []" "b \<in> set bufs" "\<forall>b \<in> set bufs. sl_wf h b"
  shows "\<exists>st. coalesce_step p setGSO addr ep maxLen True final b
      \<lparr>co_mem = h, co_msgs = msgs0, co_n = 0, co_gsoSize = 0, co_dgramCnt = 0, co_endBatch = False\<rparr>
      = Ret st \<and> coalesce_rel p setGSO addr ep h bufs msgs0 [] [b] False st"
proof -
  have "Buffers (msgs0 ! 0) \<noteq> []" using assms by (simp add: pool_ready_def)
  then show ?thesis
    using assms
    by (auto simp: coalesce_step_def coalesce_start_def coalesce_rel_def msgs_rel_def mem_rel_def
        counters_rel_def batch_msg_def)
qed

lemma coalesce_refines:
  assumes ready: "pool_ready msgs" and len: "length bufs \<le> length msgs"
    and wf: "\<forall>b \<in> set bufs. sl_wf h b" and dist: "distinct (map sarr bufs)"
  obtains msgs' h' where
    "coalesceMessages p addr ep bufs msgs setGSO h =
       Ret (length (batches (std_ok (maxPayloadLen_for (DstIP ep))) bufs), msgs', h')"
    "refines_batches p setGSO addr ep h msgs bufs
       (batches (std_ok (maxPayloadLen_for (DstIP ep))) bufs) msgs' h'"
proof (cases bufs)
  case Nil
  then show thesis
    using that [of msgs h] by (simp add: coalesceMessages_def batches_def refines_batches_def mem_rel_def)
next
  case (Cons b rest)
  let ?max = "maxPayloadLen_for (DstIP ep)"
  let ?init = "\<lparr>co_mem = h, co_msgs = msgs, co_n = 0, co_gsoSize = 0, co_dgramCnt = 0, co_endBatch = False\<rparr>"
  have ne: "msgs \<noteq> []" "b \<in> set bufs" using len Cons by auto
  obtain st where st: "coalesce_step p setGSO addr ep ?max True (rest = []) b ?init = Ret st"
    "coalesce_rel p setGSO addr ep h bufs msgs [] [b] False st"
    using first_rel [OF ready ne wf] by blast
  have d: "distinct bufs" using dist by (simp add: distinct_map)
  obtain st' done' cur' where st': "coalesce_loop p setGSO addr ep ?max False rest st = Ret st'"
    "coalesce_rel p setGSO addr ep h bufs msgs done' cur' True st'"
    "done' @ [cur'] = groups (std_ok ?max) [b] rest"
    using loop_rel [OF st(2) ready, of rest ?max] len d dist Cons by auto
  have gs: "batches (std_ok ?max) bufs = done' @ [cur']"
    using st'(3) Cons by (simp add: batches_def)
  show thesis
  proof (rule that [of "co_msgs st'" "co_mem st'"])
    show "coalesceMessages p addr ep bufs msgs setGSO h =
        Ret (length (batches (std_ok ?max) bufs), co_msgs st', co_mem st')"
    proof -
      have "co_n st' = length (batches (std_ok ?max) bufs)"
        using st'(2) by (simp add: gs coalesce_rel_def)
      then show ?thesis
        using st(1) st'(1) Cons by (simp add: coalesceMessages_def)
    qed
    show "refines_batches p setGSO addr ep h msgs bufs (batches (std_ok ?max) bufs) (co_msgs st') (co_mem st')"
      using st'(2) unfolding gs refines_batches_def coalesce_rel_def msgs_rel_def
      by (auto simp: nth_append less_Suc_eq)
  qed
qed

end

end
