(* ===== verification/Transmit.thy ===== *)
theory Transmit
  imports Coalesce_Correct
begin

text \<open>
  What leaves the host: the datagrams the kernel sends for a message, given its payload and
  the UDP_SEGMENT size in its control data, and the proof that coalescing with the real
  \<open>setGSOSize\<close> and \<open>setSrcControl\<close> sends exactly the caller's datagrams.
\<close>

definition payload :: "store \<Rightarrow> message \<Rightarrow> byte list" where
  "payload h m = concat (map (sl_read h) (Buffers m))"

definition wire_datagrams :: "cmsg_abi \<Rightarrow> store \<Rightarrow> message \<Rightarrow> byte list list" where
  "wire_datagrams A h m =
     (case segment_size A (cb_bytes (OOB m)) of
        None \<Rightarrow> [payload h m]
      | Some g \<Rightarrow> segments g (payload h m))"

text \<open>An endpoint as \<open>ParseEndpoint\<close> and the receive path make it: its cached control data, if
  any, is a stream of control messages without UDP_SEGMENT that fits the pooled buffers.\<close>

definition ep_sendable :: "cmsg_abi \<Rightarrow> std_endpoint \<Rightarrow> bool" where
  "ep_sendable A ep \<longleftrightarrow>
     ep_wf ep \<and> src_len ep \<le> stickyControlSize Linux A \<and>
     (\<exists>cs. cmsg_encodes A (src_bytes ep) cs \<and>
        (\<forall>(h, data) \<in> set cs. data \<noteq> [] \<and> hLevel h \<noteq> SOL_UDP A))"

text \<open>A pooled message: one buffer slot and room for both kinds of control data.\<close>

definition pooled :: "cmsg_abi \<Rightarrow> message \<Rightarrow> bool" where
  "pooled A m \<longleftrightarrow>
     length (Buffers m) = 1 \<and> cb_wf (OOB m) \<and>
     stickyControlSize Linux A + gsoControlSize Linux A \<le> cb_cap (OOB m)"

lemma gso_setter_setGSOSize:
  assumes "cmsg_codec A"
  shows "gso_setter (setGSOSize p A)"
proof
  fix c g assume wf: "cb_wf c"
  show "\<exists>c'. setGSOSize p A c g = Ret c' \<and> cb_wf c'"
  proof (cases "linux_tag p \<and> CmsgSpace A 2 \<le> cb_cap c - clen c")
    case True
    then have "clen c + CmsgSpace A 2 \<le> cb_cap c"
      using wf by (auto simp: cb_wf_def cb_cap_def)
    then show ?thesis
      using cmsg_codec.set_appends [OF assms wf] True by (metis setGSOSize_def)
  next
    case False
    then show ?thesis
      using wf cmsg_codec.set_short [OF assms, of c g] by (auto simp: setGSOSize_def)
  qed
qed

interpretation linux_gso: gso_setter "setGSOSize p linux_amd64" for p
  by (rule gso_setter_setGSOSize) (rule amd64.cmsg_codec_axioms)

context cmsg_codec
begin

lemma src_control_encodes:
  assumes "ep_sendable A ep" "pooled A m"
  obtains cs where "cmsg_encodes A (cb_bytes (setSrcControl Linux (OOB m) ep)) cs"
    "\<forall>(h, data) \<in> set cs. data \<noteq> [] \<and> hLevel h \<noteq> SOL_UDP A"
    "cb_wf (setSrcControl Linux (OOB m) ep)"
    "clen (setSrcControl Linux (OOB m) ep) + CmsgSpace A 2 \<le> cb_cap (setSrcControl Linux (OOB m) ep)"
proof -
  have ep: "ep_wf ep" "src_len ep \<le> cb_cap (OOB m)"
    "src_len ep + CmsgSpace A 2 \<le> cb_cap (OOB m)"
    using assms by (auto simp: ep_sendable_def pooled_def gsoControlSize_def linux_tag_def sizeOfGSOData_def)
  obtain cs where "cmsg_encodes A (src_bytes ep) cs"
    "\<forall>(h, data) \<in> set cs. data \<noteq> [] \<and> hLevel h \<noteq> SOL_UDP A"
    using assms(1) by (auto simp: ep_sendable_def)
  then show thesis
    using that [of cs] setSrcControl_bytes [OF ep(1,2)] setSrcControl_len [OF ep(1,2)] ep(3) by simp
qed

lemma no_segment:
  assumes "\<forall>(h, data) \<in> set cs. data \<noteq> [] \<and> hLevel h \<noteq> SOL_UDP A"
  shows "find (is_segment A) cs = None"
  using assms by (auto simp: find_None_iff is_segment_def)

lemma find_append_None: "find P xs = None \<Longrightarrow> find P (xs @ ys) = find P ys"
  by (induction xs) (auto split: if_splits)

text \<open>Control data of a batch: the sticky source alone, or followed by the segment size.\<close>

lemma batch_segment_size:
  assumes "ep_sendable A ep" "pooled A m"
  shows "segment_size A (cb_bytes (OOB (batch_msg Linux (setGSOSize Linux A) addr ep True m g))) =
    (if 1 < length g then Some (unat (of_nat (slen (hd g)) :: 16 word)) else None)"
proof -
  let ?c = "setSrcControl Linux (OOB m) ep" and ?w = "of_nat (slen (hd g)) :: 16 word"
  obtain cs where cs: "cmsg_encodes A (cb_bytes ?c) cs"
    "\<forall>(h, data) \<in> set cs. data \<noteq> [] \<and> hLevel h \<noteq> SOL_UDP A"
    and c: "cb_wf ?c" "clen ?c + CmsgSpace A 2 \<le> cb_cap ?c"
    using assms by (rule src_control_encodes)
  have ne: "\<forall>(h, data) \<in> set cs. data \<noteq> []" using cs(2) by auto
  show ?thesis
  proof (cases "1 < length g")
    case False
    then show ?thesis
      using segment_size_encodes [OF cs(1) ne] no_segment [OF cs(2)] by (simp add: batch_msg_def Let_def)
  next
    case True
    obtain c' m' where c': "setGSOSize_linux A ?c ?w = Ret c'" "cb_bytes c' = cb_bytes ?c @ m'"
      "cmsg_encodes A m' [segment_cmsg A ?w]"
      using set_appends [OF c, of ?w] by metis
    have enc: "cmsg_encodes A (cb_bytes c') (cs @ [segment_cmsg A ?w])"
      using encodes_append [OF cs(1) c'(3)] c'(2) by simp
    have "u16_bytes A ?w \<noteq> []" using u16_length [of ?w] by auto
    then have ne': "\<forall>(h, data) \<in> set (cs @ [segment_cmsg A ?w]). data \<noteq> []"
      using ne by (auto simp: segment_cmsg_def)
    have "OOB (batch_msg Linux (setGSOSize Linux A) addr ep True m g) = c'"
      using True c'(1) by (simp add: batch_msg_def Let_def set_oob_def setGSOSize_def linux_tag_def)
    moreover have "u16_read A (take 2 (u16_bytes A ?w)) = ?w"
      using u16_round [of ?w] u16_length [of ?w] by simp
    ultimately show ?thesis
      using True segment_size_encodes [OF enc ne'] find_append_None [OF no_segment [OF cs(2)]]
      by (simp add: segment_cmsg_def is_segment_def)
  qed
qed

end

lemma maxPayloadLen_16bit: "maxPayloadLen_for a < 2 ^ 16"
  by (simp add: maxPayloadLen_for_def maxIPv4PayloadLen_def maxIPv6PayloadLen_def)

lemma batch_wire:
  assumes "cmsg_codec A" "ep_sendable A ep" "pooled A m" "batch_inv (maxPayloadLen_for a) g"
    and rd: "sl_read h' (merged g) = concat (map (sl_read h) g)"
    and len: "\<forall>b \<in> set g. sl_wf h b \<and> 0 < slen b"
  shows "wire_datagrams A h' (batch_msg Linux (setGSOSize Linux A) addr ep True m g) = map (sl_read h) g"
proof -
  have "Buffers m = [buffer0 m]"
    using assms(3) by (cases "Buffers m") (auto simp: pooled_def buffer0_def)
  then have pl: "payload h' (batch_msg Linux (setGSOSize Linux A) addr ep True m g) = concat (map (sl_read h) g)"
    using rd by (cases "Buffers m") (simp_all add: payload_def batch_msg_def)
  show ?thesis
  proof (cases "1 < length g")
    case True
    then have "unat (of_nat (slen (hd g)) :: 16 word) = slen (hd g)"
      by (rule std.batch_gso_16bit [OF assms(4) _ maxPayloadLen_16bit])
    moreover have "segments (slen (hd g)) (concat (map (sl_read h) g)) = map (sl_read h) g"
      using len by (intro std.batch_segments [OF assms(4)]) simp
    ultimately show ?thesis
      using cmsg_codec.batch_segment_size [OF assms(1-3), of addr g] True
      by (simp add: wire_datagrams_def pl)
  next
    case False
    then obtain b where "g = [b]"
      using assms(4) by (cases g) (auto simp: batch_inv_def)
    then show ?thesis
      using cmsg_codec.batch_segment_size [OF assms(1-3), of addr g] pl by (simp add: wire_datagrams_def)
  qed
qed

lemma map_nth_take:
  "n \<le> length xs \<Longrightarrow> length ys = n \<Longrightarrow> (\<And>k. k < n \<Longrightarrow> f (xs ! k) = g (ys ! k)) \<Longrightarrow>
   map f (take n xs) = map g ys"
  by (auto simp: list_eq_iff_nth_eq)

lemma batch_pooled:
  assumes "cmsg_codec A" "ep_sendable A ep" "pooled A m"
  shows "pooled A (batch_msg Linux (setGSOSize Linux A) addr ep True m g)"
proof -
  let ?c = "setSrcControl Linux (OOB m) ep" and ?w = "of_nat (slen (hd g)) :: 16 word"
  have ep: "ep_wf ep" "src_len ep \<le> cb_cap (OOB m)" and m: "cb_wf (OOB m)"
    using assms(2,3) by (auto simp: ep_sendable_def pooled_def)
  have cap: "cb_cap ?c = cb_cap (OOB m)" using ep m by (rule setSrcControl_cap)
  have c: "cb_wf ?c" "clen ?c + CmsgSpace A 2 \<le> cb_cap ?c"
    by (rule cmsg_codec.src_control_encodes [OF assms], assumption)+
  then obtain c' where "setGSOSize_linux A ?c ?w = Ret c'" "cb_wf c'" "cb_cap c' = cb_cap ?c"
    by (rule cmsg_codec.set_appends [OF assms(1)]) blast
  then show ?thesis
    using assms(3) cap c by (auto simp: pooled_def batch_msg_def set_oob_def setGSOSize_def linux_tag_def Let_def)
qed

lemma coalesce_sends:
  assumes A: "cmsg_codec A" and ep: "ep_sendable A ep"
    and msgs: "\<forall>m \<in> set msgs. pooled A m" "length bufs \<le> length msgs"
    and bufs: "\<forall>b \<in> set bufs. sl_wf h b \<and> 0 < slen b" "distinct (map sarr bufs)"
  shows "\<exists>n msgs' h'.
    coalesceMessages Linux addr ep bufs msgs (setGSOSize Linux A) h = Ret (n, msgs', h') \<and>
    concat (map (wire_datagrams A h') (take n msgs')) = map (sl_read h) bufs \<and>
    (\<forall>m \<in> set (take n msgs'). Addr m = Some addr) \<and>
    (\<forall>b \<in> set bufs. sl_wf h' b \<and> sl_read h' b = sl_read h b) \<and>
    length msgs' = length msgs \<and> n \<le> length msgs \<and> (\<forall>m \<in> set msgs'. pooled A m)"
proof -
  let ?gs = "batches (std_ok (maxPayloadLen_for (DstIP ep))) bufs"
  have ready: "pool_ready msgs" using msgs(1) by (auto simp: pool_ready_def pooled_def)
  have wf: "\<forall>b \<in> set bufs. sl_wf h b" using bufs(1) by blast
  obtain msgs' h' where eq: "coalesceMessages Linux addr ep bufs msgs (setGSOSize Linux A) h =
      Ret (length ?gs, msgs', h')"
    and ref: "refines_batches Linux (setGSOSize Linux A) addr ep h msgs bufs ?gs msgs' h'"
    using gso_setter.coalesce_refines [OF gso_setter_setGSOSize [OF A] ready msgs(2) wf bufs(2)] .
  have k: "wire_datagrams A h' (msgs' ! k) = map (sl_read h) (?gs ! k) \<and> Addr (msgs' ! k) = Some addr"
    if "k < length ?gs" for k
  proof -
    have g: "?gs ! k \<in> set ?gs" using that by simp
    have sub: "set (?gs ! k) \<subseteq> set bufs" using g by (rule batches_subset)
    have inv: "batch_inv (maxPayloadLen_for (DstIP ep)) (?gs ! k)" using g by (rule std.batches_inv)
    have rd: "sl_read h' (merged (?gs ! k)) = concat (map (sl_read h) (?gs ! k))"
      using ref g by (simp add: refines_batches_def mem_rel_def)
    have m: "pooled A (msgs ! k)" "msgs' ! k = batch_msg Linux (setGSOSize Linux A) addr ep True (msgs ! k) (?gs ! k)"
      using ref that msgs(1) by (auto simp: refines_batches_def)
    then show ?thesis
      using batch_wire [OF A ep m(1) inv rd] bufs(1) sub by auto
  qed
  have len: "length ?gs \<le> length msgs'" using ref by (simp add: refines_batches_def)
  have "map (wire_datagrams A h') (take (length ?gs) msgs') = map (map (sl_read h)) ?gs"
    using len k by (intro map_nth_take) auto
  then have "concat (map (wire_datagrams A h') (take (length ?gs) msgs')) = map (sl_read h) bufs"
    by (simp flip: map_concat)
  moreover have "\<forall>m \<in> set (take (length ?gs) msgs'). Addr m = Some addr"
    using k len by (auto simp: in_set_conv_nth)
  moreover have "\<forall>b \<in> set bufs. sl_wf h' b \<and> sl_read h' b = sl_read h b" "length msgs' = length msgs"
    using ref by (simp_all add: refines_batches_def mem_rel_def)
  moreover have "pooled A m" if m: "m \<in> set msgs'" for m
  proof -
    obtain j where j: "j < length msgs" "m = msgs' ! j"
      using m ref by (auto simp: in_set_conv_nth refines_batches_def)
    then show ?thesis
      using ref msgs(1) batch_pooled [OF A ep, of "msgs ! j" addr "?gs ! j"]
      by (cases "j < length ?gs") (auto simp: refines_batches_def)
  qed
  ultimately show ?thesis using eq len by auto
qed


text \<open>
  C1. Coalescing loses, reorders and corrupts nothing. For a pool of messages with room for
  the control data, an endpoint with or without a sticky source, and non-empty datagrams in
  buffers that do not share their arrays, \<open>coalesceMessages\<close> returns, and the datagrams the
  kernel sends for the messages it reports are exactly the caller's datagrams in order, all
  addressed to \<open>addr\<close>; the caller's buffers still read the same, so that a retry without
  offload can send them again.
\<close>

theorem coalesceMessages_sends_bufs:
  assumes "cmsg_codec A" "ep_sendable A ep"
    and "\<forall>m \<in> set msgs. pooled A m" "length bufs \<le> length msgs"
    and "\<forall>b \<in> set bufs. sl_wf h b \<and> 0 < slen b" "distinct (map sarr bufs)"
  shows "\<exists>n msgs' h'.
    coalesceMessages Linux addr ep bufs msgs (setGSOSize Linux A) h = Ret (n, msgs', h') \<and>
    concat (map (wire_datagrams A h') (take n msgs')) = map (sl_read h) bufs \<and>
    (\<forall>m \<in> set (take n msgs'). Addr m = Some addr) \<and>
    (\<forall>b \<in> set bufs. sl_read h' b = sl_read h b)"
  using coalesce_sends [OF assms, of addr] by blast

end
