(* ===== verification/Std_Send.thy ===== *)
theory Std_Send
  imports Std_Bind Transmit
begin

text \<open>
  \<open>StdNetBind.Send\<close> and \<open>StdNetBind.send\<close> (\<open>bind_std.go\<close>): the destination address from the pool,
  the coalesced attempt, the switch to plain messages when the kernel rejects segmentation
  offload, and the two ways of writing.
\<close>

section \<open>Writing messages\<close>

definition wire_of :: "store \<Rightarrow> message \<Rightarrow> wire_msg" where
  "wire_of h m =
     \<lparr>wm_data = payload h m, wm_control = cb_bytes (OOB m), wm_dst = map_option UDPAddr_AddrPort (Addr m)\<rparr>"

text \<open>
  The loop around \<open>WriteBatch\<close>; \<open>ms\<close> is \<open>msgs[start:]\<close>. A result larger than the batch makes the
  next slice expression panic. \<open>None\<close> stands for a loop that never ends.
\<close>

partial_function (option) send_loop ::
  "env \<Rightarrow> conn \<Rightarrow> wire_msg list \<Rightarrow> world \<Rightarrow> (goerror option \<times> world) outcome option" where
  "send_loop E pc ms w =
     (let r = eWriteBatch E w pc ms;
          w' = record_conn (EvWriteBatch pc ms r) w
      in if snd r \<noteq> None \<or> fst r = length ms then Some (Ret (snd r, w'))
         else if length ms < fst r then Some (Panic SliceOutOfRange)
         else send_loop E pc (drop (fst r) ms) w')"

fun send_single :: "env \<Rightarrow> conn \<Rightarrow> store \<Rightarrow> message list \<Rightarrow> world \<Rightarrow> (goerror option \<times> world) outcome" where
  "send_single E c h [] w = Ret (None, w)"
| "send_single E c h (m # ms) w =
     obind (idx (Buffers m) 0) (\<lambda>b.
       case Addr m of
         None \<Rightarrow> Panic BadTypeAssertion
       | Some ua \<Rightarrow>
           let wm = \<lparr>wm_data = sl_read h b, wm_control = cb_bytes (OOB m), wm_dst = Some (UDPAddr_AddrPort ua)\<rparr>;
               err = eWriteMsgUDPAddrPort E w c wm;
               w' = record_conn (EvWriteMsg c wm err) w
           in if err \<noteq> None then Ret (err, w') else send_single E c h ms w')"

definition send ::
  "env \<Rightarrow> conn \<Rightarrow> conn option \<Rightarrow> message list \<Rightarrow> store \<Rightarrow> world \<Rightarrow> (goerror option \<times> world) outcome" where
  "send E c pc msgs h w =
     (case pc of
        Some p \<Rightarrow>
          if eGOOS E = Linux \<or> eGOOS E = Android
          then (case send_loop E p (map (wire_of h) msgs) w of None \<Rightarrow> Diverge | Some r \<Rightarrow> r)
          else send_single E c h msgs w
      | None \<Rightarrow> send_single E c h msgs w)"

section \<open>Send\<close>

definition as_std :: "endpoint \<Rightarrow> std_endpoint outcome" where
  "as_std e = (case e of StdEndpoint ep \<Rightarrow> Ret ep | OtherEndpoint _ \<Rightarrow> Panic BadTypeAssertion)"

text \<open>What \<open>Send\<close> reads under the lock: black hole, connection, offload, batch connection, family.\<close>

definition send_view :: "std_bind \<Rightarrow> addr \<Rightarrow> bool \<times> conn option \<times> bool \<times> conn option \<times> bool" where
  "send_view s dst =
     (if Is6 dst then (s_blackhole6 s, s_ipv6 s, s_ipv6TxOffload s, s_ipv6PC s, True)
      else (s_blackhole4 s, s_ipv4 s, s_ipv4TxOffload s, s_ipv4PC s, False))"

text \<open>The pooled \<open>net.UDPAddr\<close> is filled by \<open>copy\<close>, which stops at its present length, and resliced.\<close>

definition set_dst :: "bool \<Rightarrow> addr \<Rightarrow> udp_addr \<Rightarrow> udp_addr outcome" where
  "set_dst is6 dst ua =
     (if is6 then
        obind (cb_reslice (cb_copy_at (ua_IP ua) 0 (As16 dst)) 16) (\<lambda>ip. Ret (ua\<lparr>ua_IP := ip\<rparr>))
      else
        obind (As4 dst) (\<lambda>a4.
          obind (cb_reslice (cb_copy_at (ua_IP ua) 0 a4) 4) (\<lambda>ip. Ret (ua\<lparr>ua_IP := ip\<rparr>))))"

fun plain_messages ::
  "goos \<Rightarrow> udp_addr \<Rightarrow> std_endpoint \<Rightarrow> nat \<Rightarrow> slice list \<Rightarrow> message list \<Rightarrow> message list outcome" where
  "plain_messages p ua ep i [] msgs = Ret msgs"
| "plain_messages p ua ep i (b # bufs) msgs =
     obind (idx msgs i) (\<lambda>m.
       obind (upd (Buffers m) 0 b) (\<lambda>bs.
         plain_messages p ua ep (Suc i) bufs
           (msgs[i := m\<lparr>Addr := Some ua, Buffers := bs, OOB := setSrcControl p (OOB m) ep\<rparr>])))"

definition send_plain ::
  "env \<Rightarrow> conn \<Rightarrow> conn option \<Rightarrow> udp_addr \<Rightarrow> std_endpoint \<Rightarrow> slice list \<Rightarrow> message list \<Rightarrow> store \<Rightarrow> world
    \<Rightarrow> (goerror option \<times> message list \<times> world) outcome" where
  "send_plain E c br ua ep bufs msgs h w =
     obind (plain_messages (eGOOS E) ua ep 0 bufs msgs) (\<lambda>msgs'.
       obind (send E c br (take (length bufs) msgs') h w) (\<lambda>(err, w'). Ret (err, msgs', w')))"

text \<open>The coalesced attempt, followed by the plain one after \<open>goto retry\<close>; the second component
  of the result is \<open>retried\<close>.\<close>

definition send_offload ::
  "env \<Rightarrow> cmsg_abi \<Rightarrow> conn \<Rightarrow> conn option \<Rightarrow> udp_addr \<Rightarrow> std_endpoint \<Rightarrow> slice list \<Rightarrow> message list \<Rightarrow> store
    \<Rightarrow> world \<Rightarrow> (goerror option \<times> bool \<times> message list \<times> store \<times> world) outcome" where
  "send_offload E A c br ua ep bufs msgs h w =
     obind (coalesceMessages (eGOOS E) ua ep bufs msgs (setGSOSize (eGOOS E) A) h) (\<lambda>(n, msgs1, h1).
       obind (send E c br (take n msgs1) h1 w) (\<lambda>(err, w1).
         case err of
           Some e \<Rightarrow>
             if errShouldDisableUDPGSO (eGOOS E) e
             then obind (send_plain E c br ua ep bufs msgs1 h1 w1) (\<lambda>(err2, msgs2, w2).
                    Ret (err2, True, msgs2, h1, w2))
             else Ret (err, False, msgs1, h1, w1)
         | None \<Rightarrow> Ret (None, False, msgs1, h1, w1)))"

definition disable_tx :: "bool \<Rightarrow> std_bind \<Rightarrow> std_bind" where
  "disable_tx is6 s = (if is6 then s\<lparr>s_ipv6TxOffload := False\<rparr> else s\<lparr>s_ipv4TxOffload := False\<rparr>)"

definition Send ::
  "env \<Rightarrow> cmsg_abi \<Rightarrow> std_bind \<Rightarrow> slice list \<Rightarrow> endpoint \<Rightarrow> store \<Rightarrow> world
    \<Rightarrow> (goerror option \<times> std_bind \<times> store \<times> world) outcome" where
  "Send E A s bufs e h w =
     (let dst = endpoint_DstIP e; (blackhole, conn, offload, br, is6) = send_view s dst
      in if blackhole then Ret (None, s, h, w)
         else case conn of
           None \<Rightarrow> Ret (Some EAFNOSUPPORT, s, h, w)
         | Some c \<Rightarrow>
             let (msgs, s1) = getMessages E A s w;
                 (ua, s2) = getUDPAddr E s1 w
             in obind (set_dst is6 dst ua) (\<lambda>ua1.
                  obind (as_std e) (\<lambda>ep.
                    let ua2 = ua1\<lparr>ua_Port := unat (ap_port (AddrPort ep))\<rparr>
                    in obind (if offload then send_offload E A c br ua2 ep bufs msgs h w
                              else obind (send_plain E c br ua2 ep bufs msgs h w) (\<lambda>(err, msgs', w').
                                     Ret (err, False, msgs', h, w')))
                         (\<lambda>(err, retried, msgs', h', w').
                            let s3 = putMessages msgs' (putUDPAddr ua2 (if retried then disable_tx is6 s2 else s2));
                                err' = (if retried then Some (ErrUDPGSODisabled (snd (eLocalAddr E w' c)) err) else err)
                            in Ret (err', s3, h', w')))))"

section \<open>What the kernel accepted\<close>

fun accepted_by :: "conn_event \<Rightarrow> wire_msg list" where
  "accepted_by (EvWriteBatch _ ms (n, _)) = take n ms"
| "accepted_by (EvWriteMsg _ m None) = [m]"
| "accepted_by _ = []"

definition accepted :: "conn_event list \<Rightarrow> wire_msg list" where
  "accepted es = concat (map accepted_by es)"

lemma accepted_simps [simp]:
  "accepted [] = []" "accepted (e # es) = accepted_by e @ accepted es"
  "accepted (es @ fs) = accepted es @ accepted fs"
  by (simp_all add: accepted_def)

fun is_write :: "conn_event \<Rightarrow> bool" where
  "is_write (EvWriteBatch _ _ _) = True"
| "is_write (EvWriteMsg _ _ _) = True"
| "is_write _ = False"

definition only_writes :: "conn_event list \<Rightarrow> bool" where
  "only_writes es \<longleftrightarrow> (\<forall>e \<in> set es. is_write e)"

lemma only_writes_simps [simp]:
  "only_writes []" "only_writes (e # es) \<longleftrightarrow> is_write e \<and> only_writes es"
  "only_writes (es @ fs) \<longleftrightarrow> only_writes es \<and> only_writes fs"
  by (auto simp: only_writes_def)

lemma balance_writes: "only_writes es \<Longrightarrow> balance c es = 0"
  by (induction c es rule: balance.induct) auto

text \<open>The datagrams a message becomes on the wire.\<close>

definition wire_split :: "cmsg_abi \<Rightarrow> wire_msg \<Rightarrow> byte list list" where
  "wire_split A m =
     (case segment_size A (wm_control m) of None \<Rightarrow> [wm_data m] | Some g \<Rightarrow> segments g (wm_data m))"

lemma wire_split_of [simp]: "wire_split A (wire_of h m) = wire_datagrams A h m"
  by (simp add: wire_split_def wire_of_def wire_datagrams_def cong: option.case_cong)

text \<open>
  Documented behaviour of \<open>WriteBatch\<close>: without an error it reports at most the messages given,
  and at least one if there are any.
\<close>

definition write_progress :: "env \<Rightarrow> bool" where
  "write_progress E \<longleftrightarrow>
     (\<forall>w c ms. snd (eWriteBatch E w c ms) = None \<longrightarrow>
        fst (eWriteBatch E w c ms) \<le> length ms \<and> (ms \<noteq> [] \<longrightarrow> 0 < fst (eWriteBatch E w c ms)))"

text \<open>The world after writes that are recorded as \<open>es\<close>.\<close>

definition then_events :: "world \<Rightarrow> conn_event list \<Rightarrow> world" where
  "then_events w es = w\<lparr>w_conn := w_conn w @ es\<rparr>"

lemma then_events_simps [simp]:
  "then_events w [] = w" "then_events (then_events w es) fs = then_events w (es @ fs)"
  "w_conn (then_events w es) = w_conn w @ es" "w_sock (then_events w es) = w_sock w"
  by (simp_all add: then_events_def)

lemma record_conn_then: "record_conn e w = then_events w [e]"
  by (simp add: record_conn_def then_events_def)

lemma send_loop_returns:
  assumes "write_progress E"
  shows "\<exists>err es. send_loop E pc ms w = Some (Ret (err, then_events w es)) \<and> only_writes es \<and>
    (err = None \<longrightarrow> accepted es = ms)"
proof (induction "length ms" arbitrary: ms w rule: less_induct)
  case less
  let ?r = "eWriteBatch E w pc ms"
  let ?w = "then_events w [EvWriteBatch pc ms ?r]"
  show ?case
  proof (cases "snd ?r \<noteq> None \<or> fst ?r = length ms")
    case True
    then have "send_loop E pc ms w = Some (Ret (snd ?r, ?w))"
      by (simp add: send_loop.simps [of E pc ms w] Let_def record_conn_then)
    moreover have "snd ?r = None \<longrightarrow> accepted [EvWriteBatch pc ms ?r] = ms"
      using True by (cases ?r) auto
    moreover have "only_writes [EvWriteBatch pc ms ?r]" by simp
    ultimately show ?thesis by (intro exI [of _ "snd ?r"] exI [of _ "[EvWriteBatch pc ms ?r]"] conjI)
  next
    case False
    then have n: "0 < fst ?r" "fst ?r < length ms"
      using assms unfolding write_progress_def by (metis le_neq_implies_less length_0_conv le_zero_eq)+
    then have "length (drop (fst ?r) ms) < length ms" by simp
    from less [OF this] obtain err es where "send_loop E pc (drop (fst ?r) ms) ?w = Some (Ret (err, then_events ?w es))"
      "only_writes es" "err = None \<longrightarrow> accepted es = drop (fst ?r) ms"
      by blast
    then have "send_loop E pc ms w = Some (Ret (err, then_events w (EvWriteBatch pc ms ?r # es)))"
      "only_writes (EvWriteBatch pc ms ?r # es)" "err = None \<longrightarrow> accepted (EvWriteBatch pc ms ?r # es) = ms"
      using False n by (cases ?r; simp add: send_loop.simps [of E pc ms w] Let_def record_conn_then)+
    then show ?thesis by blast
  qed
qed

lemma send_single_returns:
  "\<forall>m \<in> set ms. length (Buffers m) = 1 \<and> Addr m \<noteq> None \<Longrightarrow>
   \<exists>err es. send_single E c h ms w = Ret (err, then_events w es) \<and> only_writes es \<and> (err = None \<longrightarrow> accepted es = map (wire_of h) ms)"
proof (induction ms arbitrary: w)
  case Nil
  then show ?case by (intro exI [of _ None] exI [of _ "[]"]) simp
next
  case (Cons m ms)
  obtain b ua where m: "Buffers m = [b]" "Addr m = Some ua"
    using Cons.prems by (cases "Buffers m") auto
  let ?wm = "wire_of h m"
  let ?e = "eWriteMsgUDPAddrPort E w c ?wm"
  have wm: "\<lparr>wm_data = sl_read h b, wm_control = cb_bytes (OOB m), wm_dst = Some (UDPAddr_AddrPort ua)\<rparr> = ?wm"
    using m by (simp add: wire_of_def payload_def)
  have step: "send_single E c h (m # ms) w =
      (if ?e \<noteq> None then Ret (?e, then_events w [EvWriteMsg c ?wm ?e])
       else send_single E c h ms (then_events w [EvWriteMsg c ?wm ?e]))"
    using m by (simp add: wm Let_def record_conn_then)
  show ?case
  proof (cases ?e)
    case None
    obtain err es where "send_single E c h ms (then_events w [EvWriteMsg c ?wm ?e]) =
        Ret (err, then_events (then_events w [EvWriteMsg c ?wm ?e]) es)" "only_writes es" "err = None \<longrightarrow> accepted es = map (wire_of h) ms"
      using Cons.IH Cons.prems by (metis list.set_intros(2))
    then show ?thesis
      using step None by (intro exI [of _ err] exI [of _ "EvWriteMsg c ?wm None # es"]) simp
  next
    case (Some e)
    then show ?thesis using step by (intro exI [of _ ?e] exI [of _ "[EvWriteMsg c ?wm ?e]"]) simp
  qed
qed

text \<open>Whichever way the messages are written, the call returns, and without an error the kernel
  has accepted exactly the messages given, in order.\<close>

lemma send_returns:
  assumes "write_progress E" "\<forall>m \<in> set msgs. length (Buffers m) = 1 \<and> Addr m \<noteq> None"
  obtains err es where "send E c pc msgs h w = Ret (err, then_events w es)" "only_writes es"
    "err = None \<Longrightarrow> accepted es = map (wire_of h) msgs"
proof (cases "\<exists>p. pc = Some p \<and> (eGOOS E = Linux \<or> eGOOS E = Android)")
  case True
  then obtain p where p: "pc = Some p" "eGOOS E = Linux \<or> eGOOS E = Android" by blast
  obtain err es where "send_loop E p (map (wire_of h) msgs) w = Some (Ret (err, then_events w es))"
    "only_writes es" "err = None \<longrightarrow> accepted es = map (wire_of h) msgs"
    using send_loop_returns [OF assms(1)] by blast
  then show thesis using p that by (simp add: send_def)
next
  case False
  obtain err es where "send_single E c h msgs w = Ret (err, then_events w es)" "only_writes es"
    "err = None \<longrightarrow> accepted es = map (wire_of h) msgs"
    using send_single_returns [OF assms(2)] by blast
  moreover have "send E c pc msgs h w = send_single E c h msgs w"
    using False by (cases pc) (auto simp: send_def)
  ultimately show thesis using that by simp
qed

section \<open>Plain messages\<close>

definition plain_msg :: "goos \<Rightarrow> udp_addr \<Rightarrow> std_endpoint \<Rightarrow> message \<Rightarrow> slice \<Rightarrow> message" where
  "plain_msg p ua ep m b = m\<lparr>Addr := Some ua, Buffers := [b], OOB := setSrcControl p (OOB m) ep\<rparr>"

lemma plain_messages_eq:
  "i + length bufs \<le> length msgs \<Longrightarrow> \<forall>m \<in> set msgs. length (Buffers m) = 1 \<Longrightarrow>
   plain_messages p ua ep i bufs msgs =
     Ret (take i msgs @ map2 (plain_msg p ua ep) (take (length bufs) (drop i msgs)) bufs @ drop (i + length bufs) msgs)"
proof (induction bufs arbitrary: i msgs)
  case (Cons b bufs)
  let ?m = "msgs ! i"
  have i: "i < length msgs" using Cons.prems(1) by simp
  then have m: "length (Buffers ?m) = 1" using Cons.prems(2) by simp
  then obtain b0 where b0: "Buffers ?m = [b0]" by (cases "Buffers ?m") auto
  let ?msgs = "msgs[i := plain_msg p ua ep ?m b]"
  have "plain_messages p ua ep i (b # bufs) msgs = plain_messages p ua ep (Suc i) bufs ?msgs"
    using i b0 by (simp add: plain_msg_def)
  also have "\<dots> = Ret (take (Suc i) ?msgs @ map2 (plain_msg p ua ep) (take (length bufs) (drop (Suc i) ?msgs)) bufs
      @ drop (Suc i + length bufs) ?msgs)"
    by (rule Cons.IH) (use Cons.prems in \<open>auto simp: plain_msg_def dest!: subsetD [OF set_update_subset_insert]\<close>)
  also have "take (Suc i) ?msgs = take i msgs @ [plain_msg p ua ep ?m b]"
    using i by (simp add: take_Suc_conv_app_nth)
  also have "drop (Suc i) ?msgs = drop (Suc i) msgs" by simp
  also have "drop (Suc i + length bufs) ?msgs = drop (Suc i + length bufs) msgs" by simp
  finally show ?case
    using i by (simp add: Cons_nth_drop_Suc [symmetric])
qed simp

context cmsg_codec
begin

lemma plain_pooled: "ep_sendable A ep \<Longrightarrow> pooled A m \<Longrightarrow> pooled A (plain_msg Linux ua ep m b)"
  by (auto simp: pooled_def plain_msg_def ep_sendable_def setSrcControl_cap setSrcControl_wf)

lemma plain_wire:
  assumes "ep_sendable A ep" "pooled A m"
  shows "wire_datagrams A h (plain_msg Linux ua ep m b) = [sl_read h b]"
proof -
  obtain cs where cs: "cmsg_encodes A (cb_bytes (setSrcControl Linux (OOB m) ep)) cs"
    "\<forall>(h, data) \<in> set cs. data \<noteq> [] \<and> hLevel h \<noteq> SOL_UDP A"
    using assms by (rule src_control_encodes)
  have "segment_size A (cb_bytes (setSrcControl Linux (OOB m) ep)) = None"
    using segment_size_encodes [OF cs(1)] no_segment [OF cs(2)] cs(2) by fastforce
  then show ?thesis by (simp add: wire_datagrams_def plain_msg_def payload_def)
qed

end

text \<open>The datagrams \<open>bufs\<close>, all sent to \<open>ua\<close>.\<close>

definition sent :: "cmsg_abi \<Rightarrow> store \<Rightarrow> slice list \<Rightarrow> udp_addr \<Rightarrow> conn_event list \<Rightarrow> bool" where
  "sent A h bufs ua es \<longleftrightarrow>
     concat (map (wire_split A) (accepted es)) = map (sl_read h) bufs \<and>
     (\<forall>m \<in> set (accepted es). wm_dst m = Some (UDPAddr_AddrPort ua))"

lemma sent_store: "\<forall>b \<in> set bufs. sl_read h' b = sl_read h b \<Longrightarrow> sent A h' bufs ua es = sent A h bufs ua es"
  by (simp add: sent_def cong: map_cong)

lemma send_plain_returns:
  assumes A: "cmsg_codec A" and E: "eGOOS E = Linux" "write_progress E" and ep: "ep_sendable A ep"
    and msgs: "\<forall>m \<in> set msgs. pooled A m" "length bufs \<le> length msgs"
  obtains err msgs' es where "send_plain E c br ua ep bufs msgs h w = Ret (err, msgs', then_events w es)"
    "length msgs' = length msgs" "\<forall>m \<in> set msgs'. pooled A m" "only_writes es" "err = None \<Longrightarrow> sent A h bufs ua es"
proof -
  let ?ms = "map2 (plain_msg Linux ua ep) (take (length bufs) msgs) bufs"
  have pm: "plain_messages Linux ua ep 0 bufs msgs = Ret (?ms @ drop (length bufs) msgs)"
    using plain_messages_eq [of 0 bufs msgs Linux ua ep] msgs by (simp add: pooled_def)
  have each: "\<exists>m0 \<in> set msgs. \<exists>b \<in> set bufs. m = plain_msg Linux ua ep m0 b" if "m \<in> set ?ms" for m
    using that by (auto dest: in_set_takeD set_zip_leftD set_zip_rightD)
  have "\<forall>m \<in> set ?ms. length (Buffers m) = 1 \<and> Addr m \<noteq> None"
    using each by (fastforce simp: plain_msg_def)
  then obtain err es where s: "send E c br ?ms h w = Ret (err, then_events w es)" "only_writes es"
    "err = None \<Longrightarrow> accepted es = map (wire_of h) ?ms"
    using send_returns [OF E(2)] by blast
  have "length ?ms = length bufs" using msgs(2) by simp
  then have eq: "send_plain E c br ua ep bufs msgs h w = Ret (err, ?ms @ drop (length bufs) msgs, then_events w es)"
    using pm s(1) E(1) by (simp add: send_plain_def)
  have pool: "\<forall>m \<in> set (?ms @ drop (length bufs) msgs). pooled A m"
    using each msgs(1) cmsg_codec.plain_pooled [OF A ep] by (fastforce dest: in_set_dropD)
  have "sent A h bufs ua es" if "err = None"
  proof -
    have acc: "accepted es = map (wire_of h) ?ms" using s(3) that .
    have "map (wire_datagrams A h) ?ms = map (\<lambda>b. [sl_read h b]) bufs"
    proof (rule nth_equalityI)
      fix k assume "k < length (map (wire_datagrams A h) ?ms)"
      then have k: "k < length bufs" "k < length msgs" using msgs(2) by auto
      then show "map (wire_datagrams A h) ?ms ! k = map (\<lambda>b. [sl_read h b]) bufs ! k"
        using cmsg_codec.plain_wire [OF A ep, of "msgs ! k" h ua "bufs ! k"] msgs(1) by simp
    qed (use msgs(2) in simp)
    then have "concat (map (wire_split A) (accepted es)) = map (sl_read h) bufs"
      using acc by (simp add: comp_def)
    moreover have "\<forall>m \<in> set ?ms. Addr m = Some ua" using each by (fastforce simp: plain_msg_def)
    then have "\<forall>m \<in> set (accepted es). wm_dst m = Some (UDPAddr_AddrPort ua)"
      using acc by (auto simp: wire_of_def)
    ultimately show ?thesis by (simp add: sent_def)
  qed
  then show thesis using that [OF eq _ pool s(2)] msgs(2) by simp
qed

lemma send_offload_returns:
  assumes A: "cmsg_codec A" and E: "eGOOS E = Linux" "write_progress E" and ep: "ep_sendable A ep"
    and msgs: "\<forall>m \<in> set msgs. pooled A m" "length bufs \<le> length msgs"
    and bufs: "\<forall>b \<in> set bufs. sl_wf h b \<and> 0 < slen b" "distinct (map sarr bufs)"
  obtains err retried msgs' h' es1 es2 where
    "send_offload E A c br ua ep bufs msgs h w = Ret (err, retried, msgs', h', then_events w (es1 @ es2))"
    "length msgs' = length msgs" "\<forall>m \<in> set msgs'. pooled A m" "\<forall>b \<in> set bufs. sl_read h' b = sl_read h b"
    "\<not> retried \<Longrightarrow> es1 = []" "err = None \<Longrightarrow> sent A h bufs ua es2" "only_writes (es1 @ es2)"
proof -
  obtain n msgs1 h1 where c: "coalesceMessages Linux ua ep bufs msgs (setGSOSize Linux A) h = Ret (n, msgs1, h1)"
    "concat (map (wire_datagrams A h1) (take n msgs1)) = map (sl_read h) bufs"
    "\<forall>m \<in> set (take n msgs1). Addr m = Some ua" "\<forall>b \<in> set bufs. sl_read h1 b = sl_read h b"
    "length msgs1 = length msgs" "\<forall>m \<in> set msgs1. pooled A m"
    using coalesce_sends [OF A ep msgs bufs, of ua] by auto
  have "\<forall>m \<in> set (take n msgs1). length (Buffers m) = 1 \<and> Addr m \<noteq> None"
    using c(3,6) by (auto simp: pooled_def dest: in_set_takeD)
  then obtain err es where s: "send E c br (take n msgs1) h1 w = Ret (err, then_events w es)" "only_writes es"
    "err = None \<Longrightarrow> accepted es = map (wire_of h1) (take n msgs1)"
    using send_returns [OF E(2)] by blast
  have first: "sent A h bufs ua es" if "err = None"
    using s(3) [OF that] c(2,3) by (simp add: sent_def comp_def) (simp add: wire_of_def)
  show thesis
  proof (cases "\<exists>e. err = Some e \<and> errShouldDisableUDPGSO Linux e")
    case False
    then have "send_offload E A c br ua ep bufs msgs h w = Ret (err, False, msgs1, h1, then_events w ([] @ es))"
      using c(1) s(1) E(1) by (auto simp: send_offload_def split: option.splits)
    then show thesis using that [of err False msgs1 h1 "[]" es] c(4-6) s(2) first by simp
  next
    case True
    obtain err2 msgs2 es2 where p: "send_plain E c br ua ep bufs msgs1 h1 (then_events w es) =
        Ret (err2, msgs2, then_events (then_events w es) es2)"
      "length msgs2 = length msgs1" "\<forall>m \<in> set msgs2. pooled A m" "only_writes es2" "err2 = None \<Longrightarrow> sent A h1 bufs ua es2"
      using send_plain_returns [OF A E ep c(6), of bufs c br ua h1 "then_events w es"] msgs(2) c(5) by auto
    then have "send_offload E A c br ua ep bufs msgs h w = Ret (err2, True, msgs2, h1, then_events w (es @ es2))"
      using c(1) s(1) E(1) True by (auto simp: send_offload_def)
    then show thesis using that [of err2 True msgs2 h1 es es2] p c(4,5) s(2) sent_store [OF c(4)] by simp
  qed
qed

section \<open>Pools\<close>

text \<open>
  Pooled messages have the shape \<open>msgsPool.New\<close> gives them, and a pooled \<open>net.UDPAddr\<close> keeps its
  16-byte array; its length is 4 after an IPv4 send and 16 otherwise.
\<close>

definition ua_ok :: "udp_addr \<Rightarrow> bool" where
  "ua_ok ua \<longleftrightarrow> cb_cap (ua_IP ua) = 16 \<and> (clen (ua_IP ua) = 4 \<or> clen (ua_IP ua) = 16) \<and> ua_Zone ua = []"

definition pools_ok :: "cmsg_abi \<Rightarrow> std_bind \<Rightarrow> bool" where
  "pools_ok A s \<longleftrightarrow>
     (\<forall>ms \<in> set (s_msgsPool s). length ms = s_batchSize s \<and> (\<forall>m \<in> set ms. pooled A m \<and> N m = 0 \<and> NN m = 0)) \<and>
     (\<forall>ua \<in> set (s_udpAddrPool s). ua_ok ua)"

lemma pool_get_in: "pool_get ch new pool = (x, rest) \<Longrightarrow> (x = new \<or> x \<in> set pool) \<and> set rest \<subseteq> set pool"
  by (auto simp: pool_get_def split: option.splits if_splits dest: in_set_takeD in_set_dropD)

lemma getMessages_ok:
  assumes "eGOOS E = Linux" "pools_ok A s" "getMessages E A s w = (msgs, s1)"
  shows "length msgs = s_batchSize s" "\<forall>m \<in> set msgs. pooled A m" "\<forall>m \<in> set msgs. N m = 0 \<and> NN m = 0" "pools_ok A s1"
    "\<exists>mp. s1 = s\<lparr>s_msgsPool := mp\<rparr>"
proof -
  have new: "pooled A (new_message Linux A) \<and> N (new_message Linux A) = 0 \<and> NN (new_message Linux A) = 0"
    by (simp add: pooled_def new_message_def cb_wf_def cb_cap_def cb_make_def)
  obtain pool where g: "pool_get (ePoolGet E MsgsPool w) (replicate (s_batchSize s) (new_message Linux A)) (s_msgsPool s) = (msgs, pool)"
    and s1: "s1 = s\<lparr>s_msgsPool := pool\<rparr>"
    using assms(1,3) by (auto simp: getMessages_def split: prod.splits)
  have "msgs = replicate (s_batchSize s) (new_message Linux A) \<or> msgs \<in> set (s_msgsPool s)"
    and sub: "set pool \<subseteq> set (s_msgsPool s)"
    using pool_get_in [OF g] by auto
  then show "length msgs = s_batchSize s" "\<forall>m \<in> set msgs. pooled A m" "\<forall>m \<in> set msgs. N m = 0 \<and> NN m = 0"
    using assms(2) new by (auto simp: pools_ok_def)
  show "pools_ok A s1" using assms(2) sub by (auto simp: s1 pools_ok_def)
  show "\<exists>mp. s1 = s\<lparr>s_msgsPool := mp\<rparr>" using s1 by blast
qed

lemma getUDPAddr_ok:
  assumes "pools_ok A s" "getUDPAddr E s w = (ua, s1)"
  shows "ua_ok ua" "pools_ok A s1" "\<exists>up. s1 = s\<lparr>s_udpAddrPool := up\<rparr>"
proof -
  obtain pool where g: "pool_get (ePoolGet E UdpAddrPool w) new_udp_addr (s_udpAddrPool s) = (ua, pool)"
    and s1: "s1 = s\<lparr>s_udpAddrPool := pool\<rparr>"
    using assms(2) by (auto simp: getUDPAddr_def split: prod.splits)
  have new: "ua_ok new_udp_addr" by (simp add: ua_ok_def new_udp_addr_def cb_make_def cb_cap_def)
  show "ua_ok ua" "pools_ok A s1" using assms(1) new pool_get_in [OF g] by (auto simp: pools_ok_def s1)
  show "\<exists>up. s1 = s\<lparr>s_udpAddrPool := up\<rparr>" using s1 by blast
qed

lemma putMessages_ok:
  "pools_ok A s \<Longrightarrow> length msgs = s_batchSize s \<Longrightarrow> \<forall>m \<in> set msgs. pooled A m \<Longrightarrow> pools_ok A (putMessages msgs s)"
  by (auto simp: pools_ok_def putMessages_def reset_message_def pooled_def cb_wf_def cb_cap_def)

lemma putUDPAddr_ok: "pools_ok A s \<Longrightarrow> ua_ok ua \<Longrightarrow> pools_ok A (putUDPAddr ua s)"
  by (simp add: pools_ok_def putUDPAddr_def)

lemma batchSize_simps [simp]:
  "s_batchSize (putUDPAddr ua s) = s_batchSize s" "s_batchSize (disable_tx is6 s) = s_batchSize s"
  by (simp_all add: putUDPAddr_def disable_tx_def)

lemma disable_tx_ok: "pools_ok A (disable_tx is6 s) = pools_ok A s"
  by (simp add: pools_ok_def disable_tx_def)

section \<open>The destination\<close>

lemma set_dst_4:
  assumes "ua_ok ua" "length b = 4"
  obtains ua1 where "set_dst False (Addr4 b) ua = Ret ua1" "ua_ok ua1"
    "UDPAddr_AddrPort (ua1\<lparr>ua_Port := unat p\<rparr>) = \<lparr>ap_addr = Addr4 b, ap_port = p\<rparr>"
proof -
  let ?ip = "(cb_copy_at (ua_IP ua) 0 b)\<lparr>clen := 4\<rparr>"
  have cd: "cdata ?ip = b @ drop 4 (cdata (ua_IP ua))"
    using assms by (auto simp: ua_ok_def cb_copy_at_def overwrite_def)
  have "set_dst False (Addr4 b) ua = Ret (ua\<lparr>ua_IP := ?ip\<rparr>)"
    using assms cd by (simp add: set_dst_def As4_def cb_reslice_def cb_cap_def ua_ok_def)
  moreover have "ua_ok (ua\<lparr>ua_IP := ?ip\<rparr>)"
    using assms cd by (simp add: ua_ok_def cb_cap_def)
  moreover have "cb_bytes ?ip = b" using cd assms(2) by (simp add: cb_bytes_def)
  then have "UDPAddr_AddrPort (ua\<lparr>ua_IP := ?ip, ua_Port := unat p\<rparr>) = \<lparr>ap_addr = Addr4 b, ap_port = p\<rparr>"
    using assms(2) by (simp add: UDPAddr_AddrPort_def AddrFromSlice_def WithZone_def)
  ultimately show thesis using that by simp
qed

lemma set_dst_6:
  assumes "ua_ok ua" "length b = 16"
  obtains ua1 where "set_dst True (Addr6 b z) ua = Ret ua1" "ua_ok ua1"
    "UDPAddr_AddrPort (ua1\<lparr>ua_Port := unat p\<rparr>) =
       \<lparr>ap_addr = Addr6 (take (clen (ua_IP ua)) b @ drop (clen (ua_IP ua)) (cdata (ua_IP ua))) [], ap_port = p\<rparr>"
proof -
  let ?n = "clen (ua_IP ua)"
  let ?ip = "(cb_copy_at (ua_IP ua) 0 b)\<lparr>clen := 16\<rparr>"
  have n: "?n \<le> 16" "length (cdata (ua_IP ua)) = 16" using assms by (auto simp: ua_ok_def cb_cap_def)
  have cd: "cdata ?ip = take ?n b @ drop ?n (cdata (ua_IP ua))"
    using assms(2) n by (simp add: cb_copy_at_def overwrite_def min_def)
  have "set_dst True (Addr6 b z) ua = Ret (ua\<lparr>ua_IP := ?ip\<rparr>)"
    using assms n cd by (simp add: set_dst_def As16_def cb_reslice_def cb_cap_def min_def)
  moreover have "ua_ok (ua\<lparr>ua_IP := ?ip\<rparr>)"
    using assms n cd by (simp add: ua_ok_def cb_cap_def min_def)
  moreover have "cb_bytes ?ip = take ?n b @ drop ?n (cdata (ua_IP ua))"
    using cd assms(2) n by (simp add: cb_bytes_def min_def)
  then have "UDPAddr_AddrPort (ua\<lparr>ua_IP := ?ip, ua_Port := unat p\<rparr>) =
      \<lparr>ap_addr = Addr6 (take ?n b @ drop ?n (cdata (ua_IP ua))) [], ap_port = p\<rparr>"
    using assms n by (simp add: UDPAddr_AddrPort_def AddrFromSlice_def WithZone_def min_def ua_ok_def)
  ultimately show thesis using that by simp
qed

text \<open>The address the kernel is given, for the pooled value \<open>ua\<close>.\<close>

definition dst_for :: "addr_port \<Rightarrow> udp_addr \<Rightarrow> addr_port" where
  "dst_for ap ua =
     (case ap_addr ap of
        Addr6 b _ \<Rightarrow> ap\<lparr>ap_addr := Addr6 (take (clen (ua_IP ua)) b @ drop (clen (ua_IP ua)) (cdata (ua_IP ua))) []\<rparr>
      | _ \<Rightarrow> ap)"

lemma set_dst_ok:
  assumes "ua_ok ua" "addr_wf (ap_addr ap)" "ap_addr ap \<noteq> AddrZero"
  obtains ua1 where "set_dst (Is6 (ap_addr ap)) (ap_addr ap) ua = Ret ua1" "ua_ok ua1"
    "UDPAddr_AddrPort (ua1\<lparr>ua_Port := unat (ap_port ap)\<rparr>) = dst_for ap ua"
proof (cases "ap_addr ap")
  case (Addr4 b)
  then have "length b = 4" using assms(2) by (simp add: addr_wf_def)
  from set_dst_4 [OF assms(1) this, of "ap_port ap"] obtain ua1 where "set_dst False (Addr4 b) ua = Ret ua1" "ua_ok ua1"
    "UDPAddr_AddrPort (ua1\<lparr>ua_Port := unat (ap_port ap)\<rparr>) = \<lparr>ap_addr = Addr4 b, ap_port = ap_port ap\<rparr>" .
  then show thesis using that [of ua1] Addr4 by (cases ap) (simp add: dst_for_def)
next
  case (Addr6 b z)
  then have "length b = 16" using assms(2) by (simp add: addr_wf_def)
  from set_dst_6 [OF assms(1) this, of z "ap_port ap"] obtain ua1 where "set_dst True (Addr6 b z) ua = Ret ua1" "ua_ok ua1"
    "UDPAddr_AddrPort (ua1\<lparr>ua_Port := unat (ap_port ap)\<rparr>) =
       \<lparr>ap_addr = Addr6 (take (clen (ua_IP ua)) b @ drop (clen (ua_IP ua)) (cdata (ua_IP ua))) [], ap_port = ap_port ap\<rparr>" .
  then show thesis using that [of ua1] Addr6 by (cases ap) (simp add: dst_for_def)
qed (use assms(3) in simp)

section \<open>The whole call\<close>

definition sent_to :: "cmsg_abi \<Rightarrow> store \<Rightarrow> slice list \<Rightarrow> addr_port \<Rightarrow> conn_event list \<Rightarrow> bool" where
  "sent_to A h bufs dst es \<longleftrightarrow>
     concat (map (wire_split A) (accepted es)) = map (sl_read h) bufs \<and>
     (\<forall>m \<in> set (accepted es). wm_dst m = Some dst)"

lemma sent_sent_to: "sent A h bufs ua es \<longleftrightarrow> sent_to A h bufs (UDPAddr_AddrPort ua) es"
  by (simp add: sent_def sent_to_def)

definition tx_of :: "bool \<Rightarrow> std_bind \<Rightarrow> bool" where
  "tx_of is6 s = (if is6 then s_ipv6TxOffload s else s_ipv4TxOffload s)"

text \<open>What a call needs: a pool, an endpoint, and buffers that do not share memory.\<close>

definition send_ready :: "cmsg_abi \<Rightarrow> std_bind \<Rightarrow> slice list \<Rightarrow> std_endpoint \<Rightarrow> store \<Rightarrow> bool" where
  "send_ready A s bufs ep h \<longleftrightarrow>
     pools_ok A s \<and> ep_sendable A ep \<and> addr_wf (DstIP ep) \<and> DstIP ep \<noteq> AddrZero \<and>
     length bufs \<le> BatchSize s \<and> (\<forall>b \<in> set bufs. sl_wf h b \<and> 0 < slen b) \<and> distinct (map sarr bufs)"

text \<open>Both ways through \<open>Send\<close> after the destination is set.\<close>

lemma send_body_returns:
  assumes A: "cmsg_codec A" and E: "eGOOS E = Linux" "write_progress E" and ep: "ep_sendable A ep"
    and msgs: "\<forall>m \<in> set msgs. pooled A m" "length bufs \<le> length msgs"
    and bufs: "\<forall>b \<in> set bufs. sl_wf h b \<and> 0 < slen b" "distinct (map sarr bufs)"
  obtains err retried msgs' h' es1 es2 where
    "(if offload then send_offload E A c br ua ep bufs msgs h w
      else obind (send_plain E c br ua ep bufs msgs h w) (\<lambda>(err, msgs', w'). Ret (err, False, msgs', h, w'))) =
     Ret (err, retried, msgs', h', then_events w (es1 @ es2))"
    "length msgs' = length msgs" "\<forall>m \<in> set msgs'. pooled A m" "\<forall>b \<in> set bufs. sl_read h' b = sl_read h b"
    "\<not> retried \<Longrightarrow> es1 = []" "err = None \<Longrightarrow> sent A h bufs ua es2" "retried \<Longrightarrow> offload"
    "only_writes (es1 @ es2)"
proof (cases offload)
  case True
  show thesis
  proof (rule send_offload_returns [OF A E ep msgs bufs, of c br ua w])
    fix err retried msgs' h' es1 es2
    assume "send_offload E A c br ua ep bufs msgs h w = Ret (err, retried, msgs', h', then_events w (es1 @ es2))"
      "length msgs' = length msgs" "\<forall>m \<in> set msgs'. pooled A m" "\<forall>b \<in> set bufs. sl_read h' b = sl_read h b"
      "\<not> retried \<Longrightarrow> es1 = []" "err = None \<Longrightarrow> sent A h bufs ua es2" "only_writes (es1 @ es2)"
    then show thesis using that [of err retried msgs' h' es1 es2] True by simp
  qed
next
  case False
  obtain err msgs' es where "send_plain E c br ua ep bufs msgs h w = Ret (err, msgs', then_events w es)"
    "length msgs' = length msgs" "\<forall>m \<in> set msgs'. pooled A m" "only_writes es" "err = None \<Longrightarrow> sent A h bufs ua es"
    using send_plain_returns [OF A E ep msgs] by blast
  then show thesis using that [of err False msgs' h "[]" es] False by simp
qed

lemma getUDPAddr_msgs [simp]:
  "getUDPAddr E (s\<lparr>s_msgsPool := p\<rparr>) w = (fst (getUDPAddr E s w), (snd (getUDPAddr E s w))\<lparr>s_msgsPool := p\<rparr>)"
  by (simp add: getUDPAddr_def split: prod.splits)

lemma Send_returns:
  assumes A: "cmsg_codec A" and E: "eGOOS E = Linux" "write_progress E" and ready: "send_ready A s bufs ep h"
    and view: "send_view s (DstIP ep) = (False, Some c, offload, br, is6)"
  obtains err retried s' h' es1 es2 where
    "Send E A s bufs (StdEndpoint ep) h w =
       Ret (if retried then Some (ErrUDPGSODisabled (snd (eLocalAddr E (then_events w (es1 @ es2)) c)) err) else err,
            s', h', then_events w (es1 @ es2))"
    "\<not> retried \<Longrightarrow> es1 = []" "retried \<Longrightarrow> offload"
    "err = None \<Longrightarrow> sent_to A h bufs (dst_for (AddrPort ep) (fst (getUDPAddr E s w))) es2"
    "pools_ok A s'" "\<exists>mp up. s' = (if retried then disable_tx is6 s else s)\<lparr>s_msgsPool := mp, s_udpAddrPool := up\<rparr>"
    "\<forall>b \<in> set bufs. sl_read h' b = sl_read h b" "only_writes (es1 @ es2)"
proof -
  note r = ready [unfolded send_ready_def]
  obtain msgs s1 where g: "getMessages E A s w = (msgs, s1)" by fastforce
  have pools: "pools_ok A s" using r by simp
  note ok1 = getMessages_ok [OF E(1) pools g]
  obtain ua s2 where u: "getUDPAddr E s1 w = (ua, s2)" by fastforce
  note ok2 = getUDPAddr_ok [OF ok1(4) u]
  obtain mp up where s1: "s1 = s\<lparr>s_msgsPool := mp\<rparr>" and s2: "s2 = s\<lparr>s_msgsPool := mp, s_udpAddrPool := up\<rparr>"
    using ok1(5) ok2(3) by auto
  have ua: "ua = fst (getUDPAddr E s w)" using u unfolding s1 by simp
  have is6: "is6 = Is6 (DstIP ep)" using view by (auto simp: send_view_def split: if_splits)
  obtain ua1 where d: "set_dst is6 (DstIP ep) ua = Ret ua1" "ua_ok ua1"
    "UDPAddr_AddrPort (ua1\<lparr>ua_Port := unat (ap_port (AddrPort ep))\<rparr>) = dst_for (AddrPort ep) ua"
    using set_dst_ok [OF ok2(1), of "AddrPort ep"] r is6 by (auto simp: DstIP_def)
  let ?ua = "ua1\<lparr>ua_Port := unat (ap_port (AddrPort ep))\<rparr>"
  have len: "length bufs \<le> length msgs" using r ok1(1) by (simp add: BatchSize_def)
  obtain err retried msgs' h' es1 es2 where b:
    "(if offload then send_offload E A c br ?ua ep bufs msgs h w
      else obind (send_plain E c br ?ua ep bufs msgs h w) (\<lambda>(err, msgs', w'). Ret (err, False, msgs', h, w'))) =
     Ret (err, retried, msgs', h', then_events w (es1 @ es2))"
    "length msgs' = length msgs" "\<forall>m \<in> set msgs'. pooled A m" "\<forall>b \<in> set bufs. sl_read h' b = sl_read h b"
    "\<not> retried \<Longrightarrow> es1 = []" "err = None \<Longrightarrow> sent A h bufs ?ua es2" "retried \<Longrightarrow> offload"
    "only_writes (es1 @ es2)"
    using send_body_returns [OF A E _ ok1(2) len, of ep h offload c br ?ua w] r by blast
  let ?s = "putMessages msgs' (putUDPAddr ?ua (if retried then disable_tx is6 s2 else s2))"
  have eq: "Send E A s bufs (StdEndpoint ep) h w =
       Ret (if retried then Some (ErrUDPGSODisabled (snd (eLocalAddr E (then_events w (es1 @ es2)) c)) err) else err,
            ?s, h', then_events w (es1 @ es2))"
    using view g u d(1) b(1) by (simp add: Send_def endpoint_DstIP_def as_std_def)
  have "ua_ok ?ua" using d(2) by (simp add: ua_ok_def)
  then have pok: "pools_ok A ?s"
    using ok2(2) ok1(1) b(2,3)
    by (intro putMessages_ok putUDPAddr_ok) (auto simp: disable_tx_ok s2)
  have "?s = (if retried then disable_tx is6 s else s)
      \<lparr>s_msgsPool := map reset_message msgs' # mp, s_udpAddrPool := ?ua # up\<rparr>"
    by (cases s) (simp add: s2 putMessages_def putUDPAddr_def disable_tx_def)
  then have "\<exists>mp up. ?s = (if retried then disable_tx is6 s else s)\<lparr>s_msgsPool := mp, s_udpAddrPool := up\<rparr>" by blast
  then show thesis
    using that [OF eq b(5) b(7) _ pok _ b(4) b(8)] b(6) d(3) ua by (simp add: sent_sent_to)
qed

text \<open>When the address given to the kernel is the endpoint's.\<close>

definition dst_kept :: "addr \<Rightarrow> udp_addr \<Rightarrow> bool" where
  "dst_kept a ua \<longleftrightarrow> (case a of Addr6 b z \<Rightarrow> z = [] \<and> clen (ua_IP ua) = 16 | _ \<Rightarrow> True)"

lemma dst_for_kept:
  assumes "dst_kept (ap_addr ap) ua" "ua_ok ua" "addr_wf (ap_addr ap)"
  shows "dst_for ap ua = ap"
  using assms by (cases "ap_addr ap"; cases ap) (auto simp: dst_for_def dst_kept_def addr_wf_def ua_ok_def cb_cap_def)

lemma getUDPAddr_ua: "pools_ok A s \<Longrightarrow> ua_ok (fst (getUDPAddr E s w))"
  by (rule getUDPAddr_ok(1) [OF _ prod.collapse [symmetric]])



lemma Send_invariants:
  assumes "cmsg_codec A" "eGOOS E = Linux" "write_progress E" "send_ready A s bufs ep h" "bind_wf s"
    and "Send E A s bufs (StdEndpoint ep) h w = Ret (err, s', h', w')"
  shows "pools_ok A s' \<and> bind_wf s' \<and> BatchSize s' = BatchSize s \<and> s_ipv4 s' = s_ipv4 s \<and> s_ipv6 s' = s_ipv6 s \<and>
    leaks w w' d = 0"
proof -
  obtain blackhole oc offload br is6 where v: "send_view s (DstIP ep) = (blackhole, oc, offload, br, is6)"
    by (metis prod_cases5)
  show ?thesis
  proof (cases "blackhole \<or> oc = None")
    case True
    then have "s' = s" "w' = w"
      using assms(6) v by (auto simp: Send_def endpoint_DstIP_def split: if_splits)
    then show ?thesis using assms(4,5) by (simp add: send_ready_def)
  next
    case False
    then obtain c where v': "send_view s (DstIP ep) = (False, Some c, offload, br, is6)" using v by auto
    obtain err0 retried s1 h1 es1 es2 where r:
      "Send E A s bufs (StdEndpoint ep) h w =
         Ret (if retried then Some (ErrUDPGSODisabled (snd (eLocalAddr E (then_events w (es1 @ es2)) c)) err0) else err0,
              s1, h1, then_events w (es1 @ es2))"
      "pools_ok A s1" "\<exists>mp up. s1 = (if retried then disable_tx is6 s else s)\<lparr>s_msgsPool := mp, s_udpAddrPool := up\<rparr>"
      "only_writes (es1 @ es2)"
      by (rule Send_returns [OF assms(1-4) v', of w]) blast
    have eq: "s' = s1" "w' = then_events w (es1 @ es2)" using assms(6) r(1) by auto
    have "bind_wf s1 \<and> BatchSize s1 = BatchSize s \<and> s_ipv4 s1 = s_ipv4 s \<and> s_ipv6 s1 = s_ipv6 s"
      using r(3) assms(5) by (auto simp: bind_wf_def disable_tx_def BatchSize_def split: if_splits)
    then show ?thesis using r(2) eq balance_writes [OF r(4), of d] by (simp add: leaks_def)
  qed
qed


end
