(* ===== verification/Batching_Conn.thy ===== *)
theory Batching_Conn
  imports Std_Receive Std_Send
begin

text \<open>
  \<open>linuxBatchingConn\<close> (\<open>batching_conn_linux.go\<close>): a connection upgraded with batched reads and
  writes. Its \<open>coalesceMessages\<close> gathers the buffers of a batch instead of copying them. On other
  platforms (\<open>batching_conn_default.go\<close>) the upgrade does nothing. The \<open>flags\<close> argument of
  \<open>ReadBatch\<close> is handed to the socket unread and is left out.
\<close>

record send_batch =
  sb_msgs :: "message list"
  sb_ua :: udp_addr

record batching_conn =
  bc_UDPConn :: conn
  bc_xpc :: conn
  bc_rxOffload :: bool
  bc_txOffload :: bool
  bc_batchSize :: nat
  bc_sendBatchPool :: "send_batch list"

definition bc_BatchSize :: "batching_conn \<Rightarrow> nat" where
  "bc_BatchSize c = bc_batchSize c"

definition bc_ReadFromUDP :: "batching_conn \<Rightarrow> nat \<times> udp_addr option \<times> goerror option" where
  "bc_ReadFromUDP c = (0, None, Some ErrSinglePacketReadUnsupported)"

definition bc_ReadFromUDPAddrPort :: "batching_conn \<Rightarrow> nat \<times> addr_port \<times> goerror option" where
  "bc_ReadFromUDPAddrPort c = (0, \<lparr>ap_addr = AddrZero, ap_port = 0\<rparr>, Some ErrSinglePacketReadUnsupported)"

section \<open>ReadBatch\<close>

definition arm_oob :: "message \<Rightarrow> message" where
  "arm_oob m = m\<lparr>OOB := (OOB m)\<lparr>clen := cb_cap (OOB m)\<rparr>\<rparr>"

definition bc_ReadBatch ::
  "env \<Rightarrow> cmsg_abi \<Rightarrow> batching_conn \<Rightarrow> message list \<Rightarrow> store \<Rightarrow> world
    \<Rightarrow> ((nat \<times> goerror option) \<times> message list \<times> store \<times> world) outcome" where
  "bc_ReadBatch E A c msgs h w =
     (if length msgs = 0 then Ret ((0, None), msgs, h, w)
      else if \<not> bc_rxOffload c \<or> length msgs < 2 then
        let (r, msgs', h', w') = conn_ReadBatch E (bc_xpc c) (map arm_oob msgs) h w
        in Ret (case r of Inl err \<Rightarrow> (0, Some err) | Inr n \<Rightarrow> (n, None), msgs', h', w')
      else
        let readAt = length msgs - 2;
            (r, tail, h1, w1) = conn_ReadBatch E (bc_xpc c) (map arm_oob (drop readAt msgs)) h w;
            msgs1 = take readAt msgs @ tail
        in case r of
             Inl err \<Rightarrow> Ret ((0, Some err), msgs1, h1, w1)
           | Inr n \<Rightarrow>
               if n = 0 then Ret ((0, None), msgs1, h1, w1)
               else obind (splitCoalescedMessages msgs1 readAt (getGSOSize (eGOOS E) A) h1)
                      (\<lambda>(err, k, msgs2, h2). Ret ((k, err), msgs2, h2, w1)))"

section \<open>coalesceMessages\<close>

definition sg_start :: "setGSOFunc \<Rightarrow> udp_addr \<Rightarrow> slice \<Rightarrow> coalesce_state \<Rightarrow> coalesce_state outcome" where
  "sg_start setGSO addr buf st =
     obind (if co_dgramCnt st > 1 then set_gso_at_base setGSO st else Ret st) (\<lambda>st1.
       obind (idx (co_msgs st1) (co_n st1)) (\<lambda>m.
         obind (upd (Buffers m) 0 buf) (\<lambda>bs.
           Ret (st1\<lparr>co_msgs := (co_msgs st1)[co_n st1 :=
                      m\<lparr>OOB := (OOB m)\<lparr>clen := 0\<rparr>, Buffers := bs, Addr := Some addr\<rparr>],
                    co_n := Suc (co_n st1), co_gsoSize := slen buf, co_dgramCnt := 1,
                    co_endBatch := False\<rparr>))))"

definition sg_step ::
  "setGSOFunc \<Rightarrow> udp_addr \<Rightarrow> nat \<Rightarrow> bool \<Rightarrow> bool \<Rightarrow> slice \<Rightarrow> coalesce_state \<Rightarrow> coalesce_state outcome" where
  "sg_step setGSO addr maxPayloadLen first final buf st =
     (if first then sg_start setGSO addr buf st
      else obind (at_base st) (\<lambda>m.
        let msgLen = slen buf;
            baseLenBefore = total_len (Buffers m)
        in if msgLen + baseLenBefore \<le> maxPayloadLen \<and> msgLen \<le> co_gsoSize st \<and>
              co_dgramCnt st < udpSegmentMaxDatagrams \<and> \<not> co_endBatch st
           then let st1 = st\<lparr>co_msgs := (co_msgs st)[co_n st - 1 := m\<lparr>Buffers := Buffers m @ [buf]\<rparr>]\<rparr>
                in obind (if final then set_gso_at_base setGSO st1 else Ret st1) (\<lambda>st2.
                     Ret (st2\<lparr>co_dgramCnt := Suc (co_dgramCnt st2),
                              co_endBatch := (msgLen < co_gsoSize st2 \<or> co_endBatch st2)\<rparr>))
           else sg_start setGSO addr buf st))"

fun sg_loop ::
  "setGSOFunc \<Rightarrow> udp_addr \<Rightarrow> nat \<Rightarrow> bool \<Rightarrow> slice list \<Rightarrow> coalesce_state \<Rightarrow> coalesce_state outcome" where
  "sg_loop setGSO addr maxPayloadLen first [] st = Ret st"
| "sg_loop setGSO addr maxPayloadLen first (buf # bufs) st =
     obind (sg_step setGSO addr maxPayloadLen first (bufs = []) buf st) (sg_loop setGSO addr maxPayloadLen False bufs)"

definition sg_maxPayloadLen :: "udp_addr \<Rightarrow> nat" where
  "sg_maxPayloadLen addr = (if IP_To4_nil (cb_bytes (ua_IP addr)) then maxIPv6PayloadLen else maxIPv4PayloadLen)"

text \<open>The store takes no part: nothing is copied.\<close>

definition bc_coalesceMessages ::
  "setGSOFunc \<Rightarrow> udp_addr \<Rightarrow> slice list \<Rightarrow> message list \<Rightarrow> (nat \<times> message list) outcome" where
  "bc_coalesceMessages setGSO addr bufs msgs =
     obind (sg_loop setGSO addr (sg_maxPayloadLen addr) True bufs
              \<lparr>co_mem = \<lparr>arrs = (\<lambda>_. []), brk = 0\<rparr>, co_msgs = msgs, co_n = 0, co_gsoSize = 0, co_dgramCnt = 0,
               co_endBatch = False\<rparr>)
       (\<lambda>st. Ret (co_n st, co_msgs st))"

section \<open>WriteBatchTo\<close>

definition new_send_batch :: "goos \<Rightarrow> cmsg_abi \<Rightarrow> nat \<Rightarrow> send_batch" where
  "new_send_batch p A batchSize =
     \<lparr>sb_msgs = replicate batchSize
        \<lparr>Buffers = [nil_slice], OOB = cb_make 0 (gsoControlSize p A), Addr = Some new_udp_addr, N = 0, NN = 0\<rparr>,
      sb_ua = new_udp_addr\<rparr>"

definition getSendBatch :: "env \<Rightarrow> cmsg_abi \<Rightarrow> batching_conn \<Rightarrow> world \<Rightarrow> send_batch \<times> batching_conn" where
  "getSendBatch E A c w =
     (let (b, pool) = pool_get (ePoolGet E SendBatchPool w) (new_send_batch (eGOOS E) A (bc_batchSize c)) (bc_sendBatchPool c)
      in (b, c\<lparr>bc_sendBatchPool := pool\<rparr>))"

text \<open>\<open>Buffers[:1]\<close> panics on a message whose capacity for buffers is 0, which no pooled message has.\<close>

definition put_message :: "message \<Rightarrow> message" where
  "put_message m =
     \<lparr>Buffers = take 1 (Buffers m), OOB = (OOB m)\<lparr>clen := 0\<rparr>, Addr = None, N = 0, NN = 0\<rparr>"

definition putSendBatch :: "send_batch \<Rightarrow> batching_conn \<Rightarrow> batching_conn" where
  "putSendBatch b c = c\<lparr>bc_sendBatchPool := b\<lparr>sb_msgs := map put_message (sb_msgs b)\<rparr> # bc_sendBatchPool c\<rparr>"

definition writeBatch :: "env \<Rightarrow> batching_conn \<Rightarrow> message list \<Rightarrow> store \<Rightarrow> world \<Rightarrow> (goerror option \<times> world) outcome" where
  "writeBatch E c msgs h w =
     (case send_loop E (bc_xpc c) (map (wire_of h) msgs) w of None \<Rightarrow> Diverge | Some r \<Rightarrow> r)"

fun bc_plain_messages :: "udp_addr \<Rightarrow> nat \<Rightarrow> slice list \<Rightarrow> message list \<Rightarrow> message list outcome" where
  "bc_plain_messages ua i [] msgs = Ret msgs"
| "bc_plain_messages ua i (b # bufs) msgs =
     obind (idx msgs i) (\<lambda>m.
       obind (upd (Buffers m) 0 b) (\<lambda>bs.
         bc_plain_messages ua (Suc i) bufs
           (msgs[i := m\<lparr>Buffers := bs, Addr := Some ua, OOB := (OOB m)\<lparr>clen := 0\<rparr>\<rparr>])))"

definition bc_write_plain ::
  "env \<Rightarrow> batching_conn \<Rightarrow> udp_addr \<Rightarrow> slice list \<Rightarrow> message list \<Rightarrow> store \<Rightarrow> world
    \<Rightarrow> (goerror option \<times> message list \<times> world) outcome" where
  "bc_write_plain E c ua bufs msgs h w =
     obind (bc_plain_messages ua 0 bufs msgs) (\<lambda>msgs'.
       obind (writeBatch E c (take (length bufs) msgs') h w) (\<lambda>(err, w'). Ret (err, msgs', w')))"

text \<open>The coalesced attempt and what follows \<open>goto retry\<close>.\<close>

definition bc_write_offload ::
  "env \<Rightarrow> cmsg_abi \<Rightarrow> batching_conn \<Rightarrow> udp_addr \<Rightarrow> slice list \<Rightarrow> message list \<Rightarrow> store \<Rightarrow> world
    \<Rightarrow> (goerror option \<times> bool \<times> message list \<times> world) outcome" where
  "bc_write_offload E A c ua bufs msgs h w =
     obind (bc_coalesceMessages (setGSOSize (eGOOS E) A) ua bufs msgs) (\<lambda>(n, msgs1).
       obind (writeBatch E c (take n msgs1) h w) (\<lambda>(err, w1).
         case err of
           None \<Rightarrow> Ret (None, False, msgs1, w1)
         | Some e \<Rightarrow>
             if errShouldDisableUDPGSO (eGOOS E) e
             then obind (bc_write_plain E c ua bufs msgs1 h w1) (\<lambda>(err2, msgs2, w2). Ret (err2, True, msgs2, w2))
             else Ret (err, False, msgs1, w1)))"

definition WriteBatchTo ::
  "env \<Rightarrow> cmsg_abi \<Rightarrow> batching_conn \<Rightarrow> slice list \<Rightarrow> addr_port \<Rightarrow> store \<Rightarrow> world
    \<Rightarrow> (goerror option \<times> batching_conn \<times> world) outcome" where
  "WriteBatchTo E A c bufs addr h w =
     (if length bufs > bc_batchSize c then Ret (Some ErrBatchTooLarge, c, w)
      else if length bufs = 0 then Ret (None, c, w)
      else let (b, c1) = getSendBatch E A c w
           in obind (set_dst (Is6 (ap_addr addr)) (ap_addr addr) (sb_ua b)) (\<lambda>ua1.
                let ua = ua1\<lparr>ua_Port := unat (ap_port addr)\<rparr>
                in obind (if bc_txOffload c then bc_write_offload E A c ua bufs (sb_msgs b) h w
                          else obind (bc_write_plain E c ua bufs (sb_msgs b) h w) (\<lambda>(err, msgs', w').
                                 Ret (err, False, msgs', w')))
                     (\<lambda>(err, retried, msgs', w').
                        let c2 = putSendBatch \<lparr>sb_msgs = msgs', sb_ua = ua\<rparr>
                                   (if retried then c1\<lparr>bc_txOffload := False\<rparr> else c1);
                            err' = (if retried then Some (ErrUDPGSODisabled (snd (eLocalAddr E w' (bc_UDPConn c))) err) else err)
                        in Ret (err', c2, w'))))"

section \<open>The upgrade\<close>

text \<open>The dynamic types \<open>TryUpgradeToBatchingConn\<close> tells apart.\<close>

datatype packet_conn =
    BatchingPacketConn batching_conn
  | UDPPacketConn conn
  | OtherPacketConn conn

definition TryUpgradeToBatchingConn ::
  "env \<Rightarrow> packet_conn \<Rightarrow> string \<Rightarrow> int \<Rightarrow> world \<Rightarrow> (packet_conn \<times> world) outcome" where
  "TryUpgradeToBatchingConn E pconn nw batchSize w =
     (if \<not> linux_tag (eGOOS E) then Ret (pconn, w)
      else case pconn of
        BatchingPacketConn b \<Rightarrow> Ret (pconn, w)
      | OtherPacketConn c \<Rightarrow> Ret (pconn, w)
      | UDPPacketConn c \<Rightarrow>
          if nw \<noteq> ''udp4'' \<and> nw \<noteq> ''udp6'' then Ret (pconn, w)
          else obind (unwrapUDPConn E c) (\<lambda>native.
            case native of
              None \<Rightarrow> Ret (pconn, w)
            | Some nc \<Rightarrow>
                let n = (if batchSize \<le> 0 then IdealBatchSize else nat batchSize);
                    ((tx, rx), w') = supportsUDPOffload E c w
                in Ret (BatchingPacketConn
                          \<lparr>bc_UDPConn = c, bc_xpc = nc, bc_rxOffload = rx, bc_txOffload = tx, bc_batchSize = n,
                           bc_sendBatchPool = []\<rparr>, w')))"

definition MinControlMessageSize :: "goos \<Rightarrow> cmsg_abi \<Rightarrow> nat" where
  "MinControlMessageSize p A = gsoControlSize p A"

end
