(* ===== verification/Receive_Correct.thy ===== *)
theory Receive_Correct
  imports Std_Receive Std_Send
begin

text \<open>
  What the receive functions deliver: the datagrams the kernel coalesced and reported are handed
  to the caller one by one, in order, each with its length and its sender.
\<close>

section \<open>Reads into armed messages\<close>

definition armed :: "message \<Rightarrow> slice \<Rightarrow> message" where
  "armed m b = m\<lparr>Buffers := [b], OOB := (OOB m)\<lparr>clen := cb_cap (OOB m)\<rparr>\<rparr>"

lemma arm_messages_eq:
  "length ms \<le> length bufs \<Longrightarrow> \<forall>m \<in> set ms. length (Buffers m) = 1 \<Longrightarrow>
   arm_messages ms bufs = Ret (map2 armed ms bufs)"
proof (induction ms bufs rule: arm_messages.induct)
  case (3 m ms b bufs)
  then obtain b0 where "Buffers m = [b0]" by (cases "Buffers m") auto
  then show ?case using 3 by (simp add: armed_def)
qed auto

text \<open>The received message fits the buffer and the control buffer.\<close>

definition fits :: "rx_msg \<Rightarrow> message \<Rightarrow> bool" where
  "fits r m \<longleftrightarrow> Buffers m = [buffer0 m] \<and> length (rx_data r) \<le> slen (buffer0 m) \<and>
     length (rx_control r) \<le> clen (OOB m) \<and> cb_wf (OOB m)"

definition filled :: "rx_msg \<Rightarrow> message \<Rightarrow> message" where
  "filled r m = m\<lparr>N := length (rx_data r), NN := length (rx_control r),
     OOB := (OOB m)\<lparr>cdata := overwrite (cdata (OOB m)) 0 (rx_control r)\<rparr>, Addr := rx_addr r\<rparr>"

lemma rx_into_fits:
  assumes "fits r m"
  shows "rx_into h r m = (sl_write h (sarr (buffer0 m)) (soff (buffer0 m)) (rx_data r), filled r m)"
proof -
  obtain b where b: "Buffers m = [b]" "buffer0 m = b" using assms by (simp add: fits_def)
  then show ?thesis using assms by (simp add: rx_into_def fits_def filled_def min_def Let_def)
qed

lemma filled_simps [simp]:
  "Buffers (filled r m) = Buffers m" "buffer0 (filled r m) = buffer0 m" "N (filled r m) = length (rx_data r)"
  "NN (filled r m) = length (rx_control r)" "Addr (filled r m) = rx_addr r"
  by (simp_all add: filled_def buffer0_def)

lemma filled_control:
  "fits r m \<Longrightarrow> take (NN (filled r m)) (cdata (OOB (filled r m))) = rx_control r \<and> NN (filled r m) \<le> cb_cap (OOB (filled r m))"
  by (simp add: filled_def fits_def cb_wf_def cb_cap_def overwrite_def)

text \<open>The buffers of the messages, by index, and one write at a time.\<close>

lemma msgs_ok_filled:
  assumes "msgs_ok h (m # ms)" "fits r m"
  shows "msgs_ok (sl_write h (sarr (buffer0 m)) (soff (buffer0 m)) (rx_data r)) ms"
    and "k < length ms \<Longrightarrow> sl_read (sl_write h (sarr (buffer0 m)) (soff (buffer0 m)) (rx_data r)) (buffer0 (ms ! k)) = sl_read h (buffer0 (ms ! k))"
    and "take (length (rx_data r)) (sl_read (sl_write h (sarr (buffer0 m)) (soff (buffer0 m)) (rx_data r)) (buffer0 m)) = rx_data r"
    and "sl_wf h b \<Longrightarrow> sl_wf (sl_write h (sarr (buffer0 m)) (soff (buffer0 m)) (rx_data r)) b"
proof -
  let ?b = "buffer0 m"
  have wf: "sl_wf h ?b" using assms(1) by (simp add: msgs_ok_def)
  have arr: "soff ?b + length (rx_data r) \<le> length (arrs h (sarr ?b))"
    using wf assms(2) by (simp add: sl_wf_def fits_def)
  show w: "sl_wf h b \<Longrightarrow> sl_wf (sl_write h (sarr ?b) (soff ?b) (rx_data r)) b" for b
    using arr by simp
  then show "msgs_ok (sl_write h (sarr ?b) (soff ?b) (rx_data r)) ms"
    using assms(1) by (auto simp: msgs_ok_def)
  show "sl_read (sl_write h (sarr ?b) (soff ?b) (rx_data r)) (buffer0 (ms ! k)) = sl_read h (buffer0 (ms ! k))"
    if "k < length ms"
  proof -
    have "sarr (buffer0 (ms ! k)) \<noteq> sarr ?b"
      using msgs_ok_sarr [OF assms(1), of "Suc k" 0] that by simp
    then show ?thesis by simp
  qed
  have "take (length (rx_data r)) (sl_read (sl_write h (sarr ?b) (soff ?b) (rx_data r)) ?b) =
      take (length (rx_data r)) (drop (soff ?b) (overwrite (arrs h (sarr ?b)) (soff ?b) (rx_data r)))"
    using assms(2) by (simp add: sl_read_def fits_def min_def)
  then show "take (length (rx_data r)) (sl_read (sl_write h (sarr ?b) (soff ?b) (rx_data r)) ?b) = rx_data r"
    using read_overwrite_at [of "soff ?b" "arrs h (sarr ?b)" "rx_data r"] arr by simp
qed

text \<open>Reading a batch into messages with separate buffers.\<close>

definition rx_result :: "rx_msg list \<Rightarrow> message list \<Rightarrow> store \<Rightarrow> store \<Rightarrow> bool" where
  "rx_result rs ms h h' \<longleftrightarrow>
     (\<forall>k < length rs. take (length (rx_data (rs ! k))) (sl_read h' (buffer0 (ms ! k))) = rx_data (rs ! k)) \<and>
     (\<forall>b. sl_wf h b \<longrightarrow> sl_wf h' b) \<and>
     (\<forall>b. (\<forall>k < length rs. sarr b \<noteq> sarr (buffer0 (ms ! k))) \<longrightarrow> sl_read h' b = sl_read h b)"

lemma rx_all_fits:
  "length rs \<le> length ms \<Longrightarrow> msgs_ok h ms \<Longrightarrow> \<forall>k < length rs. fits (rs ! k) (ms ! k) \<Longrightarrow>
   \<exists>h'. rx_all h rs ms = (h', map2 filled rs ms @ drop (length rs) ms) \<and> rx_result rs ms h h'"
proof (induction h rs ms rule: rx_all.induct)
  case (1 h r rs m ms)
  let ?b = "buffer0 m"
  let ?h = "sl_write h (sarr ?b) (soff ?b) (rx_data r)"
  have f: "fits r m" using "1.prems"(3) by force
  note one = msgs_ok_filled [OF "1.prems"(2) f]
  have into: "rx_into h r m = (?h, filled r m)" using f by (rule rx_into_fits)
  have "\<forall>k < length rs. fits (rs ! k) (ms ! k)" using "1.prems"(3) by force
  then obtain h' where h': "rx_all ?h rs ms = (h', map2 filled rs ms @ drop (length rs) ms)" "rx_result rs ms ?h h'"
    using "1.IH" [OF refl into [symmetric] _ one(1)] "1.prems"(1) by auto
  have notin: "\<forall>k < length rs. sarr ?b \<noteq> sarr (buffer0 (ms ! k))"
  proof (intro allI impI)
    fix k assume "k < length rs"
    then show "sarr ?b \<noteq> sarr (buffer0 (ms ! k))"
      using msgs_ok_sarr [OF "1.prems"(2), of 0 "Suc k"] "1.prems"(1) by simp
  qed
  have "rx_result (r # rs) (m # ms) h h'"
    unfolding rx_result_def
  proof (intro conjI allI impI)
    fix k assume "k < length (r # rs)"
    then show "take (length (rx_data ((r # rs) ! k))) (sl_read h' (buffer0 ((m # ms) ! k))) = rx_data ((r # rs) ! k)"
      using h'(2) one(3) notin by (cases k) (auto simp: rx_result_def)
  next
    fix b assume "sl_wf h b"
    then show "sl_wf h' b" using one(4) h'(2) by (simp add: rx_result_def)
  next
    fix b :: slice assume b: "\<forall>k < length (r # rs). sarr b \<noteq> sarr (buffer0 ((m # ms) ! k))"
    have "sarr b \<noteq> sarr ?b" using b by force
    moreover have "\<forall>k < length rs. sarr b \<noteq> sarr (buffer0 (ms ! k))" using b by force
    ultimately show "sl_read h' b = sl_read h b" using h'(2) by (simp add: rx_result_def)
  qed
  then show ?case using into h'(1) by (simp add: Let_def)
qed (auto simp: rx_result_def)

section \<open>Endpoints\<close>

lemma store_src_AddrPort: "store_src A n hdr d ep = Ret ep' \<Longrightarrow> AddrPort ep' = AddrPort ep"
  by (auto simp: store_src_def Let_def obind_eq_Ret)

lemma getSrc_AddrPort: "getSrc_loop A bs ep = Ret ep' \<Longrightarrow> AddrPort ep' = AddrPort ep"
proof (induction "length bs" arbitrary: bs rule: less_induct)
  case less
  show ?case
  proof (cases "length bs > SizeofCmsghdr A")
    case False
    then show ?thesis using less.prems by (simp add: getSrc_loop.simps [of A bs ep])
  next
    case True
    show ?thesis
    proof (cases "ParseOneSocketControlMessage A bs")
      case (Inl e)
      then show ?thesis using less.prems by (simp add: getSrc_loop.simps [of A bs ep] split: if_splits)
    next
      case (Inr x)
      obtain hdr d bs' where x: "x = (hdr, d, bs')" by (cases x)
      have "length bs' < length bs \<Longrightarrow> getSrc_loop A bs' ep = Ret ep' \<Longrightarrow> AddrPort ep' = AddrPort ep"
        by (rule less.hyps)
      then show ?thesis
        using less.prems True Inr x store_src_AddrPort
        by (simp add: getSrc_loop.simps [of A bs ep] split: if_splits)
    qed
  qed
qed

text \<open>The sender of a received message as the endpoint reports it.\<close>

definition sender :: "udp_addr option \<Rightarrow> addr_port" where
  "sender a = (let ap = UDPAddr_AddrPort (the a) in \<lparr>ap_addr = Unmap (ap_addr ap), ap_port = ap_port ap\<rparr>)"

text \<open>What slot \<open>j\<close> of the result holds for message \<open>m\<close>.\<close>

definition slot_ok ::
  "goos \<Rightarrow> cmsg_abi \<Rightarrow> message \<Rightarrow> nat \<Rightarrow> endpoint option \<Rightarrow> endpoint option \<Rightarrow> bool" where
  "slot_ok p A m k ep0 ep \<longleftrightarrow> k = N m \<and>
     (if N m = 0 then ep = ep0
      else \<exists>e. ep = Some (StdEndpoint e) \<and> AddrPort e = sender (Addr m) \<and>
             getSrcFromControl p A (take (NN m) (cdata (OOB m))) \<lparr>AddrPort = sender (Addr m), src = None\<rparr> = Ret e)"

definition slots_ok ::
  "goos \<Rightarrow> cmsg_abi \<Rightarrow> nat \<Rightarrow> nat \<Rightarrow> message list \<Rightarrow> nat list \<Rightarrow> endpoint option list
    \<Rightarrow> nat list \<Rightarrow> endpoint option list \<Rightarrow> bool" where
  "slots_ok p A i k msgs sizes eps sizes' eps' \<longleftrightarrow>
     length sizes' = length sizes \<and> length eps' = length eps \<and>
     (\<forall>j. i \<le> j \<and> j < i + k \<longrightarrow> slot_ok p A (msgs ! j) (sizes' ! j) (eps ! j) (eps' ! j)) \<and>
     (\<forall>j. j < i \<or> i + k \<le> j \<longrightarrow> sizes' ! j = sizes ! j \<and> eps' ! j = eps ! j)"

lemma getSrcFromControl_returns:
  assumes "cmsg_codec A"
  obtains e where "getSrcFromControl p A bs ep = Ret e" "AddrPort e = AddrPort ep"
proof (cases "p = Linux")
  case True
  obtain e where "getSrc_loop A bs (ClearSrc ep) = Ret e" using cmsg_codec.getSrc_returns [OF assms] by blast
  then show ?thesis using that getSrc_AddrPort True by (fastforce simp: getSrcFromControl_def)
next
  case False
  then show ?thesis using that by (simp add: getSrcFromControl_def)
qed

lemma receive_endpoints_ok:
  assumes A: "cmsg_codec A"
  shows "i + k \<le> length msgs \<Longrightarrow> i + k \<le> length sizes \<Longrightarrow> i + k \<le> length eps \<Longrightarrow>
   \<forall>j. i \<le> j \<and> j < i + k \<and> N (msgs ! j) \<noteq> 0 \<longrightarrow> Addr (msgs ! j) \<noteq> None \<and> NN (msgs ! j) \<le> cb_cap (OOB (msgs ! j)) \<Longrightarrow>
   \<exists>sizes' eps'. receive_endpoints p A k i msgs sizes eps = Ret (sizes', eps') \<and>
     slots_ok p A i k msgs sizes eps sizes' eps'"
proof (induction k arbitrary: i sizes eps)
  case 0
  then show ?case by (auto simp: slots_ok_def)
next
  case (Suc k)
  let ?m = "msgs ! i" and ?sizes = "sizes[i := N (msgs ! i)]"
  have i: "i < length msgs" "i < length sizes" "i < length eps" using Suc.prems by auto
  obtain ep where one: "receive_endpoints p A (Suc k) i msgs sizes eps =
      receive_endpoints p A k (Suc i) msgs ?sizes (eps[i := ep])" and slot: "slot_ok p A ?m (N ?m) (eps ! i) ep"
  proof (cases "N ?m = 0")
    case True
    show ?thesis by (rule that [of "eps ! i"]) (use True i in \<open>simp_all add: slot_ok_def\<close>)
  next
    case False
    then obtain ua where ua: "Addr ?m = Some ua" "NN ?m \<le> cb_cap (OOB ?m)" using Suc.prems(4) by force
    obtain e where e: "getSrcFromControl p A (take (NN ?m) (cdata (OOB ?m))) \<lparr>AddrPort = sender (Addr ?m), src = None\<rparr> = Ret e"
      "AddrPort e = sender (Addr ?m)"
      using getSrcFromControl_returns [OF A] by (metis std_endpoint.select_convs(1))
    show ?thesis
      by (rule that [of "Some (StdEndpoint e)"])
        (use False i ua e in \<open>simp_all add: slot_ok_def sender_def Let_def cb_reslice_def cb_bytes_def\<close>)
  qed
  have "\<forall>j. Suc i \<le> j \<and> j < Suc i + k \<and> N (msgs ! j) \<noteq> 0 \<longrightarrow> Addr (msgs ! j) \<noteq> None \<and> NN (msgs ! j) \<le> cb_cap (OOB (msgs ! j))"
    using Suc.prems(4) by simp
  then obtain sizes' eps' where r: "receive_endpoints p A k (Suc i) msgs ?sizes (eps[i := ep]) = Ret (sizes', eps')"
    "slots_ok p A (Suc i) k msgs ?sizes (eps[i := ep]) sizes' eps'"
    using Suc.IH [of "Suc i" ?sizes "eps[i := ep]"] Suc.prems(1-3) by auto
  have "slot_ok p A (msgs ! j) (sizes' ! j) (eps ! j) (eps' ! j)" if "i \<le> j" "j < i + Suc k" for j
  proof (cases "j = i")
    case True
    then have "sizes' ! j = N ?m" "eps' ! j = ep" using r(2) i by (simp_all add: slots_ok_def)
    then show ?thesis using slot True by simp
  next
    case False
    then show ?thesis using r(2) that by (simp add: slots_ok_def)
  qed
  moreover have "sizes' ! j = sizes ! j \<and> eps' ! j = eps ! j" if "j < i \<or> i + Suc k \<le> j" for j
    using r(2) that by (auto simp: slots_ok_def)
  ultimately show ?case using one r by (auto simp: slots_ok_def)
qed

section \<open>Armed messages\<close>

definition receive_ready ::
  "cmsg_abi \<Rightarrow> std_bind \<Rightarrow> slice list \<Rightarrow> nat list \<Rightarrow> endpoint option list \<Rightarrow> store \<Rightarrow> bool" where
  "receive_ready A s bufs sizes eps h \<longleftrightarrow>
     pools_ok A s \<and> 0 < s_batchSize s \<and> s_batchSize s \<le> length bufs \<and> s_batchSize s \<le> length sizes \<and>
     s_batchSize s \<le> length eps \<and> (\<forall>b \<in> set bufs. sl_wf h b) \<and> distinct (map sarr bufs)"

text \<open>A message with one buffer slot and a control buffer of at least \<open>q\<close> bytes.\<close>

definition roomy :: "nat \<Rightarrow> message \<Rightarrow> bool" where
  "roomy q m \<longleftrightarrow> length (Buffers m) = 1 \<and> cb_wf (OOB m) \<and> q \<le> cb_cap (OOB m)"

definition ctl_size :: "cmsg_abi \<Rightarrow> nat" where
  "ctl_size A = stickyControlSize Linux A + gsoControlSize Linux A"

lemma pooled_roomy: "pooled A m \<longleftrightarrow> roomy (ctl_size A) m"
  by (simp add: pooled_def roomy_def ctl_size_def)

lemma putMessages_roomy:
  "pools_ok A s \<Longrightarrow> length msgs = s_batchSize s \<Longrightarrow> \<forall>m \<in> set msgs. roomy (ctl_size A) m \<Longrightarrow> pools_ok A (putMessages msgs s)"
  by (rule putMessages_ok) (simp_all add: pooled_roomy)

definition armed_ok :: "nat \<Rightarrow> message \<Rightarrow> bool" where
  "armed_ok q m \<longleftrightarrow> roomy q m \<and> N m = 0 \<and> NN m = 0 \<and> clen (OOB m) = cb_cap (OOB m)"

lemma armed_simps [simp]:
  "buffer0 (armed m b) = b" "Buffers (armed m b) = [b]" "N (armed m b) = N m" "NN (armed m b) = NN m"
  by (simp_all add: armed_def buffer0_def)

lemma armed_messages:
  assumes E: "eGOOS E = Linux" and ready: "receive_ready A s bufs sizes eps h"
    and g: "getMessages E A s w = (msgs, s1)"
  obtains ms mp where "arm_messages msgs bufs = Ret ms" "length ms = s_batchSize s" "msgs_ok h ms"
    "\<forall>k < length ms. buffer0 (ms ! k) = bufs ! k" "\<forall>m \<in> set ms. armed_ok (ctl_size A) m \<and> buffer0 m \<in> set bufs"
    "s1 = s\<lparr>s_msgsPool := mp\<rparr>" "pools_ok A s1" "s_batchSize s1 = s_batchSize s"
proof -
  let ?ms = "map2 armed msgs bufs"
  have pools: "pools_ok A s" and len: "s_batchSize s \<le> length bufs"
    and wf: "\<forall>b \<in> set bufs. sl_wf h b" and dist: "distinct (map sarr bufs)"
    using ready by (simp_all add: receive_ready_def)
  note m = getMessages_ok [OF E pools g]
  have arm: "arm_messages msgs bufs = Ret ?ms"
    using m(1,2) len by (intro arm_messages_eq) (auto simp: pooled_def)
  have l: "length ?ms = s_batchSize s" using m(1) len by simp
  have b: "buffer0 (?ms ! k) = bufs ! k" if "k < length ?ms" for k using that by simp
  have "map (\<lambda>m. sarr (buffer0 m)) ?ms = take (length ?ms) (map sarr bufs)"
    using m(1) len by (intro nth_equalityI) simp_all
  then have "distinct (map (\<lambda>m. sarr (buffer0 m)) ?ms)" using dist by (simp only: distinct_take)
  moreover have "\<forall>m \<in> set ?ms. Buffers m \<noteq> [] \<and> sl_wf h (buffer0 m)"
    using wf by (auto dest: set_zip_rightD)
  ultimately have ok: "msgs_ok h ?ms" by (simp add: msgs_ok_def)
  have a: "armed_ok (ctl_size A) (armed m' b')" if "m' \<in> set msgs" for m' b'
    using m(2,3) that by (auto simp: armed_ok_def armed_def roomy_def pooled_roomy cb_wf_def cb_cap_def)
  have "\<forall>m \<in> set ?ms. armed_ok (ctl_size A) m \<and> buffer0 m \<in> set bufs" using a by (auto dest: set_zip_leftD set_zip_rightD)
  moreover obtain mp where mp: "s1 = s\<lparr>s_msgsPool := mp\<rparr>" using m(5) by blast
  ultimately show thesis using that [OF arm l ok _ _ mp m(4)] b mp by simp
qed

text \<open>A message the socket delivers fits the caller's buffers and the control buffers.\<close>

definition rx_fits :: "nat \<Rightarrow> slice list \<Rightarrow> rx_msg \<Rightarrow> bool" where
  "rx_fits q bufs r \<longleftrightarrow> (\<forall>b \<in> set bufs. length (rx_data r) \<le> slen b) \<and>
     length (rx_control r) \<le> q \<and> rx_addr r \<noteq> None"

lemma fits_armed:
  assumes "armed_ok q m" "rx_fits q bufs r" "buffer0 m \<in> set bufs"
  shows "fits r m" "roomy q (filled r m)"
proof -
  have "Buffers m = [buffer0 m]" using assms(1) by (cases "Buffers m") (auto simp: armed_ok_def roomy_def buffer0_def)
  then show "fits r m" using assms by (auto simp: fits_def armed_ok_def roomy_def rx_fits_def)
  then show "roomy q (filled r m)"
    using assms by (auto simp: roomy_def armed_ok_def filled_def fits_def cb_wf_def cb_cap_def)
qed

lemma read_batch:
  assumes rd: "eReadBatch E w c (length ms) = Inr rs" "length rs \<le> length ms"
    and ms: "msgs_ok h ms" "\<forall>m \<in> set ms. armed_ok q m \<and> buffer0 m \<in> set bufs" and rs: "\<forall>r \<in> set rs. rx_fits q bufs r"
  obtains h' ms' w' where "conn_ReadBatch E c ms h w = (Inr (length rs), ms', h', w')"
    "ms' = map2 filled rs ms @ drop (length rs) ms" "length ms' = length ms"
    "\<forall>k < length rs. ms' ! k = filled (rs ! k) (ms ! k) \<and> fits (rs ! k) (ms ! k)"
    "\<forall>m \<in> set ms'. roomy q m" "rx_result rs ms h h'"
proof -
  let ?ms = "map2 filled rs ms @ drop (length rs) ms"
  have in_bufs: "armed_ok q (ms ! k) \<and> buffer0 (ms ! k) \<in> set bufs" if "k < length rs" for k
    using ms(2) rd(2) that by simp
  have f: "fits (rs ! k) (ms ! k)" "roomy q (filled (rs ! k) (ms ! k))" if "k < length rs" for k
    using fits_armed in_bufs [OF that] rs that by (meson nth_mem)+
  obtain h' where h': "rx_all h rs ms = (h', ?ms)" "rx_result rs ms h h'"
    using rx_all_fits [OF rd(2) ms(1)] f by blast
  have len: "length ?ms = length ms" using rd(2) by simp
  have nth: "?ms ! k = filled (rs ! k) (ms ! k)" if "k < length rs" for k
    using that rd(2) by (simp add: nth_append)
  have "roomy q m" if m: "m \<in> set ?ms" for m
  proof -
    consider "m \<in> set (map2 filled rs ms)" | "m \<in> set (drop (length rs) ms)" using m by auto
    then show ?thesis
    proof cases
      case 1
      then obtain k where "k < length rs" "m = filled (rs ! k) (ms ! k)" by (auto simp: set_zip)
      then show ?thesis using f(2) by simp
    next
      case 2
      then show ?thesis using ms(2) by (auto simp: armed_ok_def dest: in_set_dropD)
    qed
  qed
  then show thesis
    using that [of ?ms h' "record_conn (EvReadBatch c (length ms) (Inr (length rs))) w"] rd h' len nth f
    by (simp add: conn_ReadBatch_def)
qed

section \<open>Reading without receive offload\<close>

text \<open>What the caller finds in slot \<open>k\<close>: the datagram, its length and its sender.\<close>

definition got :: "receive_result \<Rightarrow> slice list \<Rightarrow> endpoint option list \<Rightarrow> nat \<Rightarrow> byte list \<Rightarrow> udp_addr option \<Rightarrow> bool" where
  "got R bufs eps k d a \<longleftrightarrow>
     rr_sizes R ! k = length d \<and> take (length d) (sl_read (rr_mem R) (bufs ! k)) = d \<and>
     (if d = [] then rr_eps R ! k = eps ! k
      else \<exists>e. rr_eps R ! k = Some (StdEndpoint e) \<and> AddrPort e = sender a)"

lemma receiveIP_body:
  assumes "receive_ready A s bufs sizes eps h" "getMessages E A s w = (msgs, s1)"
    and "arm_messages msgs bufs = Ret ms"
    and "receive_batch E A br c rx ms h w = Ret (Inr n, ms', h', w')"
    and "receive_endpoints (eGOOS E) A n 0 ms' sizes eps = Ret (sizes', eps')"
  shows "receiveIP E A s br c rx bufs sizes eps h w =
     Ret \<lparr>rr_n = n, rr_err = None, rr_sizes = sizes', rr_eps = eps', rr_bind = putMessages ms' s1, rr_mem = h', rr_world = w'\<rparr>"
proof -
  have "validateReceiveBuffers bufs sizes eps (s_batchSize s) = None"
    using assms(1) by (auto simp: receive_ready_def validateReceiveBuffers_def)
  then show ?thesis using assms(2-) by (simp add: receiveIP_def)
qed

lemma receiveIP_error:
  assumes "receive_ready A s bufs sizes eps h" "getMessages E A s w = (msgs, s1)"
    and "arm_messages msgs bufs = Ret ms"
    and "receive_batch E A br c rx ms h w = Ret (Inl err, ms', h', w')"
  shows "receiveIP E A s br c rx bufs sizes eps h w =
     Ret \<lparr>rr_n = 0, rr_err = Some err, rr_sizes = sizes, rr_eps = eps, rr_bind = putMessages ms' s1, rr_mem = h', rr_world = w'\<rparr>"
proof -
  have "validateReceiveBuffers bufs sizes eps (s_batchSize s) = None"
    using assms(1) by (auto simp: receive_ready_def validateReceiveBuffers_def)
  then show ?thesis using assms(2-) by (simp add: receiveIP_def)
qed

lemma receiveIP_batch:
  assumes E: "eGOOS E = Linux" and A: "cmsg_codec A" and ready: "receive_ready A s bufs sizes eps h"
    and plain: "\<not> rx \<or> s_batchSize s = 1"
    and rd: "eReadBatch E w pc (s_batchSize s) = Inr rs" "length rs \<le> s_batchSize s"
    and rs: "\<forall>r \<in> set rs. rx_fits (ctl_size A) bufs r"
  shows "\<exists>R. receiveIP E A s (Some pc) c rx bufs sizes eps h w = Ret R \<and> rr_err R = None \<and> rr_n R = length rs \<and>
     pools_ok A (rr_bind R) \<and> (\<exists>mp. rr_bind R = s\<lparr>s_msgsPool := mp\<rparr>) \<and>
     (\<forall>k < length rs. got R bufs eps k (rx_data (rs ! k)) (rx_addr (rs ! k)) \<and>
        (rx_data (rs ! k) \<noteq> [] \<longrightarrow> (\<exists>e. rr_eps R ! k = Some (StdEndpoint e) \<and>
           getSrcFromControl Linux A (rx_control (rs ! k)) \<lparr>AddrPort = sender (rx_addr (rs ! k)), src = None\<rparr> = Ret e)))"
proof -
  obtain msgs s1 where g: "getMessages E A s w = (msgs, s1)" by (cases "getMessages E A s w")
  obtain ms mp where ms: "arm_messages msgs bufs = Ret ms" "length ms = s_batchSize s" "msgs_ok h ms"
    "\<forall>k < length ms. buffer0 (ms ! k) = bufs ! k" "\<forall>m \<in> set ms. armed_ok (ctl_size A) m \<and> buffer0 m \<in> set bufs"
    "s1 = s\<lparr>s_msgsPool := mp\<rparr>" "pools_ok A s1" "s_batchSize s1 = s_batchSize s"
    using armed_messages [OF E ready g] .
  have lb: "s_batchSize s \<le> length bufs" "length rs \<le> length sizes" "length rs \<le> length eps"
    using ready rd(2) by (simp_all add: receive_ready_def)
  obtain h' ms' w' where r: "conn_ReadBatch E pc ms h w = (Inr (length rs), ms', h', w')" "length ms' = length ms"
    "\<forall>k < length rs. ms' ! k = filled (rs ! k) (ms ! k) \<and> fits (rs ! k) (ms ! k)"
    "\<forall>m \<in> set ms'. roomy (ctl_size A) m" "rx_result rs ms h h'"
    using read_batch [OF _ _ ms(3,5) rs] rd ms(2) by metis
  have b: "receive_batch E A (Some pc) c rx ms h w = Ret (Inr (length rs), ms', h', w')"
    using plain ms(2) E r(1) by (auto simp: receive_batch_def)
  have f: "NN (ms' ! k) \<le> cb_cap (OOB (ms' ! k))" "take (NN (ms' ! k)) (cdata (OOB (ms' ! k))) = rx_control (rs ! k)"
    "N (ms' ! k) = length (rx_data (rs ! k))" "Addr (ms' ! k) = rx_addr (rs ! k)" if "k < length rs" for k
    using r(3) that filled_control by auto
  have ad: "Addr (ms' ! k) \<noteq> None" if "k < length rs" for k
    using f(4) [OF that] rs that nth_mem [OF that] by (auto simp only: rx_fits_def)
  obtain sizes' eps' where ep: "receive_endpoints Linux A (length rs) 0 ms' sizes eps = Ret (sizes', eps')"
    "slots_ok Linux A 0 (length rs) ms' sizes eps sizes' eps'"
    using receive_endpoints_ok [OF A, of 0 "length rs" ms' sizes eps Linux] f(1) ad lb rd(2) r(2) ms(2) by auto
  let ?R = "\<lparr>rr_n = length rs, rr_err = None, rr_sizes = sizes', rr_eps = eps', rr_bind = putMessages ms' s1, rr_mem = h', rr_world = w'\<rparr>"
  have R: "receiveIP E A s (Some pc) c rx bufs sizes eps h w = Ret ?R"
    by (rule receiveIP_body [OF ready g ms(1) b]) (use ep E in simp)
  have pools: "pools_ok A (putMessages ms' s1)"
    using ms(2,7,8) r(2,4) by (intro putMessages_roomy) auto
  have slot: "got ?R bufs eps k (rx_data (rs ! k)) (rx_addr (rs ! k)) \<and>
        (rx_data (rs ! k) \<noteq> [] \<longrightarrow> (\<exists>e. rr_eps ?R ! k = Some (StdEndpoint e) \<and>
           getSrcFromControl Linux A (rx_control (rs ! k)) \<lparr>AddrPort = sender (rx_addr (rs ! k)), src = None\<rparr> = Ret e))"
    if "k < length rs" for k
  proof -
    have "slot_ok Linux A (ms' ! k) (sizes' ! k) (eps ! k) (eps' ! k)"
      using ep(2) that by (simp add: slots_ok_def)
    moreover have "take (length (rx_data (rs ! k))) (sl_read h' (bufs ! k)) = rx_data (rs ! k)"
      using r(5) that ms(4) rd(2) ms(2) by (simp add: rx_result_def)
    ultimately show ?thesis using f [OF that] by (auto simp: got_def slot_ok_def split: if_splits)
  qed
  have "putMessages ms' s1 = s\<lparr>s_msgsPool := map reset_message ms' # mp\<rparr>"
    by (simp add: ms(6) putMessages_def)
  then show ?thesis using R pools slot by (intro exI [of _ ?R]) auto
qed

section \<open>Reading with receive offload\<close>

text \<open>
  A coalesced message: the segment size the kernel reports in its UDP_GRO control message, 0 when
  there is none, and the datagrams it stands for.
\<close>

definition rx_gro :: "cmsg_abi \<Rightarrow> rx_msg \<Rightarrow> nat" where
  "rx_gro A r = gro_size A (cmsg_list A (rx_control r))"

definition rx_datagrams :: "cmsg_abi \<Rightarrow> rx_msg \<Rightarrow> (byte list \<times> udp_addr option) list" where
  "rx_datagrams A r = map (\<lambda>d. (d, rx_addr r)) (segments (rx_gro A r) (rx_data r))"

definition rx_coalesced :: "cmsg_abi \<Rightarrow> rx_msg \<Rightarrow> bool" where
  "rx_coalesced A r \<longleftrightarrow> rx_data r \<noteq> [] \<and> rx_gro A r \<le> length (rx_data r) \<and>
     length (rx_datagrams A r) \<le> udpSegmentMaxDatagrams \<and>
     (\<exists>cs. cmsg_encodes A (rx_control r) cs \<and> (\<forall>(hdr, d) \<in> set cs. d \<noteq> []))"

definition gro_of :: "cmsg_abi \<Rightarrow> message \<Rightarrow> nat" where
  "gro_of A m = gro_size A (cmsg_list A (take (NN m) (cdata (OOB m))))"

lemma rx_coalesced_size:
  assumes "cmsg_codec A" "rx_coalesced A r"
  shows "getGSOSize Linux A (rx_control r) = Ret (Inr (rx_gro A r))"
proof -
  obtain cs where cs: "cmsg_encodes A (rx_control r) cs" "\<forall>(hdr, d) \<in> set cs. d \<noteq> []"
    using assms(2) by (auto simp: rx_coalesced_def)
  then show ?thesis
    using cmsg_codec.get_encodes [OF assms(1) cs] cmsg_codec.list_encodes [OF assms(1) cs]
    by (simp add: getGSOSize_def linux_tag_def rx_gro_def)
qed

lemma filled_source:
  assumes "cmsg_codec A" "rx_coalesced A r" "fits r m"
  shows "N (filled r m) \<noteq> 0" "source_ok (getGSOSize Linux A) (gro_of A) (filled r m)"
    and "take (length (rx_data r)) (sl_read h (buffer0 m)) = rx_data r \<Longrightarrow>
      datagrams_of (gro_of A) h (filled r m) = rx_datagrams A r"
proof -
  have c: "take (NN (filled r m)) (cdata (OOB (filled r m))) = rx_control r" "NN (filled r m) \<le> cb_cap (OOB (filled r m))"
    using filled_control [OF assms(3)] by auto
  have g: "gro_of A (filled r m) = rx_gro A r" by (simp only: gro_of_def rx_gro_def c(1))
  show "N (filled r m) \<noteq> 0" using assms(2) by (simp add: rx_coalesced_def)
  show "source_ok (getGSOSize Linux A) (gro_of A) (filled r m)"
    unfolding source_ok_def g c(1) using c(2) rx_coalesced_size [OF assms(1,2)] assms(2,3)
    by (simp add: rx_coalesced_def fits_def)
  show "datagrams_of (gro_of A) h (filled r m) = rx_datagrams A r"
    if "take (length (rx_data r)) (sl_read h (buffer0 m)) = rx_data r"
    using that by (simp add: datagrams_of_def rx_datagrams_def g held_def)
qed

lemma sources_filled:
  assumes "\<forall>m \<in> set xs. N m \<noteq> 0" "\<forall>m \<in> set ys. N m = 0"
  shows "sources (length ps) (ps @ xs @ ys) = xs"
  using assms by (cases ys) (simp_all add: sources_def takeWhile_eq_all_conv)

lemma rx_datagrams_size: "(d, a) \<in> set (rx_datagrams A r) \<Longrightarrow> length d \<le> length (rx_data r) \<and> a = rx_addr r"
proof -
  assume "(d, a) \<in> set (rx_datagrams A r)"
  then have d: "d \<in> set (segments (rx_gro A r) (rx_data r))" "a = rx_addr r" by (auto simp: rx_datagrams_def)
  then obtain xs ys where "segments (rx_gro A r) (rx_data r) = xs @ d # ys" by (meson split_list)
  then have "rx_data r = concat xs @ d @ concat ys"
    using concat_segments [of "rx_gro A r" "rx_data r"] by simp
  then show ?thesis using d(2) by simp
qed

lemma rx_datagrams_ok:
  assumes "p \<in> set (rx_datagrams A r)" "rx_coalesced A r" "rx_fits q bufs r"
  shows "fst p \<noteq> []" "snd p \<noteq> None"
proof -
  obtain d where d: "p = (d, rx_addr r)" "d \<in> set (segments (rx_gro A r) (rx_data r))"
    using assms(1) by (auto simp: rx_datagrams_def)
  show "fst p \<noteq> []" using segments_nonempty [OF _ d(2)] d(1) assms(2) by (simp add: rx_coalesced_def)
  show "snd p \<noteq> None" using d(1) assms(3) by (simp add: rx_fits_def)
qed

lemma msgs_ok_same:
  assumes "msgs_ok h ms" "map buffer0 ms' = map buffer0 ms" "\<forall>m \<in> set ms'. Buffers m \<noteq> []"
    and "\<And>b. sl_wf h b \<Longrightarrow> sl_wf h' b"
  shows "msgs_ok h' ms'"
proof -
  have "map sarr (map buffer0 ms') = map sarr (map buffer0 ms)" by (simp only: assms(2))
  moreover have "buffer0 ` set ms' = buffer0 ` set ms" using assms(2) by (metis set_map)
  then have "sl_wf h (buffer0 m)" if "m \<in> set ms'" for m
    using that assms(1) unfolding msgs_ok_def by (metis imageE imageI)
  ultimately show ?thesis using assms(1,3,4) by (simp add: msgs_ok_def comp_def)
qed

lemma roomy_erase: "erase m = erase m' \<Longrightarrow> roomy q m = roomy q m'"
  by (cases m; cases m') (simp add: erase_def roomy_def)

text \<open>The whole of a \<open>receiveIP\<close> read with offload, up to the endpoints.\<close>

definition gro_result ::
  "nat \<Rightarrow> slice list \<Rightarrow> nat \<Rightarrow> (byte list \<times> udp_addr option) list \<Rightarrow> message list \<Rightarrow> store \<Rightarrow> bool" where
  "gro_result q bufs b ds ms h \<longleftrightarrow> length ds \<le> b \<and> length ms = b \<and> (\<forall>m \<in> set ms. roomy q m) \<and>
     (\<forall>t < length ds. N (ms ! t) = length (fst (ds ! t)) \<and> Addr (ms ! t) = snd (ds ! t) \<and>
        take (N (ms ! t)) (sl_read h (bufs ! t)) = fst (ds ! t) \<and> NN (ms ! t) \<le> cb_cap (OOB (ms ! t)))"

text \<open>The messages after a read into those from index \<open>i\<close> on, and what is known of that read.\<close>

definition after_read :: "nat \<Rightarrow> rx_msg list \<Rightarrow> message list \<Rightarrow> message list" where
  "after_read i rs ms = take i ms @ map2 filled rs (drop i ms) @ drop (length rs) (drop i ms)"

definition gro_read :: "cmsg_abi \<Rightarrow> nat \<Rightarrow> slice list \<Rightarrow> nat \<Rightarrow> rx_msg list \<Rightarrow> message list \<Rightarrow> store \<Rightarrow> store \<Rightarrow> bool" where
  "gro_read A q bufs i rs ms h h1 \<longleftrightarrow>
     msgs_ok h ms \<and> (\<forall>j < length ms. buffer0 (ms ! j) = bufs ! j \<and> bufs ! j \<in> set bufs) \<and>
     (\<forall>m \<in> set (drop i ms). armed_ok q m) \<and> (\<forall>m \<in> set ms. NN m \<le> cb_cap (OOB m)) \<and>
     i + length rs \<le> length ms \<and> (\<forall>r \<in> set rs. rx_fits q bufs r \<and> rx_coalesced A r) \<and>
     (\<forall>j < length rs. fits (rs ! j) (drop i ms ! j)) \<and> (\<forall>m \<in> set (after_read i rs ms). roomy q m) \<and>
     rx_result rs (drop i ms) h h1"

lemma gro_readD:
  assumes "gro_read A q bufs i rs ms h h1"
  shows "msgs_ok h ms" "j < length ms \<Longrightarrow> buffer0 (ms ! j) = bufs ! j \<and> bufs ! j \<in> set bufs"
    "m \<in> set (drop i ms) \<Longrightarrow> armed_ok q m" "i + length rs \<le> length ms"
    "r \<in> set rs \<Longrightarrow> rx_fits q bufs r" "r \<in> set rs \<Longrightarrow> rx_coalesced A r"
    "j < length rs \<Longrightarrow> fits (rs ! j) (drop i ms ! j)" "m \<in> set (after_read i rs ms) \<Longrightarrow> roomy q m"
    "rx_result rs (drop i ms) h h1" "m \<in> set ms \<Longrightarrow> NN m \<le> cb_cap (OOB m)"
  using assms unfolding gro_read_def by blast+

lemma gro_read_buffers:
  assumes "gro_read A q bufs i rs ms h h1"
  shows "map buffer0 (after_read i rs ms) = map buffer0 ms" "length (after_read i rs ms) = length ms"
    and "msgs_ok h1 (after_read i rs ms)"
    and "t < length ms \<Longrightarrow> buffer0 (after_read i rs ms ! t) = bufs ! t \<and> bufs ! t \<in> set bufs"
proof -
  note read = gro_readD [OF assms]
  have i: "i + length rs \<le> length ms" by (rule read(4))
  have "map buffer0 (map2 filled rs (drop i ms)) = take (length rs) (map buffer0 (drop i ms))"
    using i by (intro nth_equalityI) auto
  then have "map buffer0 (after_read i rs ms) =
      take i (map buffer0 ms) @ take (length rs) (drop i (map buffer0 ms)) @ drop (length rs) (drop i (map buffer0 ms))"
    by (simp add: after_read_def take_map drop_map)
  then show eq: "map buffer0 (after_read i rs ms) = map buffer0 ms" by (simp only: append_take_drop_id)
  show len: "length (after_read i rs ms) = length ms" using arg_cong [OF eq, of length] by simp
  show "msgs_ok h1 (after_read i rs ms)"
  proof (rule msgs_ok_same [OF read(1) eq])
    show "\<forall>m \<in> set (after_read i rs ms). Buffers m \<noteq> []" using read(8) by (fastforce simp: roomy_def)
    show "sl_wf h b \<Longrightarrow> sl_wf h1 b" for b using read(9) by (simp add: rx_result_def)
  qed
  show "buffer0 (after_read i rs ms ! t) = bufs ! t \<and> bufs ! t \<in> set bufs" if t: "t < length ms"
  proof -
    have "buffer0 (after_read i rs ms ! t) = buffer0 (ms ! t)" using eq t len by (metis nth_map)
    moreover have "buffer0 (ms ! t) = bufs ! t" "bufs ! t \<in> set bufs"
      using read(2) t by blast+
    ultimately show ?thesis by simp
  qed
qed

lemma gro_read_sources:
  assumes A: "cmsg_codec A" and read: "gro_read A q bufs i rs ms h h1"
  shows "sources i (after_read i rs ms) = map2 filled rs (drop i ms)"
    and "m \<in> set (map2 filled rs (drop i ms)) \<Longrightarrow> source_ok (getGSOSize Linux A) (gro_of A) m"
    and "map (datagrams_of (gro_of A) h1) (map2 filled rs (drop i ms)) = map (rx_datagrams A) rs"
    and "m \<in> set (after_read i rs ms) \<Longrightarrow> NN m \<le> cb_cap (OOB m)"
proof -
  let ?tl = "drop i ms" and ?xs = "map2 filled rs (drop i ms)"
  note rd = gro_readD [OF read]
  have i: "i \<le> length ms" "length rs \<le> length ?tl" using rd(4) by simp_all
  have x: "fits (rs ! j) (?tl ! j)" "rx_coalesced A (rs ! j)"
    "take (length (rx_data (rs ! j))) (sl_read h1 (buffer0 (?tl ! j))) = rx_data (rs ! j)" if "j < length rs" for j
    using that rd(7) rd(6) rd(9) by (blast intro: nth_mem, blast intro: nth_mem, simp add: rx_result_def)
  note src = filled_source [OF A]
  have each: "\<exists>j < length rs. m = filled (rs ! j) (?tl ! j)" if "m \<in> set ?xs" for m
    using that by (auto simp: set_zip)
  have "\<forall>m \<in> set (drop (length rs) ?tl). N m = 0"
    using rd(3) in_set_dropD [of _ "length rs" ?tl] unfolding armed_ok_def by blast
  moreover have "\<forall>m \<in> set ?xs. N m \<noteq> 0" using each x src(1) by blast
  ultimately have "sources (length (take i ms)) (after_read i rs ms) = ?xs"
    unfolding after_read_def by (intro sources_filled)
  then show "sources i (after_read i rs ms) = ?xs" using i(1) by simp
  show "m \<in> set ?xs \<Longrightarrow> source_ok (getGSOSize Linux A) (gro_of A) m" using each x src(2) by blast
  show "map (datagrams_of (gro_of A) h1) ?xs = map (rx_datagrams A) rs"
    using i x src(3) by (intro nth_equalityI) auto
  assume "m \<in> set (after_read i rs ms)"
  then have "m \<in> set ?xs \<or> m \<in> set ms" by (auto simp: after_read_def dest: in_set_takeD in_set_dropD)
  then show "NN m \<le> cb_cap (OOB m)"
  proof
    assume "m \<in> set ?xs"
    then show ?thesis using each x(1) filled_control by blast
  qed (rule rd(10))
qed

lemma gro_room:
  assumes read: "gro_read A q bufs i rs ms h h1" and ds: "ds = concat (map (rx_datagrams A) rs)" "length ds \<le> length ms"
  shows "room (after_read i rs ms) 0 ds"
  unfolding room_def
proof (intro allI impI)
  fix t assume t: "t < length ds"
  obtain d a where da: "ds ! t = (d, a)" by (cases "ds ! t")
  then have "(d, a) \<in> set ds" using t by (metis nth_mem)
  then obtain r where r: "r \<in> set rs" "(d, a) \<in> set (rx_datagrams A r)" by (auto simp: ds(1))
  then have "length d \<le> length (rx_data r)" using rx_datagrams_size by blast
  moreover have b: "buffer0 (after_read i rs ms ! t) = bufs ! t \<and> bufs ! t \<in> set bufs"
    using gro_read_buffers(4) [OF read] t ds(2) by simp
  moreover have "rx_fits q bufs r" using read r(1) by (rule gro_readD)
  then have "length (rx_data r) \<le> slen (bufs ! t)" using b by (simp add: rx_fits_def)
  ultimately show "length (fst (ds ! t)) \<le> slen (buffer0 (after_read i rs ms ! (0 + t)))" using da by simp
qed

lemma gro_split:
  assumes A: "cmsg_codec A" and b: "udpSegmentMaxDatagrams * k \<le> length ms" "length rs \<le> k"
    and read: "gro_read A q bufs (length ms - k) rs ms h h1"
    and ds: "ds = concat (map (rx_datagrams A) rs)"
  shows "\<exists>ms' h'. splitCoalescedMessages (after_read (length ms - k) rs ms) (length ms - k) (getGSOSize Linux A) h1 =
      Ret (None, length ds, ms', h') \<and> gro_result q bufs (length ms) ds ms' h'"
proof -
  let ?at = "length ms - k"
  let ?xs = "map2 filled rs (drop ?at ms)" and ?ms = "after_read ?at rs ms"
  have k: "k \<le> length ms" using b by (simp add: udpSegmentMaxDatagrams_def)
  note src = gro_read_sources [OF A read] and buf = gro_read_buffers [OF read]
  have ds': "ds = datagrams (gro_of A) h1 ?xs" by (simp only: datagrams_def src(3) ds)
  have few: "\<forall>m \<in> set ?xs. length (datagrams_of (gro_of A) h1 m) \<le> Suc 63"
  proof
    fix m assume "m \<in> set ?xs"
    then have "datagrams_of (gro_of A) h1 m \<in> set (map (rx_datagrams A) rs)" by (metis src(3) image_eqI set_map)
    then show "length (datagrams_of (gro_of A) h1 m) \<le> Suc 63"
      using gro_readD(6) [OF read] by (auto simp: rx_coalesced_def udpSegmentMaxDatagrams_def)
  qed
  have ov: "no_overflow (gro_of A) h1 ?at 0 ?xs"
    using no_overflow_max [OF few, of k "length ms"] b by (simp add: udpSegmentMaxDatagrams_def)
  have tot: "length ds \<le> length ms"
    using length_datagrams_le [OF few] b k unfolding ds' by (simp add: udpSegmentMaxDatagrams_def)
  have "split_all_result ?ms h1 0 ds (split_loop (getGSOSize Linux A) k ?at 0 ?ms h1)"
    by (rule split_loop_all [OF buf(3) _ _ _ _ gro_room [OF read ds tot]])
      (use k buf(2) src(1,2) ov ds' in simp_all)
  then obtain ms' h' where sp: "split_loop (getGSOSize Linux A) k ?at 0 ?ms h1 = Ret (None, length ds, ms', h')"
    "length ms' = length ms" "delivered ?ms 0 ds ms' h'" "map erase ms' = map erase ?ms"
    unfolding split_all_result_def using buf(2) by auto
  have "roomy q m" if "m \<in> set ms'" for m
  proof -
    have "erase m \<in> set (map erase ?ms)" using that sp(4) by (metis image_eqI set_map)
    then obtain m' where "m' \<in> set ?ms" "erase m = erase m'" by auto
    then show ?thesis using gro_readD(8) [OF read] roomy_erase by blast
  qed
  moreover have "N (ms' ! t) = length (fst (ds ! t)) \<and> Addr (ms' ! t) = snd (ds ! t) \<and>
        take (N (ms' ! t)) (sl_read h' (bufs ! t)) = fst (ds ! t) \<and> NN (ms' ! t) \<le> cb_cap (OOB (ms' ! t))"
    if "t < length ds" for t
  proof -
    have d: "ms' ! t = (?ms ! t)\<lparr>N := length (fst (ds ! t)), Addr := snd (ds ! t)\<rparr>" "held h' (ms' ! t) = fst (ds ! t)"
      using sp(3) that unfolding delivered_def add_0 by blast+
    have "?ms ! t \<in> set ?ms" using that tot buf(2) by simp
    then show ?thesis using d src(4) [of "?ms ! t"] buf(4) [of t] that tot by (simp add: held_def)
  qed
  ultimately have "gro_result q bufs (length ms) ds ms' h'" unfolding gro_result_def using sp(2) tot by blast
  moreover have "length ?ms - ?at = k" using buf(2) k by simp
  ultimately show ?thesis using sp(1) by (auto simp: splitCoalescedMessages_def)
qed

lemma receiveIP_gro:
  assumes E: "eGOOS E = Linux" and A: "cmsg_codec A" and ready: "receive_ready A s bufs sizes eps h"
    and gro: "udpSegmentMaxDatagrams dvd s_batchSize s"
    and rd: "eReadBatch E w pc (s_batchSize s div udpSegmentMaxDatagrams) = Inr rs"
      "length rs \<le> s_batchSize s div udpSegmentMaxDatagrams"
    and rs: "\<forall>r \<in> set rs. rx_fits (ctl_size A) bufs r \<and> rx_coalesced A r"
    and ds: "ds = concat (map (rx_datagrams A) rs)"
  shows "\<exists>R. receiveIP E A s (Some pc) c True bufs sizes eps h w = Ret R \<and> rr_err R = None \<and> rr_n R = length ds \<and>
     pools_ok A (rr_bind R) \<and> (\<exists>mp. rr_bind R = s\<lparr>s_msgsPool := mp\<rparr>) \<and>
     (\<forall>k < length ds. got R bufs eps k (fst (ds ! k)) (snd (ds ! k)))"
proof -
  let ?k = "s_batchSize s div udpSegmentMaxDatagrams" and ?b = "s_batchSize s"
  obtain msgs s1 where g: "getMessages E A s w = (msgs, s1)" by (cases "getMessages E A s w")
  obtain ms mp where ms: "arm_messages msgs bufs = Ret ms" "length ms = ?b" "msgs_ok h ms"
    "\<forall>j < length ms. buffer0 (ms ! j) = bufs ! j" "\<forall>m \<in> set ms. armed_ok (ctl_size A) m \<and> buffer0 m \<in> set bufs"
    "s1 = s\<lparr>s_msgsPool := mp\<rparr>" "pools_ok A s1" "s_batchSize s1 = ?b"
    using armed_messages [OF E ready g] .
  have pos: "0 < ?b" and lb: "?b \<le> length sizes" "?b \<le> length eps" "?b \<le> length bufs" using ready by (simp_all add: receive_ready_def)
  have k: "udpSegmentMaxDatagrams * ?k = ?b" "groReadBatchSize ?b = ?k" "?b > 1" "?k \<le> ?b"
    using gro pos groReadBatchSize_dvd [OF gro pos] by (auto simp: udpSegmentMaxDatagrams_def)
  let ?tl = "drop (?b - ?k) ms"
  have tl: "length ?tl = ?k" "\<forall>m \<in> set ?tl. armed_ok (ctl_size A) m \<and> buffer0 m \<in> set bufs" "msgs_ok h ?tl"
    using k(4) ms(2,3,5) by (auto simp: msgs_ok_def distinct_drop drop_map [symmetric] dest: in_set_dropD)
  have rsf: "\<forall>r \<in> set rs. rx_fits (ctl_size A) bufs r" using rs by blast
  obtain h1 tl' w1 where r: "conn_ReadBatch E pc ?tl h w = (Inr (length rs), tl', h1, w1)"
    "tl' = map2 filled rs ?tl @ drop (length rs) ?tl" "\<forall>j < length rs. fits (rs ! j) (?tl ! j)"
    "\<forall>m \<in> set tl'. roomy (ctl_size A) m" "rx_result rs ?tl h h1"
    using read_batch [OF _ _ tl(3,2) rsf, of E w pc] rd tl(1) by metis
  have after: "take (?b - ?k) ms @ tl' = after_read (?b - ?k) rs ms" by (simp only: after_read_def r(2))
  have "\<forall>m \<in> set (after_read (?b - ?k) rs ms). roomy (ctl_size A) m"
    unfolding after [symmetric] using r(4) ms(5) by (auto simp: armed_ok_def dest: in_set_takeD)
  then have read: "gro_read A (ctl_size A) bufs (length ms - ?k) rs ms h h1"
    unfolding gro_read_def using ms rs r(3,5) rd(2) k(4) tl(2) lb(3) by (auto simp: armed_ok_def)
  obtain ms' h' where sp: "splitCoalescedMessages (after_read (?b - ?k) rs ms) (?b - ?k) (getGSOSize Linux A) h1 =
      Ret (None, length ds, ms', h')" and res: "gro_result (ctl_size A) bufs ?b ds ms' h'"
    using gro_split [OF A _ rd(2) read ds] k(1) ms(2) by auto
  have b: "receive_batch E A (Some pc) c True ms h w = Ret (Inr (length ds), ms', h', w1)"
    using E k(2,3) ms(2) r(1) after sp by (simp add: receive_batch_def Let_def)
  have ad: "snd (ds ! t) \<noteq> None" "fst (ds ! t) \<noteq> []" if "t < length ds" for t
  proof -
    have "ds ! t \<in> set ds" using that by simp
    then obtain r' where "r' \<in> set rs" "ds ! t \<in> set (rx_datagrams A r')" unfolding ds by auto
    then show "snd (ds ! t) \<noteq> None" "fst (ds ! t) \<noteq> []" using rs rx_datagrams_ok by blast+
  qed
  obtain sizes' eps' where ep: "receive_endpoints Linux A (length ds) 0 ms' sizes eps = Ret (sizes', eps')"
    "slots_ok Linux A 0 (length ds) ms' sizes eps sizes' eps'"
    using receive_endpoints_ok [OF A, of 0 "length ds" ms' sizes eps Linux] res ad lb by (auto simp: gro_result_def)
  let ?R = "\<lparr>rr_n = length ds, rr_err = None, rr_sizes = sizes', rr_eps = eps', rr_bind = putMessages ms' s1, rr_mem = h', rr_world = w1\<rparr>"
  have R: "receiveIP E A s (Some pc) c True bufs sizes eps h w = Ret ?R"
    by (rule receiveIP_body [OF ready g ms(1) b]) (use ep E in simp)
  have "pools_ok A (putMessages ms' s1)" using ms(7,8) res by (intro putMessages_roomy) (auto simp: gro_result_def)
  moreover have "got ?R bufs eps t (fst (ds ! t)) (snd (ds ! t))" if "t < length ds" for t
  proof -
    have "slot_ok Linux A (ms' ! t) (sizes' ! t) (eps ! t) (eps' ! t)" using ep(2) that by (simp add: slots_ok_def)
    then show ?thesis using res ad(2) [OF that] that by (auto simp: got_def slot_ok_def gro_result_def)
  qed
  moreover have "putMessages ms' s1 = s\<lparr>s_msgsPool := map reset_message ms' # mp\<rparr>"
    by (simp add: ms(6) putMessages_def)
  ultimately show ?thesis using R by (intro exI [of _ ?R]) auto
qed

section \<open>Reading one datagram\<close>

lemma read_msg:
  assumes rd: "eReadMsgUDP E w c = Inr r" and m: "armed_ok (ctl_size A) m" "buffer0 m \<in> set bufs" and r: "rx_fits (ctl_size A) bufs r"
  shows "\<exists>w'. conn_ReadMsgUDP E c m (buffer0 m) h w =
     (None, filled r m, sl_write h (sarr (buffer0 m)) (soff (buffer0 m)) (rx_data r), w')"
proof -
  obtain ua where ua: "rx_addr r = Some ua" using r by (auto simp: rx_fits_def)
  note f = fits_armed [OF m(1) r m(2)]
  have b: "m\<lparr>Buffers := [buffer0 m]\<rparr> = m" using f(1) by (simp add: fits_def)
  have eq: "r\<lparr>rx_addr := Some ua\<rparr> = r" using ua by (cases r) simp
  have into: "rx_into h (r\<lparr>rx_addr := Some ua\<rparr>) (m\<lparr>Buffers := [buffer0 m]\<rparr>) =
      (sl_write h (sarr (buffer0 m)) (soff (buffer0 m)) (rx_data r), filled r m)"
    unfolding eq b by (rule rx_into_fits [OF f(1)])
  have "(filled r m)\<lparr>Buffers := Buffers m\<rparr> = filled r m" by (cases m) (simp add: filled_def)
  then show ?thesis using rd ua into by (simp add: conn_ReadMsgUDP_def)
qed

lemma receiveIP_single:
  assumes E: "eGOOS E = Linux" and A: "cmsg_codec A" and ready: "receive_ready A s bufs sizes eps h"
    and rd: "eReadMsgUDP E w c = Inr r" and r: "rx_fits (ctl_size A) bufs r"
  shows "\<exists>R. receiveIP E A s None c rx bufs sizes eps h w = Ret R \<and> rr_err R = None \<and> rr_n R = 1 \<and>
     pools_ok A (rr_bind R) \<and> (\<exists>mp. rr_bind R = s\<lparr>s_msgsPool := mp\<rparr>) \<and> got R bufs eps 0 (rx_data r) (rx_addr r)"
proof -
  obtain msgs s1 where g: "getMessages E A s w = (msgs, s1)" by (cases "getMessages E A s w")
  obtain ms mp where ms: "arm_messages msgs bufs = Ret ms" "length ms = s_batchSize s" "msgs_ok h ms"
    "\<forall>j < length ms. buffer0 (ms ! j) = bufs ! j" "\<forall>m \<in> set ms. armed_ok (ctl_size A) m \<and> buffer0 m \<in> set bufs"
    "s1 = s\<lparr>s_msgsPool := mp\<rparr>" "pools_ok A s1" "s_batchSize s1 = s_batchSize s"
    using armed_messages [OF E ready g] .
  have pos: "0 < length ms" "0 < length sizes" "0 < length eps" using ready ms(2) by (auto simp: receive_ready_def)
  obtain m ms0 where m0: "ms = m # ms0" using pos(1) by (cases ms) auto
  let ?b = "bufs ! 0" and ?m = "filled r m"
  have m: "armed_ok (ctl_size A) m" "buffer0 m \<in> set bufs" "buffer0 m = ?b" using ms(4,5) m0 by auto
  let ?h = "sl_write h (sarr ?b) (soff ?b) (rx_data r)"
  note f = fits_armed [OF m(1) r m(2)]
  have one: "take (length (rx_data r)) (sl_read ?h ?b) = rx_data r"
    using msgs_ok_filled(3) [of h m ms0 r] ms(3) f(1) m0 m(3) by simp
  obtain w' where "conn_ReadMsgUDP E c m ?b h w = (None, ?m, ?h, w')" using read_msg [OF rd m(1,2) r] m(3) by auto
  moreover have "Buffers m = [?b]" using f(1) m(3) by (simp add: fits_def)
  ultimately have b: "receive_batch E A None c rx ms h w = Ret (Inr 1, ?m # ms0, ?h, w')"
    by (simp add: receive_batch_def m0 idx_def)
  have fc: "take (NN ?m) (cdata (OOB ?m)) = rx_control r" "NN ?m \<le> cb_cap (OOB ?m)" "Addr ?m \<noteq> None"
    using filled_control [OF f(1)] r by (auto simp: rx_fits_def)
  obtain sizes' eps' where ep: "receive_endpoints Linux A 1 0 (?m # ms0) sizes eps = Ret (sizes', eps')"
    "slots_ok Linux A 0 1 (?m # ms0) sizes eps sizes' eps'"
    using receive_endpoints_ok [OF A, of 0 1 "?m # ms0" sizes eps Linux] fc(2,3) pos by auto
  let ?R = "\<lparr>rr_n = 1, rr_err = None, rr_sizes = sizes', rr_eps = eps', rr_bind = putMessages (?m # ms0) s1, rr_mem = ?h, rr_world = w'\<rparr>"
  have R: "receiveIP E A s None c rx bufs sizes eps h w = Ret ?R"
    by (rule receiveIP_body [OF ready g ms(1) b]) (use ep E in simp)
  have "pools_ok A (putMessages (?m # ms0) s1)"
    using ms(2,5,7,8) m0 f(2) by (intro putMessages_roomy) (auto simp: armed_ok_def)
  moreover have "got ?R bufs eps 0 (rx_data r) (rx_addr r)"
    using ep(2) one by (auto simp: got_def slots_ok_def slot_ok_def)
  moreover have "putMessages (?m # ms0) s1 = s\<lparr>s_msgsPool := map reset_message (?m # ms0) # mp\<rparr>"
    by (simp add: ms(6) putMessages_def)
  ultimately show ?thesis using R by (intro exI [of _ ?R]) auto
qed

section \<open>The receive functions\<close>

text \<open>The bind still has the connection the receive function was made for.\<close>

definition receiving :: "std_bind \<Rightarrow> receive_func \<Rightarrow> world \<Rightarrow> bool" where
  "receiving s fn w \<longleftrightarrow> \<not> networkDown (s_network s) w \<and>
     (case fn of ReceiveIPv4 _ _ _ \<Rightarrow> s_ipv4 s \<noteq> None | ReceiveIPv6 _ _ _ \<Rightarrow> s_ipv6 s \<noteq> None)"

lemma receive_with_receiving:
  assumes "receiving s fn w" "fn = ReceiveIPv4 pc c rx \<or> fn = ReceiveIPv6 pc c rx"
  shows "receive_with E A s fn bufs sizes eps h w = receiveIP E A s pc c rx bufs sizes eps h w"
  using assms by (auto simp: receiving_def receive_with_def makeReceiveIPv4_def makeReceiveIPv6_def)

lemma receive_with_not_receiving:
  "\<not> receiving s fn w \<Longrightarrow> receive_with E A s fn bufs sizes eps h w = receive_closed s sizes eps h w"
  by (auto simp: receiving_def receive_with_def makeReceiveIPv4_def makeReceiveIPv6_def split: receive_func.splits)

text \<open>
  C13. Receive offload loses nothing: when the batch size is a multiple of 64, the messages the
  kernel coalesced from at most 64 datagrams each are handed out as those datagrams, in order, each
  in its own buffer with its length and the unmapped address of its sender, and the pooled
  messages go back intact.
\<close>

theorem receive_gro_delivers:
  assumes "eGOOS E = Linux" "cmsg_codec A" "receive_ready A s bufs sizes eps h"
    and "receiving s fn w" "fn = ReceiveIPv4 (Some pc) c True \<or> fn = ReceiveIPv6 (Some pc) c True"
    and "udpSegmentMaxDatagrams dvd s_batchSize s"
    and "eReadBatch E w pc (s_batchSize s div udpSegmentMaxDatagrams) = Inr rs"
    and "length rs \<le> s_batchSize s div udpSegmentMaxDatagrams"
    and "\<forall>r \<in> set rs. rx_fits (ctl_size A) bufs r \<and> rx_coalesced A r"
    and "ds = concat (map (rx_datagrams A) rs)"
  shows "\<exists>R. receive_with E A s fn bufs sizes eps h w = Ret R \<and> rr_err R = None \<and> rr_n R = length ds \<and>
     pools_ok A (rr_bind R) \<and> (\<forall>k < length ds. got R bufs eps k (fst (ds ! k)) (snd (ds ! k)))"
  using receiveIP_gro [OF assms(1-3,6-10), of c] unfolding receive_with_receiving [OF assms(4,5)] by blast

text \<open>
  C14. Without receive offload every message of the batch is handed out as one datagram, with its
  length and sender, and with the source address its control data carries; an empty datagram
  leaves the endpoint of its slot alone.
\<close>

theorem receive_batch_delivers:
  assumes "eGOOS E = Linux" "cmsg_codec A" "receive_ready A s bufs sizes eps h"
    and "receiving s fn w" "fn = ReceiveIPv4 (Some pc) c rx \<or> fn = ReceiveIPv6 (Some pc) c rx"
    and "\<not> rx \<or> s_batchSize s = 1"
    and "eReadBatch E w pc (s_batchSize s) = Inr rs" "length rs \<le> s_batchSize s"
    and "\<forall>r \<in> set rs. rx_fits (ctl_size A) bufs r"
  shows "\<exists>R. receive_with E A s fn bufs sizes eps h w = Ret R \<and> rr_err R = None \<and> rr_n R = length rs \<and>
     pools_ok A (rr_bind R) \<and>
     (\<forall>k < length rs. got R bufs eps k (rx_data (rs ! k)) (rx_addr (rs ! k)) \<and>
        (rx_data (rs ! k) \<noteq> [] \<longrightarrow> (\<exists>e. rr_eps R ! k = Some (StdEndpoint e) \<and>
           getSrcFromControl Linux A (rx_control (rs ! k)) \<lparr>AddrPort = sender (rx_addr (rs ! k)), src = None\<rparr> = Ret e)))"
  using receiveIP_batch [OF assms(1-3,6-9), of c] unfolding receive_with_receiving [OF assms(4,5)] by blast

text \<open>
  C15. On a connection that is not native one datagram is read per call, into the first buffer.
\<close>

theorem receive_single_delivers:
  assumes "eGOOS E = Linux" "cmsg_codec A" "receive_ready A s bufs sizes eps h"
    and "receiving s fn w" "fn = ReceiveIPv4 None c rx \<or> fn = ReceiveIPv6 None c rx"
    and "eReadMsgUDP E w c = Inr r" "rx_fits (ctl_size A) bufs r"
  shows "\<exists>R. receive_with E A s fn bufs sizes eps h w = Ret R \<and> rr_err R = None \<and> rr_n R = 1 \<and>
     pools_ok A (rr_bind R) \<and> got R bufs eps 0 (rx_data r) (rx_addr r)"
  using receiveIP_single [OF assms(1-3,6,7), of rx] unfolding receive_with_receiving [OF assms(4,5)] by blast

text \<open>
  A receive function of a bind that was closed returns \<open>net.ErrClosed\<close>, touches neither the
  network nor the caller's slices, and leaves the bind as it is, so a receive loop ends.
\<close>

lemma receive_after_close:
  assumes "Close E s w = (err, s', w')"
  shows "receive_with E A s' fn bufs sizes eps h w' =
     Ret \<lparr>rr_n = 0, rr_err = Some NetErrClosed, rr_sizes = sizes, rr_eps = eps, rr_bind = s', rr_mem = h, rr_world = w'\<rparr>"
proof -
  have "s_ipv4 s' = None" "s_ipv6 s' = None" using assms by (auto simp: Close_def split: prod.splits)
  then have "\<not> receiving s' fn w'" by (auto simp: receiving_def split: receive_func.splits)
  then show ?thesis by (simp add: receive_with_not_receiving receive_closed_def)
qed

lemma read_error:
  assumes E: "eGOOS E = Linux" and ready: "receive_ready A s bufs sizes eps h"
    and rd: "case pc of None \<Rightarrow> eReadMsgUDP E w c = Inl err | Some d \<Rightarrow> \<forall>n. eReadBatch E w d n = Inl err"
    and g: "getMessages E A s w = (msgs, s1)" and ms: "arm_messages msgs bufs = Ret ms" "length ms = s_batchSize s"
      "\<forall>m \<in> set ms. armed_ok (ctl_size A) m \<and> buffer0 m \<in> set bufs"
  shows "\<exists>ms' w'. receive_batch E A pc c rx ms h w = Ret (Inl err, ms', h, w') \<and> length ms' = length ms \<and>
     (\<forall>m \<in> set ms'. roomy (ctl_size A) m)"
proof -
  have pos: "0 < length ms" using ready ms(2) by (simp add: receive_ready_def)
  have p: "roomy (ctl_size A) m" if "m \<in> set ms" for m using ms(3) that by (simp add: armed_ok_def)
  show ?thesis
  proof (cases "pc = None")
    case True
    obtain m ms0 where m0: "ms = m # ms0" using pos by (cases ms) auto
    have "roomy (ctl_size A) m" using p m0 by simp
    then obtain b where "Buffers m = [b]" by (cases "Buffers m") (auto simp: roomy_def)
    moreover have "roomy (ctl_size A) (m\<lparr>N := 0, NN := 0, Addr := Some nil_udp_addr\<rparr>)" using \<open>roomy (ctl_size A) m\<close> by (simp add: roomy_def)
    ultimately show ?thesis using True rd p m0 by (simp add: receive_batch_def conn_ReadMsgUDP_def idx_def)
  next
    case False
    then show ?thesis using rd E p by (auto simp: receive_batch_def conn_ReadBatch_def Let_def)
  qed
qed


end
