(* ===== verification/Batching_Coalesce.thy ===== *)
theory Batching_Coalesce
  imports Batching_Conn Receive_Correct
begin

text \<open>
  The scatter-gather \<open>coalesceMessages\<close> of \<open>batching_conn_linux.go\<close> implements the same batching rule
  as the copying one, without its limit on the capacity of the first buffer: message \<open>k\<close> lists the
  buffers of batch \<open>k\<close>.
\<close>

definition sg_msg :: "setGSOFunc \<Rightarrow> udp_addr \<Rightarrow> bool \<Rightarrow> message \<Rightarrow> slice list \<Rightarrow> message" where
  "sg_msg setGSO addr sealed m g =
     m\<lparr>Buffers := g,
       OOB := (let c = (OOB m)\<lparr>clen := 0\<rparr> in if sealed \<and> 1 < length g then set_oob setGSO c (slen (hd g)) else c),
       Addr := Some addr\<rparr>"

definition sg_msgs ::
  "setGSOFunc \<Rightarrow> udp_addr \<Rightarrow> message list \<Rightarrow> slice list list \<Rightarrow> slice list \<Rightarrow> bool \<Rightarrow> message list \<Rightarrow> bool" where
  "sg_msgs setGSO addr msgs0 done cur sealed msgs \<longleftrightarrow>
     length msgs = length msgs0 \<and> length done < length msgs0 \<and>
     (\<forall>k < length done. msgs ! k = sg_msg setGSO addr True (msgs0 ! k) (done ! k)) \<and>
     msgs ! length done = sg_msg setGSO addr sealed (msgs0 ! length done) cur \<and>
     (\<forall>k. length done < k \<and> k < length msgs0 \<longrightarrow> msgs ! k = msgs0 ! k)"

definition sg_rel ::
  "setGSOFunc \<Rightarrow> udp_addr \<Rightarrow> message list \<Rightarrow> slice list list \<Rightarrow> slice list \<Rightarrow> bool \<Rightarrow> coalesce_state \<Rightarrow> bool" where
  "sg_rel setGSO addr msgs0 done cur sealed st \<longleftrightarrow>
     sg_msgs setGSO addr msgs0 done cur sealed (co_msgs st) \<and> counters_rel cur st \<and> co_n st = Suc (length done)"

text \<open>What the call leaves: message \<open>k\<close> gathers batch \<open>k\<close>, the others are untouched.\<close>

definition sg_batches :: "setGSOFunc \<Rightarrow> udp_addr \<Rightarrow> message list \<Rightarrow> slice list list \<Rightarrow> message list \<Rightarrow> bool" where
  "sg_batches setGSO addr msgs gs msgs' \<longleftrightarrow>
     length msgs' = length msgs \<and> length gs \<le> length msgs \<and>
     (\<forall>k < length gs. msgs' ! k = sg_msg setGSO addr True (msgs ! k) (gs ! k)) \<and>
     (\<forall>k. length gs \<le> k \<and> k < length msgs \<longrightarrow> msgs' ! k = msgs ! k)"

lemma sg_msg_simps [simp]:
  "Buffers (sg_msg setGSO addr sealed m g) = g" "Addr (sg_msg setGSO addr sealed m g) = Some addr"
  by (simp_all add: sg_msg_def)

lemma sg_msg_single: "length g \<le> 1 \<Longrightarrow> sg_msg setGSO addr sealed m g = sg_msg setGSO addr sealed' m g"
  by (simp add: sg_msg_def Let_def)

lemma sg_rel_single:
  "length cur \<le> 1 \<Longrightarrow> sg_rel setGSO addr msgs0 done cur sealed st \<Longrightarrow> sg_rel setGSO addr msgs0 done cur sealed' st"
  by (simp add: sg_rel_def sg_msgs_def sg_msg_single [of cur setGSO addr sealed' _ sealed])

lemma sg_rel_last:
  assumes "sg_rel setGSO addr msgs0 done cur sealed st"
  shows "at_base st = Ret (sg_msg setGSO addr sealed (msgs0 ! length done) cur)"
    and "length done < length msgs0" "length (co_msgs st) = length msgs0" "co_n st = Suc (length done)"
    and "cur \<noteq> []" "co_gsoSize st = slen (hd cur)" "co_dgramCnt st = length cur"
    and "co_endBatch st \<longleftrightarrow> slen (last cur) < slen (hd cur)"
  using assms by (auto simp: sg_rel_def sg_msgs_def counters_rel_def at_base_def)

context gso_setter
begin

lemma sg_close:
  assumes rel: "sg_rel setGSO addr msgs0 done cur False st" and ready: "pool_ready msgs0" and several: "1 < length cur"
  obtains st' where "set_gso_at_base setGSO st = Ret st'" "sg_rel setGSO addr msgs0 done cur True st'"
    "co_dgramCnt st' = co_dgramCnt st" "co_gsoSize st' = co_gsoSize st" "co_endBatch st' = co_endBatch st"
proof -
  let ?o = "msgs0 ! length done"
  let ?m = "sg_msg setGSO addr False ?o cur" and ?m' = "sg_msg setGSO addr True ?o cur"
  let ?st = "st\<lparr>co_msgs := (co_msgs st)[length done := ?m']\<rparr>"
  note l = sg_rel_last [OF rel]
  have "cb_wf (OOB ?m)" by (simp add: sg_msg_def cb_wf_def Let_def)
  then have "setGSO (OOB ?m) (of_nat (slen (hd cur))) = Ret (set_oob setGSO (OOB ?m) (slen (hd cur)))"
    by (rule set_oob_eq)
  moreover have "?m\<lparr>OOB := set_oob setGSO (OOB ?m) (slen (hd cur))\<rparr> = ?m'"
    using several by (simp add: sg_msg_def Let_def)
  ultimately have "set_gso_at_base setGSO st = Ret ?st" using l by (simp add: set_gso_at_base_def)
  moreover have "sg_rel setGSO addr msgs0 done cur True ?st"
    using rel l by (auto simp: sg_rel_def sg_msgs_def counters_rel_def nth_list_update)
  ultimately show thesis by (intro that [of ?st]) auto
qed

lemma sg_next:
  assumes rel: "sg_rel setGSO addr msgs0 done cur False st" and ready: "pool_ready msgs0"
    and one: "\<forall>m \<in> set msgs0. length (Buffers m) = 1" and room: "Suc (length done) < length msgs0"
  obtains st' where "sg_start setGSO addr b st = Ret st'" "sg_rel setGSO addr msgs0 (done @ [cur]) [b] False st'"
proof -
  have cnt: "co_dgramCnt st = length cur" by (rule sg_rel_last [OF rel])
  obtain st1 where st1: "(if co_dgramCnt st > 1 then set_gso_at_base setGSO st else Ret st) = Ret st1"
    and rel1: "sg_rel setGSO addr msgs0 done cur True st1"
  proof (cases "1 < length cur")
    case True
    then show thesis using sg_close [OF rel ready] that cnt by auto
  next
    case False
    then show thesis using that [of st] cnt sg_rel_single [OF _ rel] by simp
  qed
  let ?k = "Suc (length done)" and ?m = "msgs0 ! Suc (length done)"
  have k: "co_n st1 = ?k" "?k < length (co_msgs st1)" "co_msgs st1 ! ?k = ?m"
    using rel1 room by (auto simp: sg_rel_def sg_msgs_def)
  have "length (Buffers ?m) = 1" using one room by simp
  then obtain x where x: "Buffers ?m = [x]" by (cases "Buffers ?m") auto
  let ?m' = "sg_msg setGSO addr False ?m [b]"
  have eq: "?m\<lparr>OOB := (OOB ?m)\<lparr>clen := 0\<rparr>, Buffers := [b], Addr := Some addr\<rparr> = ?m'"
    by (simp add: sg_msg_def)
  let ?st = "st1\<lparr>co_msgs := (co_msgs st1)[?k := ?m'], co_n := Suc ?k, co_gsoSize := slen b, co_dgramCnt := 1, co_endBatch := False\<rparr>"
  have "sg_start setGSO addr b st = Ret ?st"
    unfolding sg_start_def st1 using k x eq by simp
  moreover have "sg_rel setGSO addr msgs0 (done @ [cur]) [b] False ?st"
    using rel1 room k by (auto simp: sg_rel_def sg_msgs_def counters_rel_def nth_append nth_list_update less_Suc_eq)
  ultimately show thesis by (rule that)
qed

lemma sg_join:
  assumes rel: "sg_rel setGSO addr msgs0 done cur False st" and ready: "pool_ready msgs0" and ok: "gso_ok maxLen cur b"
  obtains st' where "sg_step setGSO addr maxLen False final b st = Ret st'"
    "sg_rel setGSO addr msgs0 done (cur @ [b]) final st'"
proof -
  let ?o = "msgs0 ! length done"
  let ?m = "sg_msg setGSO addr False ?o cur" and ?m' = "sg_msg setGSO addr False ?o (cur @ [b])"
  note l = sg_rel_last [OF rel]
  let ?st1 = "st\<lparr>co_msgs := (co_msgs st)[length done := ?m']\<rparr>"
  let ?fin = "\<lambda>s. s\<lparr>co_dgramCnt := Suc (co_dgramCnt s), co_endBatch := (slen b < co_gsoSize s \<or> co_endBatch s)\<rparr>"
  have guard: "slen b + total_len (Buffers ?m) \<le> maxLen" "slen b \<le> co_gsoSize st"
    "co_dgramCnt st < udpSegmentMaxDatagrams" "\<not> co_endBatch st"
    using ok l by (simp_all add: gso_ok_def)
  have "?m\<lparr>Buffers := Buffers ?m @ [b]\<rparr> = ?m'" by (simp add: sg_msg_def Let_def)
  then have step: "sg_step setGSO addr maxLen False final b st =
      obind (if final then set_gso_at_base setGSO ?st1 else Ret ?st1) (\<lambda>s. Ret (?fin s))"
    using l guard by (simp add: sg_step_def Let_def)
  have rel1: "sg_rel setGSO addr msgs0 done (cur @ [b]) False (?fin ?st1)"
  proof -
    have "sg_msgs setGSO addr msgs0 done (cur @ [b]) False ((co_msgs st)[length done := ?m'])"
      using rel l(2,3) unfolding sg_rel_def sg_msgs_def by auto
    moreover have "counters_rel (cur @ [b]) (?fin ?st1)"
      using l(5-8) guard(4) by (simp add: counters_rel_def)
    ultimately show ?thesis using l(4) unfolding sg_rel_def by simp
  qed
  show thesis
  proof (cases final)
    case False
    then show ?thesis using that [of "?fin ?st1"] step rel1 by simp
  next
    case True
    have several: "1 < length (cur @ [b])" using l(5) by (cases cur) auto
    have base: "set_gso_at_base setGSO (?fin s) = obind (set_gso_at_base setGSO s) (\<lambda>s'. Ret (?fin s'))" for s
      by (cases s) (simp add: set_gso_at_base_def at_base_def idx_def obind_assoc)
    obtain st' where st': "set_gso_at_base setGSO (?fin ?st1) = Ret st'" "sg_rel setGSO addr msgs0 done (cur @ [b]) True st'"
      by (rule sg_close [OF rel1 ready several])
    then show ?thesis using that [of st'] step True base [of ?st1] by simp
  qed
qed

lemma sg_new:
  assumes "sg_rel setGSO addr msgs0 done cur False st" "\<not> gso_ok maxLen cur b"
  shows "sg_step setGSO addr maxLen False final b st = sg_start setGSO addr b st"
  using assms(2) sg_rel_last [OF assms(1)] by (auto simp: sg_step_def gso_ok_def Let_def)

lemma sg_loop_rel:
  assumes "sg_rel setGSO addr msgs0 done cur False st" "pool_ready msgs0" "\<forall>m \<in> set msgs0. length (Buffers m) = 1"
    and "length done + length rest < length msgs0" "rest = [] \<longrightarrow> length cur \<le> 1"
  shows "\<exists>st' done' cur'. sg_loop setGSO addr maxLen False rest st = Ret st' \<and>
    sg_rel setGSO addr msgs0 done' cur' True st' \<and> done' @ [cur'] = done @ groups (gso_ok maxLen) cur rest"
  using assms
proof (induction rest arbitrary: "done" cur st)
  case Nil
  then show ?case using sg_rel_single [of cur setGSO addr msgs0 "done" False st True] by auto
next
  case (Cons b rest)
  note pre = Cons.prems
  show ?case
  proof (cases "gso_ok maxLen cur b")
    case True
    obtain st1 where st1: "sg_step setGSO addr maxLen False (rest = []) b st = Ret st1"
      "sg_rel setGSO addr msgs0 done (cur @ [b]) (rest = []) st1"
      by (rule sg_join [OF pre(1,2) True])
    show ?thesis
    proof (cases "rest = []")
      case True
      then show ?thesis using st1 \<open>gso_ok maxLen cur b\<close> by auto
    next
      case False
      then show ?thesis using Cons.IH [of "done" "cur @ [b]" st1] st1 pre \<open>gso_ok maxLen cur b\<close> by simp
    qed
  next
    case False
    have room: "Suc (length done) < length msgs0" using pre by auto
    obtain st1 where st1: "sg_start setGSO addr b st = Ret st1" "sg_rel setGSO addr msgs0 (done @ [cur]) [b] False st1"
      by (rule sg_next [OF pre(1-3) room])
    then show ?thesis using Cons.IH [of "done @ [cur]" "[b]" st1] sg_new [OF pre(1) False] pre False by simp
  qed
qed

lemma sg_refines:
  assumes ready: "pool_ready msgs" "\<forall>m \<in> set msgs. length (Buffers m) = 1" and len: "length bufs \<le> length msgs"
  shows "\<exists>msgs'. bc_coalesceMessages setGSO addr bufs msgs =
      Ret (length (batches (gso_ok (sg_maxPayloadLen addr)) bufs), msgs') \<and>
    sg_batches setGSO addr msgs (batches (gso_ok (sg_maxPayloadLen addr)) bufs) msgs'"
proof (cases bufs)
  case Nil
  then show ?thesis by (simp add: bc_coalesceMessages_def batches_def sg_batches_def)
next
  case (Cons b rest)
  let ?max = "sg_maxPayloadLen addr"
  let ?init = "\<lparr>co_mem = \<lparr>arrs = (\<lambda>_. []), brk = 0\<rparr>, co_msgs = msgs, co_n = 0, co_gsoSize = 0, co_dgramCnt = 0, co_endBatch = False\<rparr>"
  obtain m ms where m: "msgs = m # ms" using len Cons by (cases msgs) auto
  obtain x where x: "Buffers m = [x]" using ready(2) m by (cases "Buffers m") auto
  have "m\<lparr>OOB := (OOB m)\<lparr>clen := 0\<rparr>, Buffers := [b], Addr := Some addr\<rparr> = sg_msg setGSO addr False m [b]"
    by (simp add: sg_msg_def)
  then obtain st where st: "sg_step setGSO addr ?max True (rest = []) b ?init = Ret st"
    "sg_rel setGSO addr msgs [] [b] False st"
    using m x by (simp add: sg_step_def sg_start_def sg_rel_def sg_msgs_def counters_rel_def idx_def nth_Cons')
  obtain st' done' cur' where st': "sg_loop setGSO addr ?max False rest st = Ret st'"
    "sg_rel setGSO addr msgs done' cur' True st'" "done' @ [cur'] = groups (gso_ok ?max) [b] rest"
    using sg_loop_rel [OF st(2) ready, of rest ?max] len Cons by auto
  have gs: "batches (gso_ok ?max) bufs = done' @ [cur']" using st'(3) Cons by (simp add: batches_def)
  have "co_n st' = length (batches (gso_ok ?max) bufs)" using st'(2) by (simp add: gs sg_rel_def)
  then have "bc_coalesceMessages setGSO addr bufs msgs = Ret (length (batches (gso_ok ?max) bufs), co_msgs st')"
    using st(1) st'(1) Cons by (simp add: bc_coalesceMessages_def)
  moreover have "sg_batches setGSO addr msgs (batches (gso_ok ?max) bufs) (co_msgs st')"
    using st'(2) unfolding gs sg_batches_def sg_rel_def sg_msgs_def by (auto simp: nth_append less_Suc_eq)
  ultimately show ?thesis by blast
qed

end

end
