(* ===== verification/Batching_Correct.thy ===== *)
theory Batching_Correct
  imports Batching_Coalesce
begin

text \<open>
  What a batching connection sends and receives: \<open>WriteBatchTo\<close> hands the kernel exactly the caller's
  datagrams, and \<open>ReadBatch\<close> hands out exactly the datagrams the kernel coalesced.
\<close>

section \<open>Gathered messages on the wire\<close>

abbreviation gso_room :: "cmsg_abi \<Rightarrow> message \<Rightarrow> bool" where
  "gso_room A \<equiv> roomy (gsoControlSize Linux A)"

lemma sg_maxPayloadLen_16bit: "sg_maxPayloadLen addr < 2 ^ 16"
  by (simp add: sg_maxPayloadLen_def maxIPv4PayloadLen_def maxIPv6PayloadLen_def)

context cmsg_codec
begin

lemma empty_control: "segment_size A (cb_bytes (c\<lparr>clen := 0\<rparr>)) = None"
  using segment_size_encodes [OF cmsg_Nil] by (simp add: cb_bytes_def)

lemma sg_oob:
  assumes "gso_room A m"
  shows "segment_size A (cb_bytes (OOB (sg_msg (setGSOSize Linux A) addr True m g))) =
      (if 1 < length g then Some (unat (of_nat (slen (hd g)) :: 16 word)) else None)"
    and "cb_cap (OOB (sg_msg (setGSOSize Linux A) addr True m g)) = cb_cap (OOB m)"
proof -
  let ?c = "(OOB m)\<lparr>clen := 0\<rparr>" and ?w = "of_nat (slen (hd g)) :: 16 word"
  have c: "cb_wf ?c" "clen ?c + CmsgSpace A 2 \<le> cb_cap ?c" "cb_cap ?c = cb_cap (OOB m)" "cb_bytes ?c = []"
    using assms by (simp_all add: roomy_def cb_wf_def cb_cap_def cb_bytes_def gsoControlSize_def linux_tag_def sizeOfGSOData_def)
  obtain c' m' where c': "setGSOSize_linux A ?c ?w = Ret c'" "cb_cap c' = cb_cap ?c" "cb_bytes c' = cb_bytes ?c @ m'"
    "cmsg_encodes A m' [segment_cmsg A ?w]"
    using set_appends [OF c(1,2), of ?w] by metis
  have oob: "OOB (sg_msg (setGSOSize Linux A) addr True m g) = (if 1 < length g then c' else ?c)"
    using c'(1) by (simp add: sg_msg_def Let_def set_oob_def setGSOSize_def linux_tag_def)
  show "cb_cap (OOB (sg_msg (setGSOSize Linux A) addr True m g)) = cb_cap (OOB m)"
    using c'(2) c(3) by (simp add: oob)
  have "u16_bytes A ?w \<noteq> []" using u16_length [of ?w] by auto
  then have "\<forall>(h, data) \<in> set [segment_cmsg A ?w]. data \<noteq> []" by (simp add: segment_cmsg_def)
  moreover have "cmsg_encodes A (cb_bytes c') [segment_cmsg A ?w]" using c'(3,4) c(4) by simp
  ultimately have "segment_size A (cb_bytes c') = Some (unat ?w)"
    using segment_size_encodes u16_round [of ?w] u16_length [of ?w] by (simp add: segment_cmsg_def is_segment_def)
  then show "segment_size A (cb_bytes (OOB (sg_msg (setGSOSize Linux A) addr True m g))) =
      (if 1 < length g then Some (unat ?w) else None)"
    using empty_control by (simp add: oob)
qed

end

lemma sg_wire:
  assumes A: "cmsg_codec A" and m: "gso_room A m" and inv: "batch_inv (sg_maxPayloadLen addr) g"
    and len: "\<forall>b \<in> set g. sl_wf h b \<and> 0 < slen b"
  shows "wire_datagrams A h (sg_msg (setGSOSize Linux A) addr True m g) = map (sl_read h) g"
proof (cases "1 < length g")
  case True
  then have "unat (of_nat (slen (hd g)) :: 16 word) = slen (hd g)"
    by (rule sg.batch_gso_16bit [OF inv _ sg_maxPayloadLen_16bit])
  moreover have "segments (slen (hd g)) (concat (map (sl_read h) g)) = map (sl_read h) g"
    using len by (intro sg.batch_segments [OF inv]) simp
  ultimately show ?thesis
    using cmsg_codec.sg_oob(1) [OF A m, of addr g] True by (simp add: wire_datagrams_def payload_def)
next
  case False
  then obtain b where "g = [b]" using inv by (cases g) (auto simp: batch_inv_def)
  then show ?thesis using cmsg_codec.sg_oob(1) [OF A m, of addr g] by (simp add: wire_datagrams_def payload_def)
qed

text \<open>A message that still has its control buffer and some buffer; \<open>putSendBatch\<close> trims it.\<close>

definition loose :: "cmsg_abi \<Rightarrow> message \<Rightarrow> bool" where
  "loose A m \<longleftrightarrow> Buffers m \<noteq> [] \<and> gsoControlSize Linux A \<le> cb_cap (OOB m)"

lemma put_message_room: "loose A m \<Longrightarrow> gso_room A (put_message m)"
  by (cases "Buffers m") (auto simp: loose_def roomy_def put_message_def cb_wf_def cb_cap_def)

lemma room_loose: "gso_room A m \<Longrightarrow> loose A m"
  by (auto simp: loose_def roomy_def)

lemma sg_coalesce_sends:
  assumes A: "cmsg_codec A" and msgs: "\<forall>m \<in> set msgs. gso_room A m" "length bufs \<le> length msgs"
    and bufs: "\<forall>b \<in> set bufs. sl_wf h b \<and> 0 < slen b"
  shows "\<exists>n msgs'. bc_coalesceMessages (setGSOSize Linux A) addr bufs msgs = Ret (n, msgs') \<and>
    n = length (batches (gso_ok (sg_maxPayloadLen addr)) bufs) \<and>
    concat (map (wire_datagrams A h) (take n msgs')) = map (sl_read h) bufs \<and>
    (\<forall>m \<in> set (take n msgs'). Addr m = Some addr) \<and> length msgs' = length msgs \<and> (\<forall>m \<in> set msgs'. loose A m)"
proof -
  let ?gs = "batches (gso_ok (sg_maxPayloadLen addr)) bufs" and ?set = "setGSOSize Linux A"
  have ready: "pool_ready msgs" "\<forall>m \<in> set msgs. length (Buffers m) = 1"
    using msgs(1) by (auto simp: pool_ready_def roomy_def)
  obtain msgs' where eq: "bc_coalesceMessages ?set addr bufs msgs = Ret (length ?gs, msgs')"
    and ref: "sg_batches ?set addr msgs ?gs msgs'"
    using gso_setter.sg_refines [OF gso_setter_setGSOSize [OF A] ready msgs(2)] by blast
  have len: "length ?gs \<le> length msgs'" "length msgs' = length msgs" using ref by (simp_all add: sg_batches_def)
  have k: "msgs' ! k = sg_msg ?set addr True (msgs ! k) (?gs ! k)" "gso_room A (msgs ! k)"
    "batch_inv (sg_maxPayloadLen addr) (?gs ! k)" "set (?gs ! k) \<subseteq> set bufs" if "k < length ?gs" for k
  proof -
    have g: "?gs ! k \<in> set ?gs" using that by simp
    then show "batch_inv (sg_maxPayloadLen addr) (?gs ! k)" "set (?gs ! k) \<subseteq> set bufs"
      by (rule sg.batches_inv, rule batches_subset)
    show "msgs' ! k = sg_msg ?set addr True (msgs ! k) (?gs ! k)" "gso_room A (msgs ! k)"
      using ref that msgs(1) by (simp_all add: sg_batches_def)
  qed
  have "map (wire_datagrams A h) (take (length ?gs) msgs') = map (map (sl_read h)) ?gs"
  proof (rule map_nth_take [OF len(1) refl])
    fix i assume i: "i < length ?gs"
    then have "\<forall>b \<in> set (?gs ! i). sl_wf h b \<and> 0 < slen b" using k(4) bufs by blast
    then show "wire_datagrams A h (msgs' ! i) = map (sl_read h) (?gs ! i)"
      using sg_wire [OF A k(2,3) [OF i]] k(1) [OF i] by simp
  qed
  then have "concat (map (wire_datagrams A h) (take (length ?gs) msgs')) = map (sl_read h) bufs"
    by (simp flip: map_concat)
  moreover have "\<forall>m \<in> set (take (length ?gs) msgs'). Addr m = Some addr"
    using k(1) len by (auto simp: in_set_conv_nth)
  moreover have "loose A m" if m: "m \<in> set msgs'" for m
  proof -
    obtain j where j: "j < length msgs" "m = msgs' ! j" using m len(2) by (auto simp: in_set_conv_nth)
    show ?thesis
    proof (cases "j < length ?gs")
      case True
      have "?gs ! j \<noteq> []" using k(3) [OF True] by (simp add: batch_inv_def)
      then show ?thesis using k(1,2) [OF True] cmsg_codec.sg_oob(2) [OF A k(2) [OF True]] j by (simp add: loose_def roomy_def)
    next
      case False
      then have "msgs' ! j = msgs ! j" using ref j(1) by (simp add: sg_batches_def)
      then show ?thesis using j msgs(1) room_loose by simp
    qed
  qed
  ultimately show ?thesis using eq len by auto
qed

section \<open>Plain writes\<close>

definition bc_plain_msg :: "udp_addr \<Rightarrow> message \<Rightarrow> slice \<Rightarrow> message" where
  "bc_plain_msg ua m b = m\<lparr>Buffers := (Buffers m)[0 := b], Addr := Some ua, OOB := (OOB m)\<lparr>clen := 0\<rparr>\<rparr>"

lemma bc_plain_loose: "loose A m \<Longrightarrow> loose A (bc_plain_msg ua m b)"
  by (simp add: loose_def bc_plain_msg_def cb_cap_def)

lemma bc_plain_messages_eq:
  "i + length bufs \<le> length msgs \<Longrightarrow> \<forall>m \<in> set msgs. Buffers m \<noteq> [] \<Longrightarrow>
   bc_plain_messages ua i bufs msgs =
     Ret (take i msgs @ map2 (bc_plain_msg ua) (take (length bufs) (drop i msgs)) bufs @ drop (i + length bufs) msgs)"
proof (induction bufs arbitrary: i msgs)
  case (Cons b bufs)
  let ?m = "msgs ! i"
  have i: "i < length msgs" using Cons.prems(1) by simp
  then have m: "Buffers ?m \<noteq> []" using Cons.prems(2) by simp
  let ?msgs = "msgs[i := bc_plain_msg ua ?m b]"
  have "bc_plain_messages ua i (b # bufs) msgs = bc_plain_messages ua (Suc i) bufs ?msgs"
    using i m by (simp add: bc_plain_msg_def)
  also have "\<dots> = Ret (take (Suc i) ?msgs @ map2 (bc_plain_msg ua) (take (length bufs) (drop (Suc i) ?msgs)) bufs
      @ drop (Suc i + length bufs) ?msgs)"
    by (rule Cons.IH) (use Cons.prems m in \<open>auto simp: bc_plain_msg_def dest!: subsetD [OF set_update_subset_insert]\<close>)
  also have "take (Suc i) ?msgs = take i msgs @ [bc_plain_msg ua ?m b]"
    using i by (simp add: take_Suc_conv_app_nth)
  also have "drop (Suc i) ?msgs = drop (Suc i) msgs" by simp
  also have "drop (Suc i + length bufs) ?msgs = drop (Suc i + length bufs) msgs" by simp
  finally show ?case
    using i by (simp add: Cons_nth_drop_Suc [symmetric])
qed simp

lemma bc_write_plain_returns:
  assumes A: "cmsg_codec A" and E: "write_progress E" and msgs: "\<forall>m \<in> set msgs. loose A m" "length bufs \<le> length msgs"
  shows "\<exists>err msgs' es. bc_write_plain E c ua bufs msgs h w = Ret (err, msgs', then_events w es) \<and>
    length msgs' = length msgs \<and> (\<forall>m \<in> set msgs'. loose A m) \<and> only_writes es \<and>
    (err = None \<and> (\<forall>m \<in> set msgs. length (Buffers m) = 1) \<longrightarrow> sent A h bufs ua es)"
proof -
  let ?ms = "map2 (bc_plain_msg ua) (take (length bufs) msgs) bufs"
  have pm: "bc_plain_messages ua 0 bufs msgs = Ret (?ms @ drop (length bufs) msgs)"
    using bc_plain_messages_eq [of 0 bufs msgs ua] msgs by (simp add: loose_def)
  have each: "\<exists>m0 \<in> set msgs. \<exists>b \<in> set bufs. m = bc_plain_msg ua m0 b" if "m \<in> set ?ms" for m
    using that by (auto dest: in_set_takeD set_zip_leftD set_zip_rightD)
  obtain err es where s: "send_loop E (bc_xpc c) (map (wire_of h) ?ms) w = Some (Ret (err, then_events w es))"
    "only_writes es" "err = None \<longrightarrow> accepted es = map (wire_of h) ?ms"
    using send_loop_returns [OF E] by blast
  have "length ?ms = length bufs" using msgs(2) by simp
  then have eq: "bc_write_plain E c ua bufs msgs h w = Ret (err, ?ms @ drop (length bufs) msgs, then_events w es)"
    using pm s(1) by (simp add: bc_write_plain_def writeBatch_def)
  have pool: "\<forall>m \<in> set (?ms @ drop (length bufs) msgs). loose A m"
  proof
    fix m assume "m \<in> set (?ms @ drop (length bufs) msgs)"
    then have "m \<in> set ?ms \<or> m \<in> set msgs" using in_set_dropD [of m "length bufs" msgs] by (simp only: set_append Un_iff) blast
    then show "loose A m"
    proof
      assume "m \<in> set ?ms"
      then obtain m0 b where "m0 \<in> set msgs" "m = bc_plain_msg ua m0 b" using each by blast
      then show ?thesis using msgs(1) bc_plain_loose by simp
    qed (use msgs(1) in blast)
  qed
  have "sent A h bufs ua es" if "err = None" and one: "\<forall>m \<in> set msgs. length (Buffers m) = 1"
  proof -
    have acc: "accepted es = map (wire_of h) ?ms" using s(3) that(1) by simp
    have "map (wire_datagrams A h) ?ms = map (\<lambda>b. [sl_read h b]) bufs"
    proof (rule nth_equalityI)
      fix k assume "k < length (map (wire_datagrams A h) ?ms)"
      then have k: "k < length bufs" "k < length msgs" using msgs(2) by auto
      then have "length (Buffers (msgs ! k)) = 1" using one by simp
      then obtain x where "Buffers (msgs ! k) = [x]" by (cases "Buffers (msgs ! k)") auto
      then show "map (wire_datagrams A h) ?ms ! k = map (\<lambda>b. [sl_read h b]) bufs ! k"
        using cmsg_codec.empty_control [OF A, of "OOB (msgs ! k)"] k
        by (simp add: wire_datagrams_def bc_plain_msg_def payload_def)
    qed (use msgs(2) in simp)
    then have "concat (map (wire_split A) (accepted es)) = map (sl_read h) bufs"
      using acc by (simp add: comp_def)
    moreover have "\<forall>m \<in> set ?ms. Addr m = Some ua" using each by (fastforce simp: bc_plain_msg_def)
    then have "\<forall>m \<in> set (accepted es). wm_dst m = Some (UDPAddr_AddrPort ua)"
      using acc by (auto simp: wire_of_def)
    ultimately show ?thesis by (simp add: sent_def)
  qed
  then show ?thesis using eq pool s(2) msgs(2) by auto
qed

lemma bc_write_offload_returns:
  assumes A: "cmsg_codec A" and E: "eGOOS E = Linux" "write_progress E"
    and msgs: "\<forall>m \<in> set msgs. gso_room A m" "length bufs \<le> length msgs"
    and bufs: "\<forall>b \<in> set bufs. sl_wf h b \<and> 0 < slen b"
  shows "\<exists>err retried msgs' es. bc_write_offload E A c ua bufs msgs h w = Ret (err, retried, msgs', then_events w es) \<and>
    length msgs' = length msgs \<and> (\<forall>m \<in> set msgs'. loose A m) \<and> only_writes es \<and>
    (err = None \<and> \<not> retried \<longrightarrow> sent A h bufs ua es)"
proof -
  obtain n msgs1 where c: "bc_coalesceMessages (setGSOSize Linux A) ua bufs msgs = Ret (n, msgs1)"
    "concat (map (wire_datagrams A h) (take n msgs1)) = map (sl_read h) bufs"
    "\<forall>m \<in> set (take n msgs1). Addr m = Some ua" "length msgs1 = length msgs" "\<forall>m \<in> set msgs1. loose A m"
    using sg_coalesce_sends [OF A msgs bufs, of ua] by blast
  obtain err es where s: "send_loop E (bc_xpc c) (map (wire_of h) (take n msgs1)) w = Some (Ret (err, then_events w es))"
    "only_writes es" "err = None \<longrightarrow> accepted es = map (wire_of h) (take n msgs1)"
    using send_loop_returns [OF E(2)] by blast
  have first: "sent A h bufs ua es" if "err = None"
    using s(3) that c(2,3) by (simp add: sent_def comp_def) (simp add: wire_of_def)
  show ?thesis
  proof (cases "\<exists>e. err = Some e \<and> errShouldDisableUDPGSO Linux e")
    case False
    then have "bc_write_offload E A c ua bufs msgs h w = Ret (err, False, msgs1, then_events w es)"
      using c(1) s(1) E(1) by (auto simp: bc_write_offload_def writeBatch_def split: option.splits)
    then show ?thesis using c(4,5) s(2) first by blast
  next
    case True
    obtain err2 msgs2 es2 where p: "bc_write_plain E c ua bufs msgs1 h (then_events w es) =
        Ret (err2, msgs2, then_events (then_events w es) es2)"
      "length msgs2 = length msgs1" "\<forall>m \<in> set msgs2. loose A m" "only_writes es2"
      using bc_write_plain_returns [OF A E(2) c(5), of bufs c ua h "then_events w es"] msgs(2) c(4) by auto
    then have "bc_write_offload E A c ua bufs msgs h w = Ret (err2, True, msgs2, then_events w (es @ es2))"
      using c(1) s(1) E(1) True by (auto simp: bc_write_offload_def writeBatch_def)
    then show ?thesis using p c(4) s(2) by (intro exI [of _ err2] exI [of _ True] exI [of _ msgs2] exI [of _ "es @ es2"]) simp
  qed
qed

section \<open>WriteBatchTo\<close>

text \<open>The pool holds batches of the connection's size with the shape \<open>New\<close> gives them.\<close>

definition batch_ok :: "cmsg_abi \<Rightarrow> nat \<Rightarrow> send_batch \<Rightarrow> bool" where
  "batch_ok A n b \<longleftrightarrow> length (sb_msgs b) = n \<and> (\<forall>m \<in> set (sb_msgs b). gso_room A m) \<and> ua_ok (sb_ua b)"

definition bc_ok :: "cmsg_abi \<Rightarrow> batching_conn \<Rightarrow> bool" where
  "bc_ok A c \<longleftrightarrow> (\<forall>b \<in> set (bc_sendBatchPool c). batch_ok A (bc_batchSize c) b)"

lemma getSendBatch_ok:
  assumes "eGOOS E = Linux" "bc_ok A c" "getSendBatch E A c w = (b, c1)"
  shows "batch_ok A (bc_batchSize c) b" "bc_ok A c1" "\<exists>p. c1 = c\<lparr>bc_sendBatchPool := p\<rparr>"
proof -
  obtain pool where g: "pool_get (ePoolGet E SendBatchPool w) (new_send_batch Linux A (bc_batchSize c)) (bc_sendBatchPool c) = (b, pool)"
    and c1: "c1 = c\<lparr>bc_sendBatchPool := pool\<rparr>"
    using assms(1,3) by (auto simp: getSendBatch_def split: prod.splits)
  have "ua_ok new_udp_addr" by (simp add: ua_ok_def new_udp_addr_def cb_make_def cb_cap_def)
  then have new: "batch_ok A (bc_batchSize c) (new_send_batch Linux A (bc_batchSize c))"
    by (simp add: batch_ok_def new_send_batch_def roomy_def cb_wf_def cb_cap_def cb_make_def)
  show "batch_ok A (bc_batchSize c) b" "bc_ok A c1"
    using pool_get_in [OF g] assms(2) new by (auto simp: bc_ok_def c1)
  show "\<exists>p. c1 = c\<lparr>bc_sendBatchPool := p\<rparr>" using c1 by blast
qed

lemma putSendBatch_ok:
  assumes "bc_ok A c" "length msgs = bc_batchSize c" "\<forall>m \<in> set msgs. loose A m" "ua_ok ua"
  shows "bc_ok A (putSendBatch \<lparr>sb_msgs = msgs, sb_ua = ua\<rparr> c)"
  using assms put_message_room by (auto simp: bc_ok_def putSendBatch_def batch_ok_def)


section \<open>ReadBatch\<close>

lemma arm_oob_simps [simp]:
  "Buffers (arm_oob m) = Buffers m" "buffer0 (arm_oob m) = buffer0 m" "N (arm_oob m) = N m" "NN (arm_oob m) = NN m"
  "clen (OOB (arm_oob m)) = cb_cap (OOB m)" "cb_cap (OOB (arm_oob m)) = cb_cap (OOB m)"
  "cb_wf (OOB (arm_oob m))" "roomy q (arm_oob m) = (length (Buffers m) = 1 \<and> q \<le> cb_cap (OOB m))"
  by (simp_all add: arm_oob_def buffer0_def cb_cap_def roomy_def cb_wf_def)

text \<open>
  What the caller provides: messages with one buffer each, control buffers of the documented size,
  and, in the two messages that are read into, no count left over from an earlier call.
\<close>

definition read_args :: "cmsg_abi \<Rightarrow> message list \<Rightarrow> store \<Rightarrow> bool" where
  "read_args A ms h \<longleftrightarrow> msgs_ok h ms \<and> (\<forall>m \<in> set ms. gso_room A m \<and> NN m \<le> cb_cap (OOB m)) \<and>
     (\<forall>m \<in> set (drop (length ms - 2) ms). N m = 0 \<and> NN m = 0)"


end
