(* ===== verification/Std_Lifecycle.thy ===== *)
theory Std_Lifecycle
  imports Receive_Correct
begin

text \<open>
  The life of a \<open>StdNetBind\<close>: every sequence of \<open>Open\<close>, \<open>Close\<close>, \<open>Send\<close>, \<open>SetMark\<close> and receive
  calls, as a step relation over the bind, the packet memory and the world. The invariant ties
  the sockets open in the world to the connections the bind holds.
\<close>

section \<open>What a receive call keeps, whatever the socket delivers\<close>

lemma arm_messages_pooled:
  "arm_messages ms bufs = Ret ms' \<Longrightarrow> \<forall>m \<in> set ms. pooled A m \<Longrightarrow>
   length ms' = length ms \<and> (\<forall>m \<in> set ms'. pooled A m)"
  by (induction ms bufs arbitrary: ms' rule: arm_messages.induct)
    (auto simp: obind_eq_Ret upd_eq_Ret pooled_def cb_wf_def cb_cap_def)

lemma rx_into_pooled: "pooled A m \<Longrightarrow> pooled A (snd (rx_into h r m))"
  by (auto simp: rx_into_def pooled_def cb_wf_def cb_cap_def overwrite_def case_prod_beta Let_def)

lemma rx_all_pooled:
  "\<forall>m \<in> set ms. pooled A m \<Longrightarrow> length (snd (rx_all h rs ms)) = length ms \<and> (\<forall>m \<in> set (snd (rx_all h rs ms)). pooled A m)"
proof (induction h rs ms rule: rx_all.induct)
  case (1 h r rs m ms)
  obtain h' m' where i: "rx_into h r m = (h', m')" by fastforce
  obtain h'' ms' where a: "rx_all h' rs ms = (h'', ms')" by fastforce
  have "pooled A m'" using rx_into_pooled [of A m h r] "1.prems" i by simp
  then show ?case using "1.IH" [OF i [symmetric] refl] "1.prems" i a by simp
qed auto

lemma split_copy_step_Ret:
  assumes "split_copy (Suc j) i g start stop n msgs h = Ret R" "\<not> n > i"
  shows "\<exists>k e' h1. n < length msgs \<and>
    split_copy j i g stop e' (Suc n) (msgs[n := (msgs ! n)\<lparr>N := k, Addr := Addr (msgs ! i)\<rparr>]) h1 = Ret R"
proof -
  obtain dst b seg where "n < length msgs" "i < length msgs" "Buffers (msgs ! n) \<noteq> []" "dst = buffer0 (msgs ! n)"
    "Buffers (msgs ! i) \<noteq> []" "b = buffer0 (msgs ! i)" "sl_reslice b start stop = Ret seg"
    using assms by (auto simp: obind_eq_Ret idx_eq_Ret buffer0_def)
  then show ?thesis using assms by (auto simp: Let_def case_prod_beta simp flip: buffer0_def)
qed

lemma split_copy_erase:
  "split_copy j i g start stop n msgs h = Ret (err, n', msgs', h') \<Longrightarrow> map erase msgs' = map erase msgs"
proof (induction j arbitrary: start "stop" n msgs h)
  case (Suc j)
  show ?case
  proof (cases "n > i")
    case True
    then show ?thesis using Suc.prems by simp
  next
    case False
    obtain k e' h1 where n: "n < length msgs" and
      r: "split_copy j i g stop e' (Suc n) (msgs[n := (msgs ! n)\<lparr>N := k, Addr := Addr (msgs ! i)\<rparr>]) h1 = Ret (err, n', msgs', h')"
      using split_copy_step_Ret [OF Suc.prems False] by blast
    have "map erase (msgs[n := (msgs ! n)\<lparr>N := k, Addr := Addr (msgs ! i)\<rparr>]) = map erase msgs"
      using n by (simp add: map_update list_update_same_conv)
    then show ?thesis using Suc.IH [OF r] by simp
  qed
qed simp

lemma split_loop_step_Ret:
  assumes "split_loop getGSO (Suc k) i n msgs h = Ret (err, n', msgs', h')"
  obtains "msgs' = msgs"
  | j g st n1 h1 e where "split_copy j i g 0 st n msgs h = Ret (Some e, n1, msgs', h1)"
  | j g st n1 msgs1 h1 where "split_copy j i g 0 st n msgs h = Ret (None, n1, msgs1, h1)"
    "split_loop getGSO k (Suc i) n1 (if Suc i \<noteq> n1 then msgs1[i := (msgs1 ! i)\<lparr>N := 0\<rparr>] else msgs1) h1 = Ret (err, n', msgs', h')"
proof (cases "N (msgs ! i) = 0")
  case True
  then show thesis using assms that(1) by (auto simp: obind_eq_Ret idx_eq_Ret)
next
  case False
  have i: "i < length msgs" using assms by (auto simp: obind_eq_Ret idx_eq_Ret)
  obtain c r where g: "cb_reslice (OOB (msgs ! i)) (NN (msgs ! i)) = Ret c" "getGSO (cb_bytes c) = Ret r"
    using assms False by (auto simp: obind_eq_Ret idx_eq_Ret)
  show thesis
  proof (cases r)
    case (Inl e)
    then show thesis using assms False i g that(1) by simp
  next
    case (Inr gs)
    let ?j = "if gs > 0 then (N (msgs ! i) + gs - 1) div gs else 1" and ?st = "if gs > 0 then gs else N (msgs ! i)"
    obtain e1 n1 msgs1 h1 where c: "split_copy ?j i gs 0 ?st n msgs h = Ret (e1, n1, msgs1, h1)"
      using assms False i g Inr by (auto simp: obind_eq_Ret Let_def)
    show thesis
    proof (cases e1)
      case None
      then show thesis using assms False i g Inr c that(3) [of ?j gs ?st n1 msgs1 h1] by (simp add: Let_def)
    next
      case (Some e)
      then have "msgs' = msgs1" using assms False i g Inr c by (simp add: Let_def)
      then show thesis using that(2) c Some by simp
    qed
  qed
qed

lemma split_loop_erase:
  "split_loop getGSO k i n msgs h = Ret (err, n', msgs', h') \<Longrightarrow> map erase msgs' = map erase msgs"
proof (induction k arbitrary: i n msgs h)
  case (Suc k)
  from Suc.prems show ?case
  proof (cases rule: split_loop_step_Ret)
    case (2 j g st n1 h1 e)
    then show ?thesis by (rule split_copy_erase)
  next
    case (3 j g st n1 msgs1 h1)
    have "map erase (msgs1[i := (msgs1 ! i)\<lparr>N := 0\<rparr>]) = map erase msgs1"
      by (cases "i < length msgs1") (simp_all add: map_update list_update_same_conv list_update_beyond)
    then show ?thesis using Suc.IH [OF 3(2)] split_copy_erase [OF 3(1)] by (auto split: if_splits)
  qed simp
qed simp

lemma conn_ReadBatch_keeps:
  assumes "conn_ReadBatch E c ms h w = (r, ms', h', w')" "\<forall>m \<in> set ms. pooled A m"
  shows "length ms' = length ms" "\<forall>m \<in> set ms'. pooled A m" "leaks w w' d = 0"
proof -
  have "length ms' = length ms \<and> (\<forall>m \<in> set ms'. pooled A m) \<and> leaks w w' d = 0"
  proof (cases "eReadBatch E w c (length ms)")
    case (Inr rs)
    then show ?thesis
      using assms rx_all_pooled [OF assms(2), of h rs]
      by (auto simp: conn_ReadBatch_def record_conn_def leaks_def split: prod.splits)
  qed (use assms in \<open>auto simp: conn_ReadBatch_def record_conn_def leaks_def\<close>)
  then show "length ms' = length ms" "\<forall>m \<in> set ms'. pooled A m" "leaks w w' d = 0" by blast+
qed

lemma receive_batch_keeps:
  assumes "receive_batch E A br c rx ms h w = Ret (r, ms', h', w')" "\<forall>m \<in> set ms. pooled A m"
  shows "length ms' = length ms \<and> (\<forall>m \<in> set ms'. pooled A m) \<and> leaks w w' d = 0"
proof (cases "br \<noteq> None \<and> (eGOOS E = Linux \<or> eGOOS E = Android)")
  case False
  then obtain m b err m1 where i: "0 < length ms" "m = ms ! 0" "b = Buffers m ! 0"
    and rd: "conn_ReadMsgUDP E c m b h w = (err, m1, h', w')" and ms': "ms' = ms[0 := m1]"
    using assms(1) by (auto simp: receive_batch_def obind_eq_Ret idx_eq_Ret Let_def split: prod.splits)
  have pm: "pooled A m" using assms(2) i(1,2) by simp
  have "leaks w w' d = 0" using rd by (auto simp: conn_ReadMsgUDP_def record_conn_def leaks_def Let_def split: sum.splits prod.splits)
  moreover have "pooled A m1"
  proof (cases "eReadMsgUDP E w c")
    case (Inl e)
    then show ?thesis using rd pm by (auto simp: conn_ReadMsgUDP_def pooled_def)
  next
    case (Inr r0)
    define r1 where "r1 = r0\<lparr>rx_addr := Some (case rx_addr r0 of None \<Rightarrow> nil_udp_addr | Some ua \<Rightarrow> ua)\<rparr>"
    have "pooled A (snd (rx_into h r1 (m\<lparr>Buffers := [b]\<rparr>)))"
      using pm by (intro rx_into_pooled) (simp add: pooled_def)
    then show ?thesis using rd Inr pm by (auto simp: conn_ReadMsgUDP_def pooled_def Let_def r1_def split: prod.splits)
  qed
  ultimately show ?thesis using assms(2) ms' i(1) by (auto dest!: subsetD [OF set_update_subset_insert])
next
  case br: True
  show ?thesis
  proof (cases "rx \<and> length ms > 1")
    case False
    then show ?thesis using assms br conn_ReadBatch_keeps [of E "the br" ms h w r ms' h' w' A] by (auto simp: receive_batch_def)
  next
    case True
    let ?at = "length ms - groReadBatchSize (length ms)"
    obtain r1 tl h1 w1 where rd: "conn_ReadBatch E (the br) (drop ?at ms) h w = (r1, tl, h1, w1)" by (metis prod_cases4)
    have "\<forall>m \<in> set (drop ?at ms). pooled A m" using assms(2) by (auto dest: in_set_dropD)
    note k = conn_ReadBatch_keeps [OF rd this]
    let ?ms = "take ?at ms @ tl"
    have all: "length ?ms = length ms" "\<forall>m \<in> set ?ms. pooled A m" using k assms(2) by (auto dest: in_set_takeD)
    show ?thesis
    proof (cases r1)
      case (Inl e)
      then show ?thesis using assms(1) br True rd all k(3) by (auto simp: receive_batch_def Let_def)
    next
      case (Inr x)
      then obtain err n where sp: "splitCoalescedMessages ?ms ?at (getGSOSize (eGOOS E) A) h1 = Ret (err, n, ms', h')" "w' = w1"
        using assms(1) br True rd by (auto simp: receive_batch_def Let_def obind_eq_Ret)
      have e: "map erase ms' = map erase ?ms" using sp(1) split_loop_erase by (auto simp: splitCoalescedMessages_def)
      have "pooled A m" if "m \<in> set ms'" for m
      proof -
        have "erase m \<in> set (map erase ?ms)" using that by (metis e image_eqI set_map)
        then obtain m' where "m' \<in> set ?ms" "erase m = erase m'" by auto
        then show ?thesis using all(2) roomy_erase pooled_roomy by blast
      qed
      then show ?thesis using all(1) arg_cong [OF e, of length] k(3) sp(2) by simp
    qed
  qed
qed

lemma receive_keeps:
  assumes "eGOOS E = Linux" "pools_ok A s" "receive_with E A s fn bufs sizes eps h w = Ret R"
  shows "pools_ok A (rr_bind R) \<and> (\<exists>mp. rr_bind R = s\<lparr>s_msgsPool := mp\<rparr>) \<and> leaks w (rr_world R) d = 0"
proof (cases "receiving s fn w")
  case False
  then show ?thesis using assms by (auto simp: receive_with_not_receiving receive_closed_def intro: exI [of _ "s_msgsPool s"])
next
  case True
  obtain pc c rx where "fn = ReceiveIPv4 pc c rx \<or> fn = ReceiveIPv6 pc c rx" by (cases fn) auto
  then have R: "receiveIP E A s pc c rx bufs sizes eps h w = Ret R" using assms(3) receive_with_receiving [OF True] by simp
  show ?thesis
  proof (cases "validateReceiveBuffers bufs sizes eps (s_batchSize s)")
    case (Some err)
    then show ?thesis using R assms(2) by (auto simp: receiveIP_def intro: exI [of _ "s_msgsPool s"])
  next
    case None
    obtain msgs s1 where g: "getMessages E A s w = (msgs, s1)" by fastforce
    note m = getMessages_ok [OF assms(1,2) g]
    obtain ms r ms' h' w' where a: "arm_messages msgs bufs = Ret ms" "receive_batch E A pc c rx ms h w = Ret (r, ms', h', w')"
      using R None g by (auto simp: receiveIP_def obind_eq_Ret)
    then have e: "rr_bind R = putMessages ms' s1" "rr_world R = w'"
      using R None g by (auto simp: receiveIP_def obind_eq_Ret split: sum.splits)
    note p = arm_messages_pooled [OF a(1) m(2)]
    have k: "length ms' = length ms \<and> (\<forall>m \<in> set ms'. pooled A m) \<and> leaks w w' d = 0"
      using receive_batch_keeps [OF a(2)] p by blast
    obtain mp where mp: "s1 = s\<lparr>s_msgsPool := mp\<rparr>" using m(5) by blast
    have "pools_ok A (putMessages ms' s1)" using m(1,4) p k mp by (intro putMessages_ok) auto
    then show ?thesis using e k by (auto simp: mp putMessages_def intro: exI [of _ "map reset_message ms' # mp"])
  qed
qed

section \<open>Runs\<close>

text \<open>
  What a caller of \<open>Send\<close> has to see to: datagrams that are not empty and do not share memory, no
  more than a batch, and an endpoint with an address.
\<close>

definition send_args :: "cmsg_abi \<Rightarrow> std_bind \<Rightarrow> slice list \<Rightarrow> std_endpoint \<Rightarrow> store \<Rightarrow> bool" where
  "send_args A s bufs ep h \<longleftrightarrow>
     ep_sendable A ep \<and> addr_wf (DstIP ep) \<and> DstIP ep \<noteq> AddrZero \<and>
     length bufs \<le> BatchSize s \<and> (\<forall>b \<in> set bufs. sl_wf h b \<and> 0 < slen b) \<and> distinct (map sarr bufs)"

type_synonym bind_state = "std_bind \<times> store \<times> world"

inductive bind_step :: "env \<Rightarrow> cmsg_abi \<Rightarrow> bind_state \<Rightarrow> bind_state \<Rightarrow> bool" for E A where
  step_Open: "Open E s uport w = Ret (r, s', w') \<Longrightarrow> bind_step E A (s, h, w) (s', h, w')"
| step_Close: "Close E s w = (err, s', w') \<Longrightarrow> bind_step E A (s, h, w) (s', h, w')"
| step_SetMark: "SetMark E s mark w = (err, w') \<Longrightarrow> bind_step E A (s, h, w) (s, h, w')"
| step_Send: "send_args A s bufs ep h \<Longrightarrow> Send E A s bufs (StdEndpoint ep) h w = Ret (err, s', h', w') \<Longrightarrow>
    bind_step E A (s, h, w) (s', h', w')"
| step_Receive: "receive_with E A s fn bufs sizes eps h w = Ret R \<Longrightarrow>
    bind_step E A (s, h, w) (rr_bind R, rr_mem R, rr_world R)"
| step_Caller: "bind_step E A (s, h, w) (s, h', w)"

inductive_simps bind_step_simps: "bind_step E A (s, h, w) (s', h', w')"

definition bind_run :: "env \<Rightarrow> cmsg_abi \<Rightarrow> bind_state \<Rightarrow> bind_state \<Rightarrow> bool" where
  "bind_run E A = (bind_step E A)\<^sup>*\<^sup>*"

definition bind_inv :: "cmsg_abi \<Rightarrow> world \<Rightarrow> bind_state \<Rightarrow> bool" where
  "bind_inv A w0 x \<longleftrightarrow> (case x of (s, h, w) \<Rightarrow>
     bind_wf s \<and> pools_ok A s \<and> (\<forall>c. leaks w0 w c = held_by s c))"

lemma SetMark_leaks: "SetMark E s mark w = (err, w') \<Longrightarrow> leaks w w' c = 0"
  by (auto simp: SetMark_def set_mark_on_def Let_def split: option.splits prod.splits if_splits)

lemma Open_pools: "Open E s uport w = Ret (r, s', w') \<Longrightarrow> pools_ok A s \<Longrightarrow> pools_ok A s'"
  by (erule Open_cases) (auto simp: pools_ok_def)

lemma bind_inv_step:
  assumes "eGOOS E = Linux" "cmsg_codec A" "write_progress E" "bind_step E A x y" "bind_inv A w0 x"
  shows "bind_inv A w0 y"
  using assms(4,5)
proof (induction rule: bind_step.induct)
  case (step_Open s uport w r s' w' h)
  then show ?case
    using bind_wf_Open Open_pools Open_leaks [OF step_Open(1)] leaks_trans [of w0 w' _ w] by (auto simp: bind_inv_def)
next
  case (step_Close s w err s' w' h)
  then have "bind_wf s'" "pools_ok A s'" "held_by s' c = 0" for c
    by (auto simp: bind_inv_def Close_def bind_wf_def pools_ok_def held_by_def split: prod.splits)
  then show ?case using step_Close Close_leaks [OF step_Close(1)] by (simp add: bind_inv_def)
next
  case (step_SetMark s mark w err w' h)
  then show ?case using SetMark_leaks [OF step_SetMark(1)] leaks_trans [of w0 w' _ w] by (simp add: bind_inv_def)
next
  case (step_Send s bufs ep h w err s' h' w')
  have inv: "bind_wf s" "pools_ok A s" "\<And>c. leaks w0 w c = held_by s c" using step_Send(3) by (simp_all add: bind_inv_def)
  have "send_ready A s bufs ep h" using step_Send(1) inv(2) by (simp add: send_ready_def send_args_def)
  then show ?case
    using inv Send_invariants [OF assms(2,1,3) _ inv(1) step_Send(2)] leaks_trans [of w0 w' _ w]
    by (auto simp: bind_inv_def held_by_def)
next
  case (step_Receive s fn bufs sizes eps h w R)
  have inv: "bind_wf s" "pools_ok A s" "\<And>c. leaks w0 w c = held_by s c" using step_Receive(2) by (simp_all add: bind_inv_def)
  obtain mp where mp: "pools_ok A (rr_bind R)" "rr_bind R = s\<lparr>s_msgsPool := mp\<rparr>"
    using receive_keeps [OF assms(1) inv(2) step_Receive(1)] by blast
  have "leaks w (rr_world R) c = 0" for c using receive_keeps [OF assms(1) inv(2) step_Receive(1)] by blast
  moreover have "bind_wf (rr_bind R)" "held_by (rr_bind R) c = held_by s c" for c
    using inv(1) by (simp_all add: mp(2) bind_wf_def held_by_def)
  ultimately show ?case using inv(3) mp(1) leaks_trans [of w0 "rr_world R" _ w] by (simp add: bind_inv_def)
next
  case (step_Caller s h w h')
  then show ?case by (simp add: bind_inv_def)
qed

lemma bind_inv_run:
  assumes "eGOOS E = Linux" "cmsg_codec A" "write_progress E" "bind_run E A x y" "bind_inv A w0 x"
  shows "bind_inv A w0 y"
  using assms(4,5) unfolding bind_run_def by induction (use bind_inv_step [OF assms(1-3)] in blast)+

lemma bind_inv_New: "bind_inv A w (NewStdNetBindWithOptions p net opts, h, w)"
  using bind_wf_New [of p net opts]
  by (simp add: bind_inv_def) (simp add: pools_ok_def held_by_def NewStdNetBindWithOptions_def)

text \<open>
  C17. Over the whole life of a bind, whatever the sequence of calls and their outcomes, the
  sockets it opened and did not close are exactly the connections it holds, a family without a
  socket has no offload and no batch connection, and the pools have the shape the calls rely on.
\<close>

theorem bind_lifecycle:
  assumes "eGOOS E = Linux" "cmsg_codec A" "write_progress E"
    and "bind_run E A (NewStdNetBindWithOptions p net opts, h0, w0) (s, h, w)"
  shows "bind_wf s \<and> pools_ok A s \<and> (\<forall>c. leaks w0 w c = held_by s c)"
  using bind_inv_run [OF assms bind_inv_New] by (simp add: bind_inv_def)

text \<open>
  C18. A close at any moment of the life of a bind leaves no socket open and brings back the state
  of a new bind but for the pools, so the bind can be opened again.
\<close>

theorem Close_at_any_time:
  assumes "eGOOS E = Linux" "cmsg_codec A" "write_progress E"
    and "bind_run E A (NewStdNetBindWithOptions p net opts, h0, w0) (s, h, w)"
    and "Close E s w = (err, s', w')"
  shows "leaks w0 w' c = 0 \<and> closed s' \<and>
    s' = (NewStdNetBindWithOptions p (s_network s) (s_options s))
      \<lparr>s_udpAddrPool := s_udpAddrPool s, s_msgsPool := s_msgsPool s, s_batchSize := s_batchSize s\<rparr>"
proof -
  have inv: "bind_wf s" "leaks w0 w c = held_by s c"
    using bind_inv_run [OF assms(1-4) bind_inv_New] by (simp_all add: bind_inv_def)
  note st = Close_state [OF assms(5) inv(1), of p]
  have "closed s'" by (simp add: st closed_def NewStdNetBindWithOptions_def)
  then show ?thesis using inv(2) Close_leaks [OF assms(5), of w0 c] st by simp
qed

end
