(* ===== verification/Std_Samples.thy ===== *)
theory Std_Samples
  imports Std_Bind
begin

text \<open>
  A bind opened on the sample network, and the properties of \<open>Std_Bind\<close> applied to it: both
  families open on one port, with batch connections and receive offload.
\<close>

definition sample_bind :: std_bind where
  "sample_bind = NewStdNetBind Linux (Some sample_net)"

lemma sample_configure:
  "nw = ''udp4'' \<or> nw = ''udp6'' \<Longrightarrow> fst (configureSocket (sample_env Linux) c nw ad w) = None"
  by (auto simp: configureSocket_def socketOpenControlFns_def linux_tag_def ctl_buffers_linux_def
      ctl_pktinfo_linux_def ctl_gro_linux_def run_control_def sample_raw_def sys_setsockopt_def
      kernelVersion_def sample_release_def Let_def)

lemma configureSocket_conn: "w_conn (snd (configureSocket E c nw ad w)) = w_conn w"
  by (auto simp: configureSocket_def Let_def split: prod.splits option.splits)

lemma sample_listen:
  assumes nw: "nw = ''udp4'' \<or> nw = ''udp6''" and net: "s_network s = Some sample_net"
  shows "\<exists>t. listenNet (sample_env Linux) s nw port w = (Inr (length (w_conn w), 4242),
    \<lparr>w_sock = t, w_conn = w_conn w @ [EvListen nw (listenAddress nw port) (Inr (length (w_conn w)))]\<rparr>)"
proof -
  let ?ad = "listenAddress nw port" and ?c = "length (w_conn w)"
  let ?es = "w_conn w @ [EvListen nw ?ad (Inr ?c)]"
  obtain t where l: "net_Listen sample_net (listenConfig (sample_env Linux)) nw ?ad w =
      (Inr ?c, \<lparr>w_sock = t, w_conn = ?es\<rparr>)"
    by (cases w) (use nw in \<open>auto simp: net_Listen_def sample_net_def listenConfig_def listenControlFns_def
      linux_tag_def ctl_v6only_linux_def run_control_def sample_raw_def sys_setsockopt_def record_conn_def\<close>)
  let ?w1 = "\<lparr>w_sock = t, w_conn = ?es\<rparr>"
  obtain ce w2 where c: "configureSocket (sample_env Linux) ?c nw ?ad ?w1 = (ce, w2)" by fastforce
  then have "ce = None" "w_conn w2 = ?es"
    using sample_configure [OF nw, of ?c ?ad ?w1] configureSocket_conn [of "sample_env Linux" ?c nw ?ad ?w1] by auto
  then have "w2 = \<lparr>w_sock = w_sock w2, w_conn = ?es\<rparr>" by (cases w2) simp
  then show ?thesis using net l c \<open>ce = None\<close> by (simp add: listenNet_def sample_env_def) metis
qed

lemma sample_batch_conn: "batch_conn (sample_env Linux) c = Ret (Some c)"
  by (simp add: batch_conn_def unwrapUDPConn_def unwrapValue.simps [of _ c]) (simp add: sample_env_def)

lemma sample_offload: "\<exists>w'. supportsUDPOffload (sample_env Linux) c w = ((True, True), w') \<and> w_conn w' = w_conn w"
  by (simp add: supportsUDPOffload_def linux_tag_def run_control_def sys_getsockopt_def)
    (simp add: sample_env_def Let_def)

lemma sample_install4:
  "\<exists>w'. install4 (sample_env Linux) (Some c) s w =
     Ret ([ReceiveIPv4 (Some c) c True], with4 (Some c) True True (Some c) s, w') \<and> w_conn w' = w_conn w"
  using sample_offload [of c w] by (auto simp: install4_def sample_batch_conn with4_def)

lemma sample_install6:
  "\<exists>w'. install6 (sample_env Linux) (Some c) s w =
     Ret ([ReceiveIPv6 (Some c) c True], with6 (Some c) True True (Some c) s, w') \<and> w_conn w' = w_conn w"
  using sample_offload [of c w] by (auto simp: install6_def sample_batch_conn with6_def)

definition sample_opened :: std_bind where
  "sample_opened = with6 (Some 1) True True (Some 1) (with4 (Some 0) True True (Some 0) sample_bind)"

lemma sample_bind_simps [simp]:
  "s_network sample_bind = Some sample_net" "s_ipv4 sample_bind = None" "s_ipv6 sample_bind = None"
  "familyOrder sample_bind = (''udp4'', ''udp6'')"
  by (simp_all add: sample_bind_def NewStdNetBind_def NewStdNetBindWithOptions_def familyOrder_def FamilyOrderIPv6First_def)

lemma sample_open:
  "\<exists>w'. Open (sample_env Linux) sample_bind 0 sample_world =
     Ret (Inr ([ReceiveIPv4 (Some 0) 0 True, ReceiveIPv6 (Some 1) 1 True], 4242), sample_opened, w') \<and>
     w_conn w' = [EvListen ''udp4'' (listenAddress ''udp4'' 0) (Inr 0), EvListen ''udp6'' (listenAddress ''udp6'' 4242) (Inr 1)]"
proof -
  let ?op = "\<lparr>op_first = Some 0, op_second = Some 1, op_port = 4242, op_familyError = None\<rparr>"
  obtain t1 where l1: "listenNet (sample_env Linux) sample_bind ''udp4'' 0 sample_world =
      (Inr (0, 4242), \<lparr>w_sock = t1, w_conn = [EvListen ''udp4'' (listenAddress ''udp4'' 0) (Inr 0)]\<rparr>)"
    using sample_listen [of "''udp4''" sample_bind 0 sample_world] by (auto simp: sample_world_def)
  obtain t2 where l2: "listenNet (sample_env Linux) sample_bind ''udp6'' 4242
        \<lparr>w_sock = t1, w_conn = [EvListen ''udp4'' (listenAddress ''udp4'' 0) (Inr 0)]\<rparr> =
      (Inr (1, 4242), \<lparr>w_sock = t2, w_conn = [EvListen ''udp4'' (listenAddress ''udp4'' 0) (Inr 0),
         EvListen ''udp6'' (listenAddress ''udp6'' 4242) (Inr 1)]\<rparr>)"
    using sample_listen [of "''udp6''" sample_bind 4242
        "\<lparr>w_sock = t1, w_conn = [EvListen ''udp4'' (listenAddress ''udp4'' 0) (Inr 0)]\<rparr>"] by auto
  define w1 where "w1 = \<lparr>w_sock = t2, w_conn = [EvListen ''udp4'' (listenAddress ''udp4'' 0) (Inr 0),
         EvListen ''udp6'' (listenAddress ''udp6'' 4242) (Inr 1)]\<rparr>"
  have oa: "open_again (sample_env Linux) sample_bind (unat (0 :: port)) 0 sample_world = (Inr ?op, w1)"
    by (subst open_again.simps) (simp add: open_attempt_def l1 l2 w1_def)
  have v: "v4_of sample_bind ?op = Some 0" "v6_of sample_bind ?op = Some 1" by (simp_all add: v4_of_def v6_of_def)
  obtain w2 where i: "install4 (sample_env Linux) (Some 0) sample_bind w1 =
     Ret ([ReceiveIPv4 (Some 0) 0 True], with4 (Some 0) True True (Some 0) sample_bind, w2)" "w_conn w2 = w_conn w1"
    using sample_install4 by blast
  obtain w3 where j: "install6 (sample_env Linux) (Some 1) (with4 (Some 0) True True (Some 0) sample_bind) w2 =
     Ret ([ReceiveIPv6 (Some 1) 1 True], sample_opened, w3)" "w_conn w3 = w_conn w2"
    using sample_install6 [of 1 "with4 (Some 0) True True (Some 0) sample_bind" w2] by (auto simp: sample_opened_def)
  have "closed sample_bind" by (simp add: closed_def)
  then show ?thesis
    using Open_installs [OF _ oa] i j v by (simp add: open_callback_def w1_def)
qed

lemma sample_bind_wf: "bind_wf sample_bind"
  by (simp add: sample_bind_def NewStdNetBind_def bind_wf_New)

theorem Open_no_leak_witness:
  "\<exists>r s' w'. Open (sample_env Linux) sample_bind 0 sample_world = Ret (r, s', w') \<and>
     leaks sample_world w' 0 = held_by s' 0 - held_by sample_bind 0"
  using sample_open Open_no_leak [of "sample_env Linux" sample_bind 0 sample_world _ _ _ 0] by blast

theorem Open_all_or_nothing_witness:
  "\<exists>fns port s' w'. Open (sample_env Linux) sample_bind 0 sample_world = Ret (Inr (fns, port), s', w') \<and> bind_wf s'"
  using sample_open Open_all_or_nothing [OF _ sample_bind_wf, of "sample_env Linux" 0 sample_world] by fastforce

theorem Open_terminates_witness:
  "\<exists>r s' w'. Open (sample_env Linux) sample_bind 0 sample_world = Ret (r, s', w') \<and> listens w' \<le> 202"
  using Open_terminates [of "sample_env Linux" "\<lambda>_. 0" sample_bind 0 sample_world]
  by (simp add: listens_def sample_world_def)

theorem Open_one_port_witness:
  "\<exists>w'. EvListen ''udp6'' (listenAddress ''udp6'' 4242) (Inr 1) \<in> set (w_conn w') \<and>
     Open (sample_env Linux) sample_bind 0 sample_world =
       Ret (Inr ([ReceiveIPv4 (Some 0) 0 True, ReceiveIPv6 (Some 1) 1 True], 4242), sample_opened, w')"
proof -
  obtain w' where o: "Open (sample_env Linux) sample_bind 0 sample_world =
     Ret (Inr ([ReceiveIPv4 (Some 0) 0 True, ReceiveIPv6 (Some 1) 1 True], 4242), sample_opened, w')"
    using sample_open by blast
  have "s_ipv4 sample_opened = Some 0" "s_ipv6 sample_opened = Some 1"
    by (simp_all add: sample_opened_def with_family)
  from Open_one_port [OF o this] o show ?thesis by (auto simp: sample_env_def)
qed

end
