(* ===== verification/Receive_Samples.thy ===== *)
theory Receive_Samples
  imports Std_Lifecycle Std_Samples
begin

text \<open>
  The receive properties applied to a bind that reads a message of five bytes which the kernel
  coalesced from datagrams of two bytes.
\<close>

definition rx_bind :: "int \<Rightarrow> std_bind" where
  "rx_bind n = (NewStdNetBindWithOptions Linux (Some sample_net)
     \<lparr>oFamilyOrder = 0, oAllowSingleFamily = False, oOnFamilyOpenError = False, oBatchSize = n\<rparr>)\<lparr>s_ipv4 := Some 0\<rparr>"

definition rx_env :: "rx_msg list \<Rightarrow> env" where
  "rx_env rs = (sample_env Linux)\<lparr>eReadBatch := \<lambda>w c n. Inr (take n rs), eReadMsgUDP := \<lambda>w c. Inr (hd rs)\<rparr>"

definition rx_store :: store where
  "rx_store = \<lparr>arrs = (\<lambda>i. replicate 8 0), brk = 128\<rparr>"

definition rx_bufs :: "nat \<Rightarrow> slice list" where
  "rx_bufs n = map (\<lambda>i. \<lparr>sarr = i, soff = 0, slen = 8, scap = 8\<rparr>) [0..<n]"

definition gro_hdr :: cmsghdr where
  "gro_hdr = \<lparr>hLen = 18, hLevel = SOL_UDP linux_amd64, hType = UDP_GRO linux_amd64\<rparr>"

definition gro_control :: "16 word \<Rightarrow> byte list" where
  "gro_control g = hdr_bytes linux_amd64 gro_hdr @ u16_bytes linux_amd64 g @ replicate 6 0"

definition rx_peer :: udp_addr where
  "rx_peer = \<lparr>ua_IP = \<lparr>cdata = [192, 0, 2, 7], clen = 4\<rparr>, ua_Port = 9, ua_Zone = []\<rparr>"

definition sample_rx :: rx_msg where
  "sample_rx = \<lparr>rx_data = [1, 2, 3, 4, 5], rx_control = gro_control 2, rx_addr = Some rx_peer\<rparr>"

lemma gro_control_encodes: "cmsg_encodes linux_amd64 (gro_control g) [(gro_hdr, u16_bytes linux_amd64 g)]"
proof -
  have "cmsg_image linux_amd64 gro_hdr [] (u16_bytes linux_amd64 g) (replicate 6 0)"
    by (simp add: cmsg_image_def gro_hdr_def amd64.u16_length linux_amd64_def cmsgAlignOf_def)
  then show ?thesis using amd64.encodes_single by (fastforce simp: gro_control_def)
qed

lemma gro_control_length: "length (gro_control g) = 24"
  by (simp add: gro_control_def amd64.hdr_length amd64.u16_length) (simp add: linux_amd64_def)

lemma rx_gro_sample: "rx_gro linux_amd64 sample_rx = 2"
proof -
  have ne: "\<forall>(hdr, d) \<in> set [(gro_hdr, u16_bytes linux_amd64 2)]. d \<noteq> []"
    using amd64.u16_length [of 2] by auto
  have "u16_read linux_amd64 (take 2 (u16_bytes linux_amd64 2)) = 2"
    using amd64.u16_length [of 2] amd64.u16_round by simp
  then show ?thesis
    using amd64.list_encodes [OF gro_control_encodes ne]
    by (simp add: rx_gro_def sample_rx_def gro_size_def is_gro_def gro_hdr_def amd64.u16_length)
qed

lemma sample_rx_datagrams: "rx_datagrams linux_amd64 sample_rx = [([1, 2], Some rx_peer), ([3, 4], Some rx_peer), ([5], Some rx_peer)]"
  by (simp add: rx_datagrams_def rx_gro_sample) (simp add: sample_rx_def segments.simps)

lemma sample_rx_coalesced: "rx_coalesced linux_amd64 sample_rx"
proof -
  have "\<forall>(hdr, d) \<in> set [(gro_hdr, u16_bytes linux_amd64 2)]. d \<noteq> []"
    using amd64.u16_length [of 2] by auto
  then show ?thesis
    using gro_control_encodes [of 2]
    by (auto simp: rx_coalesced_def sample_rx_datagrams rx_gro_sample udpSegmentMaxDatagrams_def)
      (auto simp: sample_rx_def)
qed

lemma sample_rx_fits: "rx_fits (ctl_size linux_amd64) (rx_bufs n) sample_rx"
  by (simp add: rx_fits_def rx_bufs_def sample_rx_def gro_control_length)
    (simp add: ctl_size_def stickyControlSize_def gsoControlSize_def linux_tag_def linux_amd64_def cmsgAlignOf_def sizeOfGSOData_def)

lemma rx_ready:
  assumes "0 < n"
  shows "receive_ready linux_amd64 (rx_bind (int n)) (rx_bufs n) (replicate n 0) (replicate n None) rx_store"
proof -
  have "s_batchSize (rx_bind (int n)) = n" "s_msgsPool (rx_bind (int n)) = []" "s_udpAddrPool (rx_bind (int n)) = []"
    using assms by (simp_all add: rx_bind_def NewStdNetBindWithOptions_def stdNetBindBatchSize_def)
  then show ?thesis
    using assms by (simp add: receive_ready_def pools_ok_def rx_bufs_def comp_def)
      (simp add: sl_wf_def rx_store_def)
qed

lemma rx_batchSize: "0 < n \<Longrightarrow> s_batchSize (rx_bind (int n)) = n"
  by (simp add: rx_bind_def NewStdNetBindWithOptions_def stdNetBindBatchSize_def)

lemma rx_receiving: "receiving (rx_bind n) (ReceiveIPv4 pc c rx) w"
  by (simp add: receiving_def rx_bind_def NewStdNetBindWithOptions_def networkDown_def sample_net_def)

lemma rx_env_simps [simp]:
  "eGOOS (rx_env rs) = Linux" "eReadBatch (rx_env rs) w c n = Inr (take n rs)" "eReadMsgUDP (rx_env rs) w c = Inr (hd rs)"
  by (simp_all add: rx_env_def)

theorem receive_gro_delivers_witness:
  "\<exists>R. receive_with (rx_env [sample_rx]) linux_amd64 (rx_bind 64) (ReceiveIPv4 (Some 0) 0 True) (rx_bufs 64)
       (replicate 64 0) (replicate 64 None) rx_store sample_world = Ret R \<and> rr_n R = 3 \<and>
     got R (rx_bufs 64) (replicate 64 None) 1 [3, 4] (Some rx_peer)"
  using receive_gro_delivers [where E = "rx_env [sample_rx]" and A = linux_amd64 and s = "rx_bind 64" and
      fn = "ReceiveIPv4 (Some 0) 0 True" and pc = 0 and c = 0 and rs = "[sample_rx]" and w = sample_world and
      ds = "rx_datagrams linux_amd64 sample_rx" and bufs = "rx_bufs 64" and sizes = "replicate 64 0" and
      eps = "replicate 64 None" and h = rx_store]
    rx_ready [of 64] rx_receiving rx_batchSize [of 64] sample_rx_fits [of 64] sample_rx_coalesced amd64.cmsg_codec_axioms
  by (auto simp: udpSegmentMaxDatagrams_def sample_rx_datagrams)

theorem receive_batch_delivers_witness:
  "\<exists>R. receive_with (rx_env [sample_rx]) linux_amd64 (rx_bind 2) (ReceiveIPv4 (Some 0) 0 False) (rx_bufs 2)
       (replicate 2 0) (replicate 2 None) rx_store sample_world = Ret R \<and> rr_n R = 1 \<and>
     got R (rx_bufs 2) (replicate 2 None) 0 [1, 2, 3, 4, 5] (Some rx_peer)"
  using receive_batch_delivers [where E = "rx_env [sample_rx]" and A = linux_amd64 and s = "rx_bind 2" and
      fn = "ReceiveIPv4 (Some 0) 0 False" and pc = 0 and c = 0 and rs = "[sample_rx]" and w = sample_world and
      rx = False and bufs = "rx_bufs 2" and sizes = "replicate 2 0" and eps = "replicate 2 None" and h = rx_store]
    rx_ready [of 2] rx_receiving rx_batchSize [of 2] sample_rx_fits [of 2] amd64.cmsg_codec_axioms
  by (auto simp: sample_rx_def)

theorem receive_single_delivers_witness:
  "\<exists>R. receive_with (rx_env [sample_rx]) linux_amd64 (rx_bind 1) (ReceiveIPv4 None 0 False) (rx_bufs 1)
       (replicate 1 0) (replicate 1 None) rx_store sample_world = Ret R \<and> rr_n R = 1 \<and>
     got R (rx_bufs 1) (replicate 1 None) 0 [1, 2, 3, 4, 5] (Some rx_peer)"
  using receive_single_delivers [where E = "rx_env [sample_rx]" and A = linux_amd64 and s = "rx_bind 1" and
      fn = "ReceiveIPv4 None 0 False" and c = 0 and r = sample_rx and w = sample_world and
      rx = False and bufs = "rx_bufs 1" and sizes = "replicate 1 0" and eps = "replicate 1 None" and h = rx_store]
    rx_ready [of 1] rx_receiving rx_batchSize [of 1] sample_rx_fits [of 1] amd64.cmsg_codec_axioms
  by (auto simp: sample_rx_def)


section \<open>A run\<close>

lemma sample_run:
  "\<exists>w. bind_run (sample_env Linux) linux_amd64
     (NewStdNetBindWithOptions Linux (Some sample_net)
       \<lparr>oFamilyOrder = 0, oAllowSingleFamily = False, oOnFamilyOpenError = False, oBatchSize = 0\<rparr>, rx_store, sample_world)
     (sample_opened, rx_store, w)"
proof -
  obtain w' where "Open (sample_env Linux) sample_bind 0 sample_world =
     Ret (Inr ([ReceiveIPv4 (Some 0) 0 True, ReceiveIPv6 (Some 1) 1 True], 4242), sample_opened, w')"
    using sample_open by blast
  then have "bind_step (sample_env Linux) linux_amd64 (sample_bind, rx_store, sample_world) (sample_opened, rx_store, w')"
    by (rule step_Open)
  then show ?thesis by (auto simp: bind_run_def sample_bind_def NewStdNetBind_def)
qed

lemma sample_writes: "write_progress (sample_env Linux)"
  by (simp add: write_progress_def)

theorem bind_lifecycle_witness:
  "\<exists>w. pools_ok linux_amd64 sample_opened \<and> leaks sample_world w 0 = 1"
proof -
  obtain w where w: "bind_run (sample_env Linux) linux_amd64
     (NewStdNetBindWithOptions Linux (Some sample_net)
       \<lparr>oFamilyOrder = 0, oAllowSingleFamily = False, oOnFamilyOpenError = False, oBatchSize = 0\<rparr>, rx_store, sample_world)
     (sample_opened, rx_store, w)" using sample_run by blast
  have "held_by sample_opened 0 = 1" by (simp add: held_by_def sample_opened_def with_family)
  then show ?thesis
    using bind_lifecycle [OF sample_env_simps(1) amd64.cmsg_codec_axioms sample_writes w]
    by (intro exI [of _ w]) simp
qed

theorem Close_at_any_time_witness:
  "\<exists>w err s' w'. Close (sample_env Linux) sample_opened w = (err, s', w') \<and> leaks sample_world w' 0 = 0 \<and> closed s'"
proof -
  obtain w where w: "bind_run (sample_env Linux) linux_amd64
     (NewStdNetBindWithOptions Linux (Some sample_net)
       \<lparr>oFamilyOrder = 0, oAllowSingleFamily = False, oOnFamilyOpenError = False, oBatchSize = 0\<rparr>, rx_store, sample_world)
     (sample_opened, rx_store, w)" using sample_run by blast
  obtain err s' w' where "Close (sample_env Linux) sample_opened w = (err, s', w')" by (metis prod_cases3)
  then show ?thesis
    using Close_at_any_time [OF sample_env_simps(1) amd64.cmsg_codec_axioms sample_writes w] by blast
qed

section \<open>What receive offload does not keep\<close>


definition pktinfo_control :: "byte \<Rightarrow> byte list" where
  "pktinfo_control x =
     hdr_bytes linux_amd64 \<lparr>hLen = 28, hLevel = IPPROTO_IP linux_amd64, hType = IP_PKTINFO linux_amd64\<rparr> @
     [1, 0, 0, 0, 10, 0, 0, x, 10, 0, 0, x, 0, 0, 0, 0]"

definition peer :: "byte \<Rightarrow> udp_addr" where
  "peer x = \<lparr>ua_IP = \<lparr>cdata = [192, 0, 2, x], clen = 4\<rparr>, ua_Port = 9, ua_Zone = []\<rparr>"

text \<open>A message read into buffer \<open>i\<close> from peer \<open>x\<close> on the local address 10.0.0.x, in pieces of one byte.\<close>

definition read_from :: "nat \<Rightarrow> nat \<Rightarrow> byte \<Rightarrow> message" where
  "read_from i n x =
     \<lparr>Buffers = [rx_bufs 3 ! i], OOB = (let c = pktinfo_control x @ gro_control 1 in \<lparr>cdata = c, clen = length c\<rparr>),
      Addr = Some (peer x), N = n, NN = length (pktinfo_control x @ gro_control 1)\<rparr>"

definition ep_view :: "endpoint option \<Rightarrow> (byte list \<times> addr) option" where
  "ep_view e = (case e of Some (StdEndpoint ep) \<Rightarrow> Some (As16 (DstIP ep), SrcIP Linux linux_amd64 ep) | _ \<Rightarrow> None)"


end
