(* ===== verification/Send_Samples.thy ===== *)
theory Send_Samples
  imports Std_Samples Std_Send
begin

text \<open>
  The transmit properties applied to an opened bind and two small datagrams, and a run of two
  sends that shows what a pooled destination address does to an IPv6 endpoint.
\<close>

definition sample_store :: store where
  "sample_store = \<lparr>arrs = (\<lambda>i. replicate 8 (of_nat i)), brk = 2\<rparr>"

definition sample_buf :: "nat \<Rightarrow> slice" where
  "sample_buf i = \<lparr>sarr = i, soff = 0, slen = 3, scap = 8\<rparr>"

definition sample_ep4 :: std_endpoint where
  "sample_ep4 = \<lparr>AddrPort = \<lparr>ap_addr = Addr4 [192, 0, 2, 1], ap_port = 51820\<rparr>, src = None\<rparr>"

definition sample_ip6 :: "byte list" where
  "sample_ip6 = [0x20, 1, 0x0d, 0xb8, 0, 0, 0, 0, 0, 0, 0, 0, 0, 0, 0, 1]"

definition sample_ep6 :: std_endpoint where
  "sample_ep6 = \<lparr>AddrPort = \<lparr>ap_addr = Addr6 sample_ip6 [], ap_port = 51820\<rparr>, src = None\<rparr>"

definition plain_bind :: std_bind where
  "plain_bind = (NewStdNetBindWithOptions Linux (Some sample_net)
       \<lparr>oFamilyOrder = 0, oAllowSingleFamily = False, oOnFamilyOpenError = False, oBatchSize = 1\<rparr>)
     \<lparr>s_ipv4 := Some 0, s_ipv6 := Some 1\<rparr>"

definition reusing_env :: env where
  "reusing_env = (sample_env Linux)\<lparr>ePoolGet := \<lambda>p w. Some 0\<rparr>"

lemma twelve_zeros: "replicate 12 (0 :: byte) = [0, 0, 0, 0, 0, 0, 0, 0, 0, 0, 0, 0]"
  by (simp add: numeral_eq_Suc)


section \<open>The properties on a sample\<close>

lemma sample_ready: "send_ready linux_amd64 sample_opened [sample_buf 0, sample_buf 1] sample_ep4 sample_store"
proof -
  have "s_batchSize sample_opened = 128" "s_msgsPool sample_opened = []" "s_udpAddrPool sample_opened = []"
    by (simp_all add: sample_opened_def sample_bind_def NewStdNetBind_def NewStdNetBindWithOptions_def
        stdNetBindBatchSize_def sample_net_def IdealBatchSize_def)
  moreover have "ep_sendable linux_amd64 sample_ep4"
    by (auto simp: ep_sendable_def ep_wf_def src_len_def src_bytes_def sample_ep4_def intro: exI [of _ "[]"] cmsg_encodes.intros)
  ultimately show ?thesis
    by (simp add: send_ready_def pools_ok_def BatchSize_def DstIP_def addr_wf_def)
      (simp add: sample_ep4_def sample_buf_def sl_wf_def sample_store_def)
qed

lemma sample_view: "send_view sample_opened (DstIP sample_ep4) = (False, Some 0, True, Some 0, False)"
  by (simp add: send_view_def sample_ep4_def DstIP_def sample_opened_def with4_def with6_def sample_bind_def
      NewStdNetBind_def NewStdNetBindWithOptions_def)

lemma sample_progress: "write_progress (sample_env Linux)"
  by (simp add: write_progress_def)

lemma sample_opened_wf: "bind_wf sample_opened"
  unfolding sample_opened_def by (intro bind_wf_with sample_bind_wf)

lemmas sample_send = amd64.cmsg_codec_axioms sample_env_simps(1) sample_progress sample_ready

theorem coalesceMessages_sends_bufs_witness:
  "\<exists>n msgs' h'. coalesceMessages Linux new_udp_addr sample_ep4 [sample_buf 0, sample_buf 1]
      (replicate 2 (new_message Linux linux_amd64)) (setGSOSize Linux linux_amd64) sample_store = Ret (n, msgs', h') \<and>
    concat (map (wire_datagrams linux_amd64 h') (take n msgs')) = [[0, 0, 0], [1, 1, 1]]"
proof -
  have "pooled linux_amd64 (new_message Linux linux_amd64)"
    by (simp add: pooled_def new_message_def cb_wf_def cb_cap_def cb_make_def)
  moreover have "map (sl_read sample_store) [sample_buf 0, sample_buf 1] = [[0, 0, 0], [1, 1, 1]]"
    by (simp add: sl_read_def sample_buf_def sample_store_def numeral_eq_Suc)
  ultimately show ?thesis
    using coalesceMessages_sends_bufs [of linux_amd64 sample_ep4 "replicate 2 (new_message Linux linux_amd64)"
        "[sample_buf 0, sample_buf 1]" sample_store new_udp_addr] sample_ready amd64.cmsg_codec_axioms
    by (auto simp: send_ready_def)
qed




end
