(* ===== verification/Batching_Samples.thy ===== *)
theory Batching_Samples
  imports Batching_Correct Receive_Samples Send_Samples
begin

text \<open>
  The properties of batching connections on a sample connection, and three runs that show what the
  code does not do: the retry after rejected segmentation offload, the second read into the same
  messages, and the capacity for control data.
\<close>

definition sample_bc :: "bool \<Rightarrow> batching_conn" where
  "sample_bc tx = \<lparr>bc_UDPConn = 0, bc_xpc = 0, bc_rxOffload = True, bc_txOffload = tx, bc_batchSize = 4, bc_sendBatchPool = []\<rparr>"


section \<open>Reading\<close>

definition rx_messages :: "nat \<Rightarrow> message list" where
  "rx_messages n = map (\<lambda>b. \<lparr>Buffers = [b], OOB = cb_make 0 24, Addr = None, N = 0, NN = 0\<rparr>) (rx_bufs n)"

lemma rx_messages_simps [simp]:
  "length (rx_messages n) = n" "map buffer0 (rx_messages n) = rx_bufs n"
  by (simp_all add: rx_messages_def buffer0_def rx_bufs_def comp_def)

lemma rx_messages_args: "read_args linux_amd64 (rx_messages n) rx_store"
proof -
  have m: "length (Buffers m) = 1 \<and> OOB m = cb_make 0 24 \<and> N m = 0 \<and> NN m = 0 \<and> sl_wf rx_store (buffer0 m)"
    if "m \<in> set (rx_messages n)" for m
    using that by (auto simp: rx_messages_def rx_bufs_def buffer0_def sl_wf_def rx_store_def)
  have "map (\<lambda>m. sarr (buffer0 m)) (rx_messages n) = [0..<n]"
    by (simp add: rx_messages_def rx_bufs_def buffer0_def comp_def)
  then have "msgs_ok rx_store (rx_messages n)" using m by (fastforce simp: msgs_ok_def)
  moreover have "gsoControlSize Linux linux_amd64 = 24"
    by (simp add: gsoControlSize_def linux_tag_def linux_amd64_def cmsgAlignOf_def sizeOfGSOData_def)
  ultimately show ?thesis
    using m by (auto simp: read_args_def roomy_def cb_wf_def dest!: in_set_dropD)
qed


section \<open>What goes wrong\<close>

lemma sixteen_zeros: "replicate 16 (0 :: byte) = [0, 0, 0, 0] @ replicate 12 0"
  by (simp add: numeral_eq_Suc)

definition eio_env :: env where
  "eio_env = (sample_env Linux)\<lparr>eWriteBatch := \<lambda>w c ms.
     if w_conn w = [] then (0, Some (SyscallError ''sendmmsg'' EIO)) else (length ms, None)\<rparr>"

lemma eio_env_simps [simp]:
  "eGOOS eio_env = Linux" "ePoolGet eio_env p w = None" "eLocalAddr eio_env w c = (''udp'', ''[::]:4242'')"
  "eWriteBatch eio_env w c ms = (if w_conn w = [] then (0, Some (SyscallError ''sendmmsg'' EIO)) else (length ms, None))"
  by (simp_all add: eio_env_def sample_env_def)

text \<open>
  C23. When the kernel rejects segmentation offload, \<open>WriteBatchTo\<close> retries without trimming the
  gathered buffers: of two datagrams the first is sent with the second appended to it, and the
  second is sent again, although the call reports that the retry succeeded.
\<close>

theorem WriteBatchTo_retry_merges:
  "(case WriteBatchTo eio_env linux_amd64 (sample_bc True) [sample_buf 0, sample_buf 1] (AddrPort sample_ep4)
       sample_store sample_world of
      Ret (err, c', w') \<Rightarrow> Some (err, map (wire_split linux_amd64) (accepted (w_conn w'))) | _ \<Rightarrow> None) =
   Some (Some (ErrUDPGSODisabled ''[::]:4242'' None), [[[0, 0, 0, 1, 1, 1]], [[1, 1, 1]]])"
proof -
  define ip where "ip = \<lparr>cdata = [192, 0, 2, 1] @ replicate 12 0, clen = 4\<rparr>"
  define ua where "ua = \<lparr>ua_IP = ip, ua_Port = unat (51820 :: port), ua_Zone = []\<rparr>"
  let ?m = "\<lparr>Buffers = [nil_slice], OOB = cb_make 0 24, Addr = Some new_udp_addr, N = 0, NN = 0\<rparr>"
  let ?set = "setGSOSize Linux linux_amd64" and ?msgs = "replicate 4 ?m"
  let ?b = "[sample_buf 0, sample_buf 1]"
  have cap: "gsoControlSize Linux linux_amd64 = 24"
    by (simp add: gsoControlSize_def linux_tag_def linux_amd64_def cmsgAlignOf_def sizeOfGSOData_def)
  have gs: "batches (gso_ok (sg_maxPayloadLen ua)) ?b = [?b]"
    by (simp add: batches_def gso_ok_def sample_buf_def sg_maxPayloadLen_def IP_To4_nil_def cb_bytes_def ua_def ip_def
        maxIPv4PayloadLen_def udpSegmentMaxDatagrams_def)
  have "pool_ready ?msgs" "\<forall>m \<in> set ?msgs. length (Buffers m) = 1"
    by (simp_all add: pool_ready_def cb_wf_def)
  then obtain msgs' where co: "bc_coalesceMessages ?set ua ?b ?msgs = Ret (1, msgs')"
    and ref: "sg_batches ?set ua ?msgs [?b] msgs'"
    using linux_gso.sg_refines [of ?msgs ?b Linux ua] gs by auto
  have m': "msgs' = [sg_msg ?set ua True ?m ?b, ?m, ?m, ?m]"
  proof -
    have "length msgs' = Suc (Suc (Suc (Suc 0)))" using ref by (simp add: sg_batches_def)
    then obtain a b c d where l: "msgs' = [a, b, c, d]" by (auto simp: length_Suc_conv)
    have "msgs' ! 0 = sg_msg ?set ua True ?m ?b" using ref by (simp add: sg_batches_def)
    moreover have "msgs' ! k = ?m" if "1 \<le> k" "k < 4" for k using ref that by (simp add: sg_batches_def)
    from this [of 1] this [of 2] this [of 3] have "msgs' ! 1 = ?m" "msgs' ! 2 = ?m" "msgs' ! 3 = ?m" by simp_all
    ultimately show ?thesis unfolding l by simp
  qed
  have dst: "set_dst False (Addr4 [192, 0, 2, 1]) new_udp_addr = Ret (ua\<lparr>ua_Port := 0\<rparr>)"
    by (simp add: ua_def ip_def set_dst_def As4_def cb_reslice_def cb_copy_at_def new_udp_addr_def cb_make_def cb_cap_def overwrite_def sixteen_zeros twelve_zeros)
  have ua: "ua\<lparr>ua_Port := 51820\<rparr> = ua" by (simp add: ua_def)
  let ?x0 = "(OOB (sg_msg ?set ua True ?m ?b))\<lparr>clen := 0\<rparr>"
  let ?p0 = "(sg_msg ?set ua True ?m ?b)\<lparr>OOB := ?x0\<rparr>" and ?p1 = "?m\<lparr>Buffers := [sample_buf 1], Addr := Some ua\<rparr>"
  have plain: "bc_plain_messages ua 0 ?b msgs' = Ret [?p0, ?p1, ?m, ?m]"
    by (simp add: m' sg_msg_def cb_make_def)
  have none: "segment_size linux_amd64 [] = None"
    using amd64.empty_control [of "cb_make 0 0"] by (simp add: cb_bytes_def cb_make_def)
  have rd: "sl_read sample_store (sample_buf 0) = [0, 0, 0]" "sl_read sample_store (sample_buf 1) = [1, 1, 1]"
    by (simp_all add: sl_read_def sample_buf_def sample_store_def numeral_eq_Suc)
  have gone: "errShouldDisableUDPGSO Linux (SyscallError ''sendmmsg'' EIO)"
    by code_simp
  let ?w1 = "record_conn (EvWriteBatch 0 (map (wire_of sample_store) [sg_msg ?set ua True ?m ?b])
      (0, Some (SyscallError ''sendmmsg'' EIO))) sample_world"
  have w1: "writeBatch eio_env (sample_bc True) (take 1 msgs') sample_store sample_world = Ret (Some (SyscallError ''sendmmsg'' EIO), ?w1)"
    by (simp add: writeBatch_def send_loop.simps [of eio_env] m' sample_world_def sample_bc_def Let_def)
  have w2: "writeBatch eio_env (sample_bc True) [?p0, ?p1] sample_store ?w1 =
      Ret (None, record_conn (EvWriteBatch 0 (map (wire_of sample_store) [?p0, ?p1]) (2, None)) ?w1)"
    by (simp add: writeBatch_def send_loop.simps [of eio_env] sample_bc_def record_conn_def Let_def)
  have off: "bc_write_offload eio_env linux_amd64 (sample_bc True) ua ?b ?msgs sample_store sample_world =
      Ret (None, True, [?p0, ?p1, ?m, ?m], record_conn (EvWriteBatch 0 (map (wire_of sample_store) [?p0, ?p1]) (2, None)) ?w1)"
    using co w1 w2 plain gone by (simp add: bc_write_offload_def bc_write_plain_def)
  have "getSendBatch eio_env linux_amd64 (sample_bc True) sample_world = (\<lparr>sb_msgs = ?msgs, sb_ua = new_udp_addr\<rparr>, sample_bc True)"
    by (simp add: getSendBatch_def pool_get_def new_send_batch_def sample_bc_def cap)
  moreover have "wire_split linux_amd64 (wire_of sample_store ?p0) = [[0, 0, 0, 1, 1, 1]]"
    "wire_split linux_amd64 (wire_of sample_store ?p1) = [[1, 1, 1]]"
    by (simp_all add: wire_datagrams_def payload_def rd rd(2) [unfolded One_nat_def] none cb_bytes_def)
  ultimately show ?thesis
    using dst off ua by (simp add: WriteBatchTo_def sample_ep4_def sample_bc_def [THEN arg_cong, of bc_batchSize]
      sample_bc_def [THEN arg_cong, of bc_txOffload] accepted_def record_conn_def sample_world_def [THEN arg_cong, of w_conn])
qed

definition plain_rx :: "byte \<Rightarrow> rx_msg" where
  "plain_rx x = \<lparr>rx_data = [x], rx_control = [], rx_addr = Some rx_peer\<rparr>"

definition two_then_one :: env where
  "two_then_one = (sample_env Linux)\<lparr>eReadBatch := \<lambda>w c n.
     Inr (if w_conn w = [] then [plain_rx 1, plain_rx 2] else [plain_rx 3])\<rparr>"


end
