(* ===== verification/Roundtrips.thy ===== *)
theory Roundtrips
  imports Batching_Samples
begin

text \<open>
  Control data read back after it was written, and the agreement of the two coalescing routines:
  what \<open>sticky_linux.go\<close> caches is what it replays, what \<open>gso_linux.go\<close> writes is what the kernel
  reads, and \<open>coalesceMessages\<close> of \<open>bind_std.go\<close>, which copies, puts the same messages on the wire
  as \<open>coalesceMessages\<close> of \<open>batching_conn_linux.go\<close>, which does not.
\<close>

section \<open>Sticky sources\<close>

text \<open>
  C25. The sticky source survives the round trip. When received control data carries a PKTINFO
  message of either family, possibly after messages of other levels, \<open>getSrcFromControl\<close> returns an
  endpoint with the same destination whose \<open>SrcIP\<close> and \<open>SrcIfidx\<close> are the address and the interface
  of that message, and \<open>setSrcControl\<close> then puts exactly that message, and nothing else, into the
  control data of a packet sent to the endpoint, whatever either buffer held before.
\<close>

theorem sticky_source_roundtrip:
  assumes "cmsg_codec A" and "cmsg_encodes A control (pre @ (h, data) # post)"
    and "\<forall>(h', d') \<in> set pre. d' \<noteq> [] \<and> hLevel h' \<noteq> IPPROTO_IP A \<and> hLevel h' \<noteq> IPPROTO_IPV6 A"
    and "hLevel h = IPPROTO_IP A \<and> hType h = IP_PKTINFO A \<and> n = SizeofInet4Pktinfo A \<or>
         hLevel h = IPPROTO_IPV6 A \<and> hType h = IPV6_PKTINFO A \<and> n = SizeofInet6Pktinfo A"
    and "length data = n" "ep_wf ep" "CmsgSpace A n \<le> cb_cap out"
  shows "\<exists>ep'. getSrcFromControl Linux A control ep = Ret ep' \<and> AddrPort ep' = AddrPort ep \<and>
    SrcIP Linux A ep' = (if hLevel h = IPPROTO_IP A then Addr4 (Inet4Pktinfo_Spec_dst A data)
                         else Addr6 (Inet6Pktinfo_Addr A data) '''') \<and>
    SrcIfidx Linux A ep' = (if hLevel h = IPPROTO_IP A then Inet4Pktinfo_Ifindex A data
                            else Inet6Pktinfo_Ifindex A data) \<and>
    cmsg_list A (cb_bytes (setSrcControl Linux out ep')) = [(h, data)]"
proof -
  obtain ep' where ep': "getSrcFromControl Linux A control ep = Ret ep'" "AddrPort ep' = AddrPort ep"
    "src_len ep' = CmsgSpace A n" "pktinfo_at A ep' n = data"
    "cmsg_list A (cb_bytes (setSrcControl Linux out ep')) = [(h, data)]"
    using cmsg_codec.sticky_round [OF assms] by blast
  have "IPPROTO_IP A \<noteq> IPPROTO_IPV6 A" "CmsgSpace A (SizeofInet4Pktinfo A) \<noteq> CmsgSpace A (SizeofInet6Pktinfo A)"
    using cmsg_codec.IP_IPV6 [OF assms(1)] cmsg_codec.Pktinfo_space [OF assms(1)] by auto
  then have "SrcIP Linux A ep' = (if hLevel h = IPPROTO_IP A then Addr4 (Inet4Pktinfo_Spec_dst A data)
      else Addr6 (Inet6Pktinfo_Addr A data) '''')"
    "SrcIfidx Linux A ep' = (if hLevel h = IPPROTO_IP A then Inet4Pktinfo_Ifindex A data
      else Inet6Pktinfo_Ifindex A data)"
    using assms(4) ep'(3,4) by (auto simp: SrcIP_def SrcIfidx_def)
  then show ?thesis using ep' by blast
qed

definition pktinfo4 :: "cmsghdr \<times> byte list" where
  "pktinfo4 = (\<lparr>hLen = 28, hLevel = 0, hType = 8\<rparr>, [7, 0, 0, 0, 10, 0, 0, 5, 10, 0, 0, 5])"

definition pktinfo4_bytes :: "byte list" where
  "pktinfo4_bytes = amd64_hdr (fst pktinfo4) @ snd pktinfo4 @ replicate 4 0"

lemma pktinfo4_encodes: "cmsg_encodes linux_amd64 (pktinfo4_bytes) [pktinfo4]"
proof -
  have "cmsg_image linux_amd64 (fst pktinfo4) [] (snd pktinfo4) (replicate 4 0)"
    by (simp add: cmsg_image_def pktinfo4_def linux_amd64_def cmsgAlignOf_def)
  then show ?thesis
    using amd64.encodes_single by (fastforce simp: pktinfo4_bytes_def linux_amd64_def)
qed

lemma gro_then_pktinfo: "cmsg_encodes linux_amd64 (gro_control 2 @ pktinfo4_bytes) ([(gro_hdr, u16_bytes linux_amd64 2)] @ [pktinfo4])"
  by (rule amd64.encodes_append [OF gro_control_encodes pktinfo4_encodes])

lemma amd64_pktinfo4:
  "IPPROTO_IP linux_amd64 = 0" "IP_PKTINFO linux_amd64 = 8" "SizeofInet4Pktinfo linux_amd64 = 12"
  "CmsgSpace linux_amd64 12 = 32" "Inet4Pktinfo_Spec_dst linux_amd64 bs = take 4 (drop 4 bs)"
  "Inet4Pktinfo_Ifindex linux_amd64 bs = of_nat (le_val (take 4 bs))"
  by (simp_all add: linux_amd64_def cmsgAlignOf_def)

theorem sticky_source_roundtrip_witness:
  "\<exists>ep'. getSrcFromControl Linux linux_amd64 (gro_control 2 @ pktinfo4_bytes) sample_ep4 = Ret ep' \<and>
    SrcIP Linux linux_amd64 ep' = Addr4 [10, 0, 0, 5] \<and> SrcIfidx Linux linux_amd64 ep' = 7 \<and>
    cmsg_list linux_amd64 (cb_bytes (setSrcControl Linux (cb_make 5 40) ep')) = [pktinfo4]"
proof -
  let ?h = "fst pktinfo4" and ?d = "snd pktinfo4"
  have enc: "cmsg_encodes linux_amd64 (gro_control 2 @ pktinfo4_bytes) ([(gro_hdr, u16_bytes linux_amd64 2)] @ (?h, ?d) # [])"
    using gro_then_pktinfo by simp
  have ne: "u16_bytes linux_amd64 2 \<noteq> []" using amd64.u16_length [of 2] by auto
  have pre: "\<forall>(h', d') \<in> set [(gro_hdr, u16_bytes linux_amd64 2)]. d' \<noteq> [] \<and>
      hLevel h' \<noteq> IPPROTO_IP linux_amd64 \<and> hLevel h' \<noteq> IPPROTO_IPV6 linux_amd64"
    using ne by simp (simp add: gro_hdr_def linux_amd64_def)
  have "ep_wf sample_ep4" "32 \<le> cb_cap (cb_make 5 40)"
    by (simp_all add: ep_wf_def sample_ep4_def cb_make_def cb_cap_def)
  then show ?thesis
    using sticky_source_roundtrip [OF amd64.cmsg_codec_axioms enc pre, of 12 sample_ep4 "cb_make 5 40"]
    by (auto simp: amd64_pktinfo4 pktinfo4_def)
qed

section \<open>Segment sizes\<close>

text \<open>
  C26. The segment size written is the one the kernel reads. Control data that consists of whole
  messages without a UDP_SEGMENT message, in a buffer with room for one, is extended by \<open>setGSOSize\<close>
  by exactly that message: the earlier ones still parse, and the segment size taken from the result
  is the 16-bit value that was set.
\<close>

theorem setGSOSize_roundtrip:
  assumes "cmsg_codec A" "linux_tag p" "cb_wf c" "clen c + gsoControlSize p A \<le> cb_cap c"
    and "cmsg_encodes A (cb_bytes c) cs" "\<forall>(h, data) \<in> set cs. data \<noteq> [] \<and> \<not> is_segment A (h, data)"
  shows "\<exists>c'. setGSOSize p A c g = Ret c' \<and> cmsg_list A (cb_bytes c') = cs @ [segment_cmsg A g] \<and>
    segment_size A (cb_bytes c') = Some (unat g)"
proof -
  have room: "clen c + CmsgSpace A 2 \<le> cb_cap c"
    using assms(2,4) by (simp add: gsoControlSize_def sizeOfGSOData_def)
  obtain c' m where c': "setGSOSize_linux A c g = Ret c'" "cb_bytes c' = cb_bytes c @ m"
    "cmsg_encodes A m [segment_cmsg A g]"
    using cmsg_codec.set_appends [OF assms(1,3) room, of g] by metis
  have enc: "cmsg_encodes A (cb_bytes c') (cs @ [segment_cmsg A g])"
    unfolding c'(2) by (rule cmsg_codec.encodes_append [OF assms(1,5) c'(3)])
  have len: "length (u16_bytes A g) = 2" by (rule cmsg_codec.u16_length [OF assms(1)])
  then have ne: "\<forall>(h, data) \<in> set (cs @ [segment_cmsg A g]). data \<noteq> []"
    using assms(6) by (auto simp: segment_cmsg_def)
  have "find (is_segment A) cs = None" using assms(6) by (auto simp: find_None_iff)
  then have "find (is_segment A) (cs @ [segment_cmsg A g]) = Some (segment_cmsg A g)"
    by (simp add: cmsg_codec.find_append_None [OF assms(1)] cmsg_codec.is_segment_cmsg [OF assms(1)])
  then have "segment_size A (cb_bytes c') = Some (unat g)"
    using len cmsg_codec.segment_size_encodes [OF assms(1) enc ne] cmsg_codec.u16_round [OF assms(1), of g]
    by (simp add: segment_cmsg_def)
  then show ?thesis
    using c'(1) assms(2) cmsg_codec.list_encodes [OF assms(1) enc ne] by (auto simp: setGSOSize_def)
qed

theorem setGSOSize_roundtrip_witness:
  "\<exists>c'. setGSOSize Linux linux_amd64 \<lparr>cdata = pktinfo4_bytes @ replicate 40 9, clen = 32\<rparr> 1400 = Ret c' \<and>
    segment_size linux_amd64 (cb_bytes c') = Some 1400"
proof -
  let ?c = "\<lparr>cdata = pktinfo4_bytes @ replicate 40 9, clen = 32\<rparr>"
  have len: "length pktinfo4_bytes = 32" by (simp add: pktinfo4_bytes_def pktinfo4_def)
  then have "cb_bytes ?c = pktinfo4_bytes" "cb_wf ?c" "clen ?c + gsoControlSize Linux linux_amd64 \<le> cb_cap ?c"
    by (simp_all add: cb_bytes_def cb_wf_def cb_cap_def gsoControlSize_def linux_tag_def sizeOfGSOData_def
        linux_amd64_def cmsgAlignOf_def)
  moreover have "\<forall>(h, data) \<in> set [pktinfo4]. data \<noteq> [] \<and> \<not> is_segment linux_amd64 (h, data)"
    by (simp add: pktinfo4_def is_segment_def linux_amd64_def)
  ultimately show ?thesis
    using setGSOSize_roundtrip [OF amd64.cmsg_codec_axioms, of Linux ?c "[pktinfo4]" 1400] pktinfo4_encodes
    by (auto simp: linux_tag_def)
qed

section \<open>The two coalescing routines\<close>

lemma groups_cong:
  assumes "\<And>cur b. cur \<noteq> [] \<Longrightarrow> hd cur \<in> S \<Longrightarrow> ok cur b = ok' cur b" "cur \<noteq> []" "hd cur \<in> S" "set bs \<subseteq> S"
  shows "groups ok cur bs = groups ok' cur bs"
  using assms(2-4)
proof (induction bs arbitrary: cur)
  case (Cons b bs)
  have "ok cur b = ok' cur b" using Cons.prems by (intro assms(1))
  then show ?case using Cons by simp
qed simp

lemma batches_roomy:
  assumes "\<forall>b \<in> set bufs. maxLen \<le> scap b"
  shows "batches (std_ok maxLen) bufs = batches (gso_ok maxLen) bufs"
proof -
  have eq: "std_ok maxLen cur b = gso_ok maxLen cur b" if "cur \<noteq> []" "hd cur \<in> set bufs" for cur b
    using assms that by (fastforce simp: std_ok_def gso_ok_def)
  show ?thesis
  proof (cases bufs)
    case (Cons b bs)
    then have "groups (std_ok maxLen) [b] bs = groups (gso_ok maxLen) [b] bs"
      using eq by (intro groups_cong [of "set bufs"]) auto
    then show ?thesis using Cons by (simp add: batches_def)
  qed (simp add: batches_def)
qed

lemma batch_wire_same:
  assumes "length (Buffers m) = 1" "src ep = None"
    and "sl_read h' (merged g) = concat (map (sl_read h) g)"
  shows "wire_of h' (batch_msg Linux set_gso addr ep True m g) = wire_of h (sg_msg set_gso addr True m g)"
proof -
  have "setSrcControl Linux (OOB m) ep = (OOB m)\<lparr>clen := 0\<rparr>"
    using assms(2) by (simp add: setSrcControl_def src_len_def src_bytes_def cb_append_def overwrite_def)
  moreover obtain x where "Buffers m = [x]" using assms(1) by (cases "Buffers m") auto
  ultimately show ?thesis
    using assms(3) by (simp add: wire_of_def payload_def batch_msg_def sg_msg_def Let_def)
qed


definition wide_store :: store where
  "wide_store = \<lparr>arrs = (\<lambda>i. replicate 65535 (of_nat i)), brk = 2\<rparr>"

definition wide_buf :: "nat \<Rightarrow> slice" where
  "wide_buf i = \<lparr>sarr = i, soff = 0, slen = 3, scap = 65535\<rparr>"


end
