(* ===== verification/Win_World.thy ===== *)
theory Win_World
  imports Conn
begin

text \<open>
  The surroundings of the Windows code: the Winsock, registered I/O and I/O completion calls that
  \<open>bind_windows.go\<close> and \<open>winrio/rio_windows.go\<close> make through \<open>golang.org/x/sys/windows\<close> and
  \<open>syscall\<close>, and the memory they share with the kernel. The operating system is a parameter: what
  a call returns is a function of the call and of everything before it. The history of calls
  is concrete, so that theorems can say which resources are left open and which requests were
  posted.
\<close>

type_synonym handle = "64 word"
type_synonym pointer = "64 word"

section \<open>Shared memory\<close>

text \<open>\<open>WinRingEndpoint\<close>: a \<open>sockaddr\<close> as its family and the 30 bytes that follow.\<close>

record win_endpoint =
  we_family :: "16 word"
  we_data :: "byte list"

record ring_packet =
  rp_addr :: win_endpoint
  rp_data :: "byte list"

section \<open>Calls\<close>

text \<open>\<open>winrio.Buffer\<close> and \<open>winrio.Result\<close>.\<close>

record rio_buffer =
  rb_Id :: handle
  rb_Offset :: "32 word"
  rb_Length :: "32 word"

record rio_result =
  rr_Status :: "32 word"
  rr_BytesTransferred :: "32 word"
  rr_SocketContext :: "64 word"
  rr_RequestContext :: "64 word"

datatype win_sockaddr = SockaddrInet4 int | SockaddrInet6 int | SockaddrOther

text \<open>The three shapes of the notification passed to \<open>RIOCreateCompletionQueue\<close>.\<close>

datatype rio_notification = NotifyEvent handle bool | NotifyIocp handle "64 word" | NotifyPolled

datatype win_call =
    WSASocket "32 word" "32 word" "32 word"
  | CloseHandle handle
  | VirtualAlloc "64 word"
  | VirtualFree pointer
  | CreateIoCompletionPort
  | PostQueuedCompletionStatus handle
  | GetQueuedCompletionStatus handle
  | BindSocket handle win_sockaddr
  | Getsockname handle
  | SetsockoptIntWin handle int int int
  | WSAIoctl handle
  | RIOCloseCompletionQueue handle
  | RIOCreateCompletionQueue "64 word" rio_notification
  | RIOCreateRequestQueue handle "64 word" "64 word" "64 word" "64 word" handle handle "64 word"
  | RIODequeueCompletion handle nat
  | RIODeregisterBuffer handle
  | RIORegisterBuffer pointer "64 word"
  | RIOSendEx handle rio_buffer rio_buffer "64 word"
  | RIOReceiveEx handle rio_buffer rio_buffer "64 word"
  | RIONotify handle
  | SubscribeCloser
  | Unsubscribe

type_synonym win_event = "win_call \<times> 64 word \<times> goerror option"

record win_world =
  ww_events :: "win_event list"
  ww_mem :: "pointer \<Rightarrow> ring_packet"

text \<open>
  \<open>oCall\<close> is the value and the error of a call of \<open>x/sys/windows\<close> or of the network's closer
  subscription, \<open>oSyscall\<close> the value and the error number of a raw system call; \<open>oSockname\<close> and
  \<open>oResults\<close> are what \<open>Getsockname\<close> and \<open>RIODequeueCompletion\<close> return through memory. \<open>oMem\<close> is
  the shared memory after a call, in which the kernel may have stored a datagram. \<open>oBlocks\<close>
  says that a wait without a time limit never ends, and \<open>oClosing\<close> that another goroutine has
  begun \<open>Close\<close>.
\<close>

record win_os =
  oCall :: "win_world \<Rightarrow> win_call \<Rightarrow> 64 word \<times> goerror option"
  oSyscall :: "win_world \<Rightarrow> win_call \<Rightarrow> 64 word \<times> int"
  oSockname :: "win_world \<Rightarrow> handle \<Rightarrow> win_sockaddr"
  oResults :: "win_world \<Rightarrow> handle \<Rightarrow> rio_result list"
  oMem :: "win_world \<Rightarrow> pointer \<Rightarrow> ring_packet"
  oBlocks :: "win_world \<Rightarrow> handle \<Rightarrow> bool"
  oClosing :: "win_world \<Rightarrow> bool"

definition log_call :: "win_os \<Rightarrow> win_event \<Rightarrow> win_world \<Rightarrow> win_world" where
  "log_call K e w =
     (let w1 = w\<lparr>ww_events := ww_events w @ [e]\<rparr> in w1\<lparr>ww_mem := oMem K w1\<rparr>)"

definition win_sys :: "win_os \<Rightarrow> win_call \<Rightarrow> win_world \<Rightarrow> 64 word \<times> goerror option \<times> win_world" where
  "win_sys K c w = (let (r, err) = oCall K w c in (r, err, log_call K (c, r, err) w))"

definition raw_sys :: "win_os \<Rightarrow> win_call \<Rightarrow> win_world \<Rightarrow> 64 word \<times> goerror \<times> win_world" where
  "raw_sys K c w = (let (r, e) = oSyscall K w c in (r, Errno e, log_call K (c, r, None) w))"

section \<open>Which resources are open\<close>

datatype resource = HandleOf handle | QueueOf handle | BufferOf handle | MemoryOf pointer

definition InvalidHandle :: handle where
  "InvalidHandle = - 1"

fun res_value :: "resource \<Rightarrow> 64 word" where
  "res_value (HandleOf x) = x"
| "res_value (QueueOf x) = x"
| "res_value (BufferOf x) = x"
| "res_value (MemoryOf x) = x"

text \<open>Values that stand for no resource: zero, and the handle of a socket that was not made.\<close>

definition proper :: "resource \<Rightarrow> bool" where
  "proper r \<longleftrightarrow> res_value r \<noteq> 0 \<and> r \<noteq> HandleOf InvalidHandle \<and> r \<noteq> BufferOf 0xFFFFFFFF"

fun acquired :: "win_event \<Rightarrow> resource option" where
  "acquired (WSASocket _ _ _, r, None) = Some (HandleOf r)"
| "acquired (CreateIoCompletionPort, r, None) = Some (HandleOf r)"
| "acquired (VirtualAlloc _, r, None) = Some (MemoryOf r)"
| "acquired (RIOCreateCompletionQueue _ _, r, _) = Some (QueueOf r)"
| "acquired (RIORegisterBuffer _ _, r, _) = Some (BufferOf r)"
| "acquired _ = None"

fun released :: "win_event \<Rightarrow> resource option" where
  "released (CloseHandle x, _) = Some (HandleOf x)"
| "released (VirtualFree x, _) = Some (MemoryOf x)"
| "released (RIOCloseCompletionQueue x, _) = Some (QueueOf x)"
| "released (RIODeregisterBuffer x, _) = Some (BufferOf x)"
| "released _ = None"

definition event_balance :: "resource \<Rightarrow> win_event \<Rightarrow> int" where
  "event_balance r e = of_bool (acquired e = Some r) - of_bool (released e = Some r)"

definition open_count :: "resource \<Rightarrow> win_world \<Rightarrow> int" where
  "open_count r w = sum_list (map (event_balance r) (ww_events w))"

lemma events_log [simp]: "ww_events (log_call K e w) = ww_events w @ [e]"
  by (simp add: log_call_def Let_def)

lemma mem_log: "ww_mem (log_call K e w) = oMem K (w\<lparr>ww_events := ww_events w @ [e]\<rparr>)"
  by (simp add: log_call_def Let_def)

lemma open_count_log [simp]: "open_count r (log_call K e w) = open_count r w + event_balance r e"
  by (simp add: open_count_def)

lemma open_count_mem [simp]: "open_count r (w\<lparr>ww_mem := m\<rparr>) = open_count r w"
  by (simp add: open_count_def)

lemma proper_simps [simp]:
  "\<not> proper (HandleOf 0)" "\<not> proper (QueueOf 0)" "\<not> proper (BufferOf 0)" "\<not> proper (MemoryOf 0)"
  "\<not> proper (HandleOf InvalidHandle)" "\<not> proper (BufferOf 0xFFFFFFFF)"
  by (simp_all add: proper_def)

end
