(* ===== verification/Winrio.thy ===== *)
theory Winrio
  imports Win_World
begin

text \<open>
  \<open>winrio/rio_windows.go\<close>: the wrappers around the registered I/O functions, which turn the raw
  result of a system call into a value and an error, and \<open>Initialize\<close>, which probes once whether
  registered I/O works.
\<close>

definition invalidBufferId :: "64 word" where
  "invalidBufferId = 0xFFFFFFFF"

definition invalidCq :: "64 word" where
  "invalidCq = 0"

definition invalidRq :: "64 word" where
  "invalidRq = 0"

definition corruptCq :: "64 word" where
  "corruptCq = 0xFFFFFFFF"

definition AF_INET :: "16 word" where
  "AF_INET = 2"

definition AF_INET6 :: "16 word" where
  "AF_INET6 = 23"

section \<open>Wrappers\<close>

definition Socket :: "win_os \<Rightarrow> 32 word \<Rightarrow> 32 word \<Rightarrow> 32 word \<Rightarrow> win_world \<Rightarrow> handle \<times> goerror option \<times> win_world" where
  "Socket K af typ proto w = win_sys K (WSASocket af typ proto) w"

definition CloseCompletionQueue :: "win_os \<Rightarrow> handle \<Rightarrow> win_world \<Rightarrow> win_world" where
  "CloseCompletionQueue K cq w = (let (_, _, w') = raw_sys K (RIOCloseCompletionQueue cq) w in w')"

definition create_cq :: "win_os \<Rightarrow> 32 word \<Rightarrow> rio_notification \<Rightarrow> win_world \<Rightarrow> handle \<times> goerror option \<times> win_world" where
  "create_cq K queueSize n w =
     (let (ret, err, w') = raw_sys K (RIOCreateCompletionQueue (ucast queueSize) n) w
      in if ret = invalidCq then (0, Some err, w') else (ret, None, w'))"

definition CreateEventCompletionQueue ::
  "win_os \<Rightarrow> 32 word \<Rightarrow> handle \<Rightarrow> bool \<Rightarrow> win_world \<Rightarrow> handle \<times> goerror option \<times> win_world" where
  "CreateEventCompletionQueue K queueSize event notifyReset w =
     create_cq K queueSize (NotifyEvent event notifyReset) w"

definition CreateIOCPCompletionQueue ::
  "win_os \<Rightarrow> 32 word \<Rightarrow> handle \<Rightarrow> 64 word \<Rightarrow> win_world \<Rightarrow> handle \<times> goerror option \<times> win_world" where
  "CreateIOCPCompletionQueue K queueSize iocp key w = create_cq K queueSize (NotifyIocp iocp key) w"

definition CreatePolledCompletionQueue ::
  "win_os \<Rightarrow> 32 word \<Rightarrow> win_world \<Rightarrow> handle \<times> goerror option \<times> win_world" where
  "CreatePolledCompletionQueue K queueSize w = create_cq K queueSize NotifyPolled w"

definition CreateRequestQueue ::
  "win_os \<Rightarrow> handle \<Rightarrow> 32 word \<Rightarrow> 32 word \<Rightarrow> 32 word \<Rightarrow> 32 word \<Rightarrow> handle \<Rightarrow> handle \<Rightarrow> 64 word \<Rightarrow> win_world
    \<Rightarrow> handle \<times> goerror option \<times> win_world" where
  "CreateRequestQueue K socket maxReceive maxReceiveBuffers maxSend maxSendBuffers receiveCq sendCq ctx w =
     (let (ret, err, w') = raw_sys K (RIOCreateRequestQueue socket (ucast maxReceive) (ucast maxReceiveBuffers)
            (ucast maxSend) (ucast maxSendBuffers) receiveCq sendCq ctx) w
      in if ret = invalidRq then (0, Some err, w') else (ret, None, w'))"

definition zero_result :: rio_result where
  "zero_result = \<lparr>rr_Status = 0, rr_BytesTransferred = 0, rr_SocketContext = 0, rr_RequestContext = 0\<rparr>"

text \<open>The kernel fills the results array from its start, as far as the array goes.\<close>

definition DequeueCompletion ::
  "win_os \<Rightarrow> handle \<Rightarrow> rio_result list \<Rightarrow> win_world \<Rightarrow> (32 word \<times> rio_result list \<times> win_world) outcome" where
  "DequeueCompletion K cq results w =
     (let (ret, _, w') = raw_sys K (RIODequeueCompletion cq (length results)) w;
          rs = take (length results) (oResults K w cq)
      in if ret = corruptCq then Panic (Explicit ''cq is corrupt'')
         else Ret (ucast ret, rs @ drop (length rs) results, w'))"

definition DeregisterBuffer :: "win_os \<Rightarrow> handle \<Rightarrow> win_world \<Rightarrow> win_world" where
  "DeregisterBuffer K i w = (let (_, _, w') = raw_sys K (RIODeregisterBuffer i) w in w')"

definition RegisterPointer :: "win_os \<Rightarrow> pointer \<Rightarrow> 32 word \<Rightarrow> win_world \<Rightarrow> handle \<times> goerror option \<times> win_world" where
  "RegisterPointer K ptr sz w =
     (let (ret, err, w') = raw_sys K (RIORegisterBuffer ptr (ucast sz)) w
      in if ret = invalidBufferId then (0, Some err, w') else (ret, None, w'))"

text \<open>\<open>RegisterBuffer\<close> of a slice given by the address of its first element and its length.\<close>

definition RegisterBuffer :: "win_os \<Rightarrow> pointer \<Rightarrow> nat \<Rightarrow> win_world \<Rightarrow> handle \<times> goerror option \<times> win_world" where
  "RegisterBuffer K ptr len w = RegisterPointer K (if 0 < len then ptr else 0) (of_nat len) w"

definition SendEx :: "win_os \<Rightarrow> handle \<Rightarrow> rio_buffer \<Rightarrow> rio_buffer \<Rightarrow> 64 word \<Rightarrow> win_world \<Rightarrow> goerror option \<times> win_world" where
  "SendEx K rq buf remoteAddress ctx w =
     (let (ret, err, w') = raw_sys K (RIOSendEx rq buf remoteAddress ctx) w
      in if ret = 0 then (Some err, w') else (None, w'))"

definition ReceiveEx :: "win_os \<Rightarrow> handle \<Rightarrow> rio_buffer \<Rightarrow> rio_buffer \<Rightarrow> 64 word \<Rightarrow> win_world \<Rightarrow> goerror option \<times> win_world" where
  "ReceiveEx K rq buf remoteAddress ctx w =
     (let (ret, err, w') = raw_sys K (RIOReceiveEx rq buf remoteAddress ctx) w
      in if ret = 0 then (Some err, w') else (None, w'))"

definition Notify :: "win_os \<Rightarrow> handle \<Rightarrow> win_world \<Rightarrow> goerror option \<times> win_world" where
  "Notify K cq w =
     (let (ret, _, w') = raw_sys K (RIONotify cq) w
      in if ret \<noteq> 0 then (Some (Errno (uint ret)), w') else (None, w'))"

section \<open>Initialize\<close>

text \<open>
  The body run by \<open>initialized.Do\<close>: the deferred calls close what was opened, last first. The
  result is the new value of \<open>available\<close>. The log line is left out.
\<close>

definition probe_queue :: "win_os \<Rightarrow> handle \<Rightarrow> handle \<Rightarrow> win_world \<Rightarrow> bool \<times> win_world" where
  "probe_queue K socket iocp w =
     (let (cq, err, w1) = CreateIOCPCompletionQueue K 2 iocp 0 w
      in if err \<noteq> None then (False, w1)
         else let (_, err, w2) = CreateRequestQueue K socket 1 1 1 1 cq cq 0 w1
              in (err = None, CloseCompletionQueue K cq w2))"

definition close_handle :: "win_os \<Rightarrow> handle \<Rightarrow> win_world \<Rightarrow> win_world" where
  "close_handle K x w = (let (_, _, w') = win_sys K (CloseHandle x) w in w')"

definition probe :: "win_os \<Rightarrow> win_world \<Rightarrow> bool \<times> win_world" where
  "probe K w =
     (let (socket, err, w1) = Socket K (ucast AF_INET) 2 17 w
      in if err \<noteq> None then (False, w1)
         else let (_, err, w2) = win_sys K (WSAIoctl socket) w1
              in if err \<noteq> None then (False, close_handle K socket w2)
                 else let (iocp, err, w3) = win_sys K CreateIoCompletionPort w2
                      in if err \<noteq> None then (False, close_handle K socket w3)
                         else let (ok, w4) = probe_queue K socket iocp w3
                              in (ok, close_handle K socket (close_handle K iocp w4)))"

text \<open>The package state: \<open>None\<close> before the first call, then the value of \<open>available\<close>.\<close>

definition Initialize :: "win_os \<Rightarrow> bool option \<Rightarrow> win_world \<Rightarrow> bool \<times> bool option \<times> win_world" where
  "Initialize K st w =
     (case st of
        Some available \<Rightarrow> (available, st, w)
      | None \<Rightarrow> let (available, w') = probe K w in (available, Some available, w'))"

section \<open>Accounting\<close>

lemma win_sys_count:
  "win_sys K c w = (x, err, w') \<Longrightarrow> open_count r w' = open_count r w + event_balance r (c, x, err)"
  by (auto simp: win_sys_def split: prod.splits)

lemma raw_sys_count:
  "raw_sys K c w = (x, err, w') \<Longrightarrow> open_count r w' = open_count r w + event_balance r (c, x, None)"
  by (auto simp: raw_sys_def split: prod.splits)

lemma create_cq_count:
  assumes "create_cq K n k w = (cq, err, w')" "proper r"
  shows "open_count r w' = open_count r w + of_bool (r = QueueOf cq)"
  using assms
  by (auto simp: create_cq_def Let_def event_balance_def invalidCq_def dest!: raw_sys_count [of _ _ _ _ _ _ r]
      split: prod.splits if_splits)

lemma RegisterPointer_count:
  assumes "RegisterPointer K p n w = (i, err, w')" "proper r"
  shows "open_count r w' = open_count r w + of_bool (r = BufferOf i)"
  using assms
  by (auto simp: RegisterPointer_def Let_def event_balance_def invalidBufferId_def dest!: raw_sys_count [of _ _ _ _ _ _ r]
      split: prod.splits if_splits)

lemma failed_zero:
  "create_cq K n k w = (cq, Some e, w') \<Longrightarrow> cq = 0"
  "RegisterPointer K p m w = (i, Some e, w') \<Longrightarrow> i = 0"
  by (auto simp: create_cq_def RegisterPointer_def Let_def split: prod.splits if_splits)

lemma CreateRequestQueue_count:
  "CreateRequestQueue K s a b c d x y z w = (q, err, w') \<Longrightarrow> open_count r w' = open_count r w"
  by (auto simp: CreateRequestQueue_def Let_def event_balance_def dest!: raw_sys_count [of _ _ _ _ _ _ r]
      split: prod.splits if_splits)

lemma close_count:
  "open_count r (CloseCompletionQueue K q w) = open_count r w - of_bool (r = QueueOf q)"
  "open_count r (DeregisterBuffer K q w) = open_count r w - of_bool (r = BufferOf q)"
  "open_count r (close_handle K q w) = open_count r w - of_bool (r = HandleOf q)"
  by (auto simp: CloseCompletionQueue_def DeregisterBuffer_def close_handle_def event_balance_def raw_sys_def
      win_sys_def split: prod.splits)

lemma transfer_count:
  "SendEx K q b a c w = (err, w') \<Longrightarrow> open_count r w' = open_count r w"
  "ReceiveEx K q b a c w = (err, w') \<Longrightarrow> open_count r w' = open_count r w"
  "Notify K q w = (err, w') \<Longrightarrow> open_count r w' = open_count r w"
  "DequeueCompletion K q rs w = Ret (n, rs', w') \<Longrightarrow> open_count r w' = open_count r w"
  by (auto simp: SendEx_def ReceiveEx_def Notify_def DequeueCompletion_def raw_sys_def event_balance_def Let_def
      split: prod.splits if_splits)

lemma Socket_count:
  "Socket K a t p w = (s, None, w') \<Longrightarrow> open_count r w' = open_count r w + of_bool (r = HandleOf s)"
  "Socket K a t p w = (s, Some e, w') \<Longrightarrow> open_count r w' = open_count r w"
  by (auto simp: Socket_def event_balance_def dest!: win_sys_count [of _ _ _ _ _ _ r])

lemma probe_queue_count:
  assumes "probe_queue K s p w = (ok, w')" "proper r"
  shows "open_count r w' = open_count r w"
  using assms create_cq_count [OF _ assms(2)]
  by (auto simp: probe_queue_def CreateIOCPCompletionQueue_def close_count CreateRequestQueue_count
      dest: failed_zero split: prod.splits if_splits)

lemma Initialize_count:
  assumes "Initialize K st w = (ok, st', w')" "proper r"
  shows "open_count r w' = open_count r w"
  using assms
  by (auto simp: Initialize_def probe_def event_balance_def close_count Socket_count
      dest!: probe_queue_count [OF _ assms(2)] win_sys_count [of _ _ _ _ _ _ r]
      split: prod.splits if_splits option.splits)

end
