(* ===== verification/Ring_Buffer.thy ===== *)
theory Ring_Buffer
  imports Winrio
begin

text \<open>
  \<open>ringBuffer\<close> of \<open>bind_windows.go\<close>: 256 packet slots in memory registered with the kernel, of
  which those between \<open>head\<close> and \<open>tail\<close> belong to requests the kernel has not completed. The
  counters are 32 bits wide and run through their wrap-around; only their value modulo 256 and
  \<open>isFull\<close> select slots. The locale \<open>slot_queue\<close> is what the send and receive paths rely on.
\<close>

definition packetsPerRing :: "32 word" where
  "packetsPerRing = 256"

definition bytesPerPacket :: nat where
  "bytesPerPacket = 65507"

text \<open>\<open>unsafe.Sizeof\<close> of \<open>WinRingEndpoint\<close>, which is also the offset of \<open>data\<close>, and of \<open>ringPacket\<close>,
  which is padded to the alignment of its \<open>uint16\<close>.\<close>

definition sizeofEndpoint :: "64 word" where
  "sizeofEndpoint = 32"

definition sizeofPacket :: "64 word" where
  "sizeofPacket = 65540"

record ring_buffer =
  r_packets :: pointer
  r_head :: "32 word"
  r_tail :: "32 word"
  r_id :: handle
  r_iocp :: handle
  r_isFull :: bool
  r_cq :: handle

definition zero_ring :: ring_buffer where
  "zero_ring = \<lparr>r_packets = 0, r_head = 0, r_tail = 0, r_id = 0, r_iocp = 0, r_isFull = False, r_cq = 0\<rparr>"

definition ring_Push :: "ring_buffer \<Rightarrow> (pointer \<times> ring_buffer) outcome" where
  "ring_Push rb =
     (if r_isFull rb then Panic (Explicit ''ring is full'')
      else let ret = r_packets rb + ucast (r_tail rb mod packetsPerRing) * sizeofPacket;
               rb1 = rb\<lparr>r_tail := r_tail rb + 1\<rparr>
           in Ret (ret, if r_tail rb1 mod packetsPerRing = r_head rb1 mod packetsPerRing
                        then rb1\<lparr>r_isFull := True\<rparr> else rb1))"

definition ring_Return :: "32 word \<Rightarrow> ring_buffer \<Rightarrow> ring_buffer" where
  "ring_Return count rb =
     (if r_head rb mod packetsPerRing = r_tail rb mod packetsPerRing \<and> \<not> r_isFull rb then rb
      else rb\<lparr>r_head := r_head rb + count, r_isFull := False\<rparr>)"

section \<open>Slots as a queue\<close>

text \<open>
  What the paths rely on: \<open>push\<close> takes a slot no request uses and fails only when there is none,
  \<open>release\<close> gives back the oldest ones.
\<close>

locale slot_queue =
  fixes inv :: "'r \<Rightarrow> bool" and slots :: "'r \<Rightarrow> 'p set" and used :: "'r \<Rightarrow> 'p list"
    and push :: "'r \<Rightarrow> ('p \<times> 'r) outcome" and release :: "nat \<Rightarrow> 'r \<Rightarrow> 'r"
  assumes finite_slots: "inv r \<Longrightarrow> finite (slots r)"
    and used_slots: "inv r \<Longrightarrow> distinct (used r) \<and> set (used r) \<subseteq> slots r"
    and push_full: "inv r \<Longrightarrow> set (used r) = slots r \<Longrightarrow> \<exists>e. push r = Panic e"
    and push_free: "inv r \<Longrightarrow> set (used r) \<noteq> slots r \<Longrightarrow>
      \<exists>p r'. push r = Ret (p, r') \<and> inv r' \<and> slots r' = slots r \<and> used r' = used r @ [p]"
    and release_oldest: "inv r \<Longrightarrow> 0 < n \<Longrightarrow> n \<le> length (used r) \<Longrightarrow>
      inv (release n r) \<and> slots (release n r) = slots r \<and> used (release n r) = drop n (used r)"
begin

lemma push_Ret:
  assumes "inv r" "push r = Ret (p, r')"
  shows "inv r'" "slots r' = slots r" "used r' = used r @ [p]" "p \<in> slots r" "p \<notin> set (used r)"
proof -
  have "set (used r) \<noteq> slots r" using push_full [OF assms(1)] assms(2) by auto
  then show r: "inv r'" "slots r' = slots r" "used r' = used r @ [p]" using push_free [OF assms(1)] assms(2) by auto
  show "p \<in> slots r" "p \<notin> set (used r)" using used_slots [OF r(1)] r by auto
qed

lemma release_full:
  assumes "inv r" "0 < n" "n \<le> length (used r)"
  shows "set (used (release n r)) \<noteq> slots (release n r)"
proof -
  note rel = release_oldest [OF assms]
  have d: "distinct (used r)" "set (used r) \<subseteq> slots r" using used_slots [OF assms(1)] by blast+
  have "length (drop n (used r)) < length (used r)" using assms(2,3) by simp
  then have "card (set (drop n (used r))) < card (set (used r))"
    using d(1) by (simp add: distinct_card)
  also have "\<dots> \<le> card (slots r)" using d(2) finite_slots [OF assms(1)] by (simp add: card_mono)
  finally show ?thesis using rel by auto
qed

text \<open>After a slot was released the next push succeeds, and in a full ring it takes the very slot released.\<close>

lemma release_push:
  assumes "inv r" "0 < n" "n \<le> length (used r)"
  shows "\<exists>p r'. push (release n r) = Ret (p, r') \<and> inv r' \<and> slots r' = slots r \<and> used r' = drop n (used r) @ [p] \<and>
     p \<in> slots r \<and> p \<notin> set (drop n (used r))"
proof -
  note rel = release_oldest [OF assms]
  obtain p r' where "push (release n r) = Ret (p, r')"
    using push_free [of "release n r"] rel release_full [OF assms] by auto
  then show ?thesis using push_Ret [of "release n r" p r'] rel by auto
qed

lemma recycle_full:
  assumes "inv r" "set (used r) = slots r" "used r = p # ps"
  shows "\<exists>r'. push (release 1 r) = Ret (p, r') \<and> inv r' \<and> slots r' = slots r \<and> used r' = ps @ [p]"
proof -
  obtain q r' where q: "push (release 1 r) = Ret (q, r')" "inv r'" "slots r' = slots r" "used r' = ps @ [q]"
    "q \<in> slots r" "q \<notin> set ps"
    using release_push [OF assms(1), of 1] assms(3) by auto
  then have "q = p" using assms(2,3) by auto
  then show ?thesis using q by blast
qed

end

section \<open>The ring is such a queue\<close>

definition slot_ptr :: "ring_buffer \<Rightarrow> nat \<Rightarrow> pointer" where
  "slot_ptr rb i = r_packets rb + of_nat i * sizeofPacket"

definition ring_count :: "ring_buffer \<Rightarrow> nat" where
  "ring_count rb = unat (r_tail rb - r_head rb)"

definition ring_inv :: "ring_buffer \<Rightarrow> bool" where
  "ring_inv rb \<longleftrightarrow> ring_count rb \<le> 256 \<and> (r_isFull rb \<longleftrightarrow> ring_count rb = 256)"

definition ring_slots :: "ring_buffer \<Rightarrow> pointer set" where
  "ring_slots rb = slot_ptr rb ` {..<256}"

definition ring_used :: "ring_buffer \<Rightarrow> pointer list" where
  "ring_used rb = map (\<lambda>k. slot_ptr rb ((unat (r_head rb) + k) mod 256)) [0..<ring_count rb]"

lemma length_ring_used [simp]: "length (ring_used rb) = ring_count rb"
  by (simp add: ring_used_def)

lemma unat_mod_256: "unat (x mod packetsPerRing) = unat x mod 256"
  by (simp add: packetsPerRing_def unat_mod_distrib)

lemma unat_shift_mod: "unat (x + of_nat k :: 32 word) mod 256 = (unat x + k) mod 256"
proof -
  have "unat (x + of_nat k :: 32 word) = (unat x + k) mod 2 ^ 32"
    by (simp add: unat_word_ariths unat_of_nat mod_simps)
  moreover have "(256 :: nat) dvd 2 ^ 32" by simp
  ultimately show ?thesis by (simp only: mod_mod_cancel)
qed

lemma tail_shift: "r_tail rb = r_head rb + of_nat (ring_count rb)"
  by (simp add: ring_count_def)

lemma slot_ptr_inj: "i < 256 \<Longrightarrow> j < 256 \<Longrightarrow> slot_ptr rb i = slot_ptr rb j \<longleftrightarrow> i = j"
proof -
  assume ij: "i < 256" "j < 256"
  have u: "unat (of_nat k * sizeofPacket :: 64 word) = k * 65540" if "k < 256" for k
  proof -
    have eq: "of_nat k * sizeofPacket = (of_nat (k * 65540) :: 64 word)" by (simp add: sizeofPacket_def)
    have "unat (of_nat m :: 64 word) = m" if "m < 2 ^ 64" for m using that by (simp add: unat_of_nat)
    moreover have "k * 65540 < 2 ^ 64" using that by simp
    ultimately show ?thesis unfolding eq by blast
  qed
  have "slot_ptr rb i = slot_ptr rb j \<longleftrightarrow> of_nat i * sizeofPacket = of_nat j * sizeofPacket"
    by (simp only: slot_ptr_def add_left_cancel)
  also have "\<dots> \<longleftrightarrow> i = j" unfolding word_unat_eq_iff u [OF ij(1)] u [OF ij(2)] by simp
  finally show ?thesis .
qed

lemma same_slot: "a mod 256 = (a + k) mod 256 \<longleftrightarrow> k mod 256 = (0 :: nat)"
  using mod_eq_dvd_iff_nat [of a "a + k" 256] by (auto simp: mod_eq_0_iff_dvd)

lemma slot_shift_inj: "j < 256 \<Longrightarrow> k < 256 \<Longrightarrow> (a + j) mod 256 = (a + k) mod 256 \<longleftrightarrow> j = (k :: nat)"
proof (induction j k rule: linorder_wlog)
  case (le j k)
  then have "(a + j) mod 256 = (a + k) mod 256 \<longleftrightarrow> (k - j) mod 256 = 0"
    using same_slot [of "a + j" "k - j"] by simp
  then show ?case using le by auto
qed auto

lemma ring_used_distinct: "ring_inv rb \<Longrightarrow> distinct (ring_used rb) \<and> set (ring_used rb) \<subseteq> ring_slots rb"
  by (auto simp: ring_used_def ring_slots_def ring_inv_def distinct_map inj_on_def slot_ptr_inj slot_shift_inj)

lemma card_ring_slots: "card (ring_slots rb) = 256"
proof -
  have "inj_on (slot_ptr rb) {..<256}" by (auto simp: inj_on_def slot_ptr_inj)
  then show ?thesis by (simp add: ring_slots_def card_image)
qed

lemma ring_full_iff:
  assumes "ring_inv rb"
  shows "set (ring_used rb) = ring_slots rb \<longleftrightarrow> r_isFull rb"
proof -
  note d = ring_used_distinct [OF assms]
  have "card (set (ring_used rb)) = ring_count rb" using d by (simp add: distinct_card)
  moreover have "finite (ring_slots rb)" by (simp add: ring_slots_def)
  ultimately have "set (ring_used rb) = ring_slots rb \<longleftrightarrow> ring_count rb = 256"
    using d card_ring_slots [of rb] card_subset_eq [of "ring_slots rb" "set (ring_used rb)"] by auto
  then show ?thesis using assms by (simp add: ring_inv_def)
qed

lemma push_slot: "r_packets rb + ucast (r_tail rb mod packetsPerRing) * sizeofPacket =
    slot_ptr rb ((unat (r_head rb) + ring_count rb) mod 256)"
proof -
  have "unat (r_tail rb mod packetsPerRing) = (unat (r_head rb) + ring_count rb) mod 256"
    unfolding unat_mod_256 by (subst tail_shift) (rule unat_shift_mod)
  moreover have "ucast (r_tail rb mod packetsPerRing) = (of_nat (unat (r_tail rb mod packetsPerRing)) :: 64 word)"
    by simp
  ultimately show ?thesis by (simp add: slot_ptr_def)
qed

lemma push_count: "ring_count rb < 256 \<Longrightarrow> unat (r_tail rb + 1 - r_head rb) = Suc (ring_count rb)"
proof -
  assume c: "ring_count rb < 256"
  have eq: "r_tail rb + 1 - r_head rb = (r_tail rb - r_head rb) + 1" by simp
  have "unat (x + 1) = Suc (unat x)" if "unat x < 256" for x :: "32 word"
    using that by (simp add: unat_word_ariths)
  then show ?thesis using c unfolding eq ring_count_def by blast
qed

lemma push_wraps: "(r_tail rb + 1) mod packetsPerRing = r_head rb mod packetsPerRing \<longleftrightarrow> Suc (ring_count rb) mod 256 = 0"
proof -
  have "r_tail rb + 1 = r_head rb + of_nat (Suc (ring_count rb))" by (subst tail_shift) simp
  then have "unat ((r_tail rb + 1) mod packetsPerRing) = (unat (r_head rb) + Suc (ring_count rb)) mod 256"
    by (simp only: unat_mod_256 unat_shift_mod)
  then show ?thesis
    unfolding word_unat_eq_iff unat_mod_256 [of "r_head rb"] using same_slot [of "unat (r_head rb)"] by metis
qed

lemma ring_Push_Ret:
  assumes "ring_inv rb" "\<not> r_isFull rb"
  shows "\<exists>p rb'. ring_Push rb = Ret (p, rb') \<and> ring_inv rb' \<and> ring_slots rb' = ring_slots rb \<and>
    ring_used rb' = ring_used rb @ [p]"
proof -
  have c: "ring_count rb < 256" using assms by (auto simp: ring_inv_def)
  define rb' where "rb' = rb\<lparr>r_tail := r_tail rb + 1, r_isFull := Suc (ring_count rb) = 256\<rparr>"
  have "Suc (ring_count rb) mod 256 = 0 \<longleftrightarrow> Suc (ring_count rb) = 256" using c by (auto simp: mod_eq_0_iff_dvd dest: dvd_imp_le)
  then have "ring_Push rb = Ret (slot_ptr rb ((unat (r_head rb) + ring_count rb) mod 256), rb')"
    using assms(2) push_wraps [of rb] by (simp add: ring_Push_def push_slot rb'_def Let_def)
  moreover have "ring_count rb' = Suc (ring_count rb)"
    using push_count [OF c] by (simp add: rb'_def ring_count_def)
  moreover have "slot_ptr rb' = slot_ptr rb" "r_head rb' = r_head rb" "r_isFull rb' \<longleftrightarrow> Suc (ring_count rb) = 256"
    by (simp_all add: rb'_def slot_ptr_def fun_eq_iff)
  ultimately show ?thesis
    using c by (simp add: ring_inv_def ring_slots_def ring_used_def)
qed

lemma return_count: "n \<le> ring_count rb \<Longrightarrow> unat (r_tail rb - (r_head rb + of_nat n)) = ring_count rb - n"
proof -
  assume n: "n \<le> ring_count rb"
  have "ring_count rb < 2 ^ 32" unfolding ring_count_def by (rule unsigned_less [where 'a = nat, THEN order_less_le_trans]) simp
  then have u: "unat (of_nat n :: 32 word) = n" using n by (simp add: unat_of_nat)
  have eq: "r_tail rb - (r_head rb + of_nat n) = (r_tail rb - r_head rb) - of_nat n" by simp
  have "of_nat n \<le> r_tail rb - r_head rb" using n u by (simp add: word_le_nat_alt ring_count_def)
  then show ?thesis using u unfolding eq ring_count_def by (simp only: unat_sub)
qed

lemma ring_Return_used:
  assumes "ring_inv rb" "0 < n" "n \<le> ring_count rb"
  shows "ring_inv (ring_Return (of_nat n) rb) \<and> ring_slots (ring_Return (of_nat n) rb) = ring_slots rb \<and>
    ring_used (ring_Return (of_nat n) rb) = drop n (ring_used rb)"
proof -
  define rb' where "rb' = rb\<lparr>r_head := r_head rb + of_nat n, r_isFull := False\<rparr>"
  have "r_head rb mod packetsPerRing = r_tail rb mod packetsPerRing \<longleftrightarrow> ring_count rb mod 256 = 0"
    unfolding word_unat_eq_iff unat_mod_256 by (subst tail_shift) (simp only: unat_shift_mod same_slot)
  moreover have "ring_count rb mod 256 = 0 \<longrightarrow> ring_count rb = 256"
    using assms by (auto simp: ring_inv_def mod_eq_0_iff_dvd dest: dvd_imp_le)
  ultimately have "ring_Return (of_nat n) rb = rb'"
    using assms(1) by (auto simp: ring_Return_def rb'_def ring_inv_def)
  moreover have c: "ring_count rb' = ring_count rb - n"
    using return_count [OF assms(3)] by (simp add: rb'_def ring_count_def)
  moreover have "slot_ptr rb' = slot_ptr rb" by (simp add: rb'_def slot_ptr_def fun_eq_iff)
  moreover have "(unat (r_head rb') + k) mod 256 = (unat (r_head rb) + (n + k)) mod 256" for k
    using unat_shift_mod [of "r_head rb" n] mod_add_left_eq [of "unat (r_head rb')" 256 k] mod_add_left_eq [of "unat (r_head rb) + n" 256 k]
    by (simp add: rb'_def add.assoc)
  moreover have "drop n [0..<ring_count rb] = map (\<lambda>i. i + n) [0..<ring_count rb - n]"
    using assms(3) map_add_upt [of n "ring_count rb - n"] by simp
  moreover have "r_isFull rb' = False" by (simp add: rb'_def)
  ultimately show ?thesis
    using assms by (simp add: ring_inv_def ring_slots_def ring_used_def drop_map comp_def add.commute) linarith
qed

interpretation ring: slot_queue ring_inv ring_slots ring_used ring_Push "\<lambda>n. ring_Return (of_nat n)"
proof
  fix rb assume "ring_inv rb"
  then show "finite (ring_slots rb)" "distinct (ring_used rb) \<and> set (ring_used rb) \<subseteq> ring_slots rb"
    using ring_used_distinct by (simp_all add: ring_slots_def)
next
  fix rb assume "ring_inv rb" "set (ring_used rb) = ring_slots rb"
  then show "\<exists>e. ring_Push rb = Panic e" by (simp add: ring_full_iff ring_Push_def)
next
  fix rb assume "ring_inv rb" "set (ring_used rb) \<noteq> ring_slots rb"
  then show "\<exists>p rb'. ring_Push rb = Ret (p, rb') \<and> ring_inv rb' \<and> ring_slots rb' = ring_slots rb \<and>
      ring_used rb' = ring_used rb @ [p]"
    using ring_Push_Ret by (simp add: ring_full_iff)
next
  fix rb n assume "ring_inv rb" "0 < n" "n \<le> length (ring_used rb)"
  then show "ring_inv (ring_Return (of_nat n) rb) \<and> ring_slots (ring_Return (of_nat n) rb) = ring_slots rb \<and>
      ring_used (ring_Return (of_nat n) rb) = drop n (ring_used rb)"
    using ring_Return_used by simp
qed

end
