(* ===== verification/Win_Ring_Bind.thy ===== *)
theory Win_Ring_Bind
  imports Ring_Buffer
begin

text \<open>
  \<open>WinRingBind\<close> (\<open>bind_windows.go\<close>): endpoints as raw socket addresses, opening and closing of the
  two families with their rings, and the send and receive paths over registered I/O. The locks
  make each operation atomic except for two things another goroutine may do while a call holds
  only read locks: the kernel stores datagrams, and \<open>Close\<close> stores 2 in \<open>isOpen\<close>. Both appear
  through the operating system parameter.
\<close>

section \<open>Endpoints\<close>

definition zero_win_endpoint :: win_endpoint where
  "zero_win_endpoint = \<lparr>we_family = 0, we_data = replicate 30 0\<rparr>"

definition win_ClearSrc :: "win_endpoint \<Rightarrow> win_endpoint" where
  "win_ClearSrc e = e"

definition win_DstIP :: "win_endpoint \<Rightarrow> addr" where
  "win_DstIP e =
     (if we_family e = AF_INET then Addr4 (take 4 (drop 2 (we_data e)))
      else if we_family e = AF_INET6 then Addr6 (take 16 (drop 6 (we_data e))) ''''
      else AddrZero)"

definition win_SrcIP :: "win_endpoint \<Rightarrow> addr" where
  "win_SrcIP e = AddrZero"

definition win_DstToBytes :: "win_endpoint \<Rightarrow> byte list" where
  "win_DstToBytes e =
     (if we_family e = AF_INET then take 4 (drop 2 (we_data e)) @ [we_data e ! 1, we_data e ! 0]
      else if we_family e = AF_INET6 then take 16 (drop 6 (we_data e)) @ [we_data e ! 1, we_data e ! 0]
      else [])"

definition win_SrcToString :: "win_endpoint \<Rightarrow> string" where
  "win_SrcToString e = ''''"

text \<open>An \<open>Endpoint\<close> argument of \<open>Send\<close>: of the type the bind expects, or of another one.\<close>

datatype win_endpoint_arg = WinEndpoint win_endpoint | NotWinEndpoint

section \<open>State\<close>

record af_bind =
  a_sock :: handle
  a_rx :: ring_buffer
  a_tx :: ring_buffer
  a_rq :: handle
  a_blackhole :: bool

definition zero_af :: "handle \<Rightarrow> af_bind" where
  "zero_af rq = \<lparr>a_sock = 0, a_rx = zero_ring, a_tx = zero_ring, a_rq = rq, a_blackhole = False\<rparr>"

text \<open>\<open>wb_subscriber\<close> and \<open>wb_unsubscribe\<close> say whether the fields are set.\<close>

record win_bind =
  wb_v4 :: af_bind
  wb_v6 :: af_bind
  wb_isOpen :: "32 word"
  wb_subscriber :: bool
  wb_unsubscribe :: bool

definition new_win_bind :: "bool \<Rightarrow> win_bind" where
  "new_win_bind sub =
     \<lparr>wb_v4 = zero_af 0, wb_v6 = zero_af 0, wb_isOpen = 0, wb_subscriber = sub, wb_unsubscribe = False\<rparr>"

section \<open>Closing\<close>

definition ring_CloseAndZero :: "win_os \<Rightarrow> ring_buffer \<Rightarrow> win_world \<Rightarrow> ring_buffer \<times> win_world" where
  "ring_CloseAndZero K ring w =
     (let w1 = (if r_cq ring \<noteq> 0 then CloseCompletionQueue K (r_cq ring) w else w);
          w2 = (if r_iocp ring \<noteq> 0 then close_handle K (r_iocp ring) w1 else w1);
          w3 = (if r_id ring \<noteq> 0 then DeregisterBuffer K (r_id ring) w2 else w2);
          w4 = (if r_packets ring \<noteq> 0 then snd (snd (win_sys K (VirtualFree (r_packets ring)) w3)) else w3)
      in (ring\<lparr>r_cq := 0, r_iocp := 0, r_id := 0, r_packets := 0, r_head := 0, r_tail := 0, r_isFull := False\<rparr>, w4))"

definition af_CloseAndZero :: "win_os \<Rightarrow> af_bind \<Rightarrow> win_world \<Rightarrow> af_bind \<times> win_world" where
  "af_CloseAndZero K a w =
     (let (rx, w1) = ring_CloseAndZero K (a_rx a) w;
          (tx, w2) = ring_CloseAndZero K (a_tx a) w1;
          w3 = (if a_sock a \<noteq> 0 then close_handle K (a_sock a) w2 else w2)
      in (a\<lparr>a_rx := rx, a_tx := tx, a_sock := 0, a_blackhole := False\<rparr>, w3))"

definition closeAndZero :: "win_os \<Rightarrow> win_bind \<Rightarrow> win_world \<Rightarrow> win_bind \<times> win_world" where
  "closeAndZero K b w =
     (let w1 = (if wb_unsubscribe b then snd (snd (win_sys K Unsubscribe w)) else w);
          (v4, w2) = af_CloseAndZero K (wb_v4 b) w1;
          (v6, w3) = af_CloseAndZero K (wb_v6 b) w2
      in (b\<lparr>wb_isOpen := 0, wb_unsubscribe := False, wb_v4 := v4, wb_v6 := v6\<rparr>, w3))"

definition post_all :: "win_os \<Rightarrow> handle list \<Rightarrow> win_world \<Rightarrow> win_world" where
  "post_all K hs w = foldl (\<lambda>w x. snd (snd (win_sys K (PostQueuedCompletionStatus x) w))) w hs"

definition win_Close :: "win_os \<Rightarrow> win_bind \<Rightarrow> win_world \<Rightarrow> win_bind \<times> win_world" where
  "win_Close K b w =
     (if wb_isOpen b \<noteq> 1 then (b, w)
      else let b1 = b\<lparr>wb_isOpen := 2\<rparr>;
               w1 = post_all K [r_iocp (a_rx (wb_v4 b1)), r_iocp (a_tx (wb_v4 b1)),
                                r_iocp (a_rx (wb_v6 b1)), r_iocp (a_tx (wb_v6 b1))] w
           in closeAndZero K b1 w1)"

section \<open>Opening\<close>

definition packetsLen :: "64 word" where
  "packetsLen = sizeofPacket * 256"

definition ring_Open :: "win_os \<Rightarrow> ring_buffer \<Rightarrow> win_world \<Rightarrow> goerror option \<times> ring_buffer \<times> win_world" where
  "ring_Open K ring w =
     (let (packets, err, w1) = win_sys K (VirtualAlloc packetsLen) w;
          ring1 = ring\<lparr>r_packets := packets\<rparr>
      in if err \<noteq> None then (err, ring1, w1)
         else let (i, err, w2) = RegisterPointer K packets (ucast packetsLen) w1;
                  ring2 = ring1\<lparr>r_id := i\<rparr>
              in if err \<noteq> None then (err, ring2, w2)
                 else let (iocp, err, w3) = win_sys K CreateIoCompletionPort w2;
                          ring3 = ring2\<lparr>r_iocp := iocp\<rparr>
                      in if err \<noteq> None then (err, ring3, w3)
                         else let (cq, err, w4) = CreateIOCPCompletionQueue K packetsPerRing iocp 0 w3
                              in (err, ring3\<lparr>r_cq := cq\<rparr>, w4))"

text \<open>The last steps of \<open>afWinRingBind.Open\<close>: request queue, \<open>Bind\<close> and \<open>Getsockname\<close>.\<close>

definition af_bind_socket ::
  "win_os \<Rightarrow> af_bind \<Rightarrow> win_sockaddr \<Rightarrow> win_world \<Rightarrow> (goerror + win_sockaddr) \<times> af_bind \<times> win_world" where
  "af_bind_socket K a sa w =
     (let (rq, err, w1) = CreateRequestQueue K (a_sock a) packetsPerRing 1 packetsPerRing 1
            (r_cq (a_rx a)) (r_cq (a_tx a)) 0 w;
          a1 = a\<lparr>a_rq := rq\<rparr>
      in case err of Some e \<Rightarrow> (Inl e, a1, w1)
         | None \<Rightarrow>
           let (_, err, w2) = win_sys K (BindSocket (a_sock a1) sa) w1
           in case err of Some e \<Rightarrow> (Inl e, a1, w2)
              | None \<Rightarrow>
                let (_, err, w3) = win_sys K (Getsockname (a_sock a1)) w2
                in case err of Some e \<Rightarrow> (Inl e, a1, w3)
                   | None \<Rightarrow> (Inr (oSockname K w2 (a_sock a1)), a1, w3))"

definition af_Open ::
  "win_os \<Rightarrow> af_bind \<Rightarrow> 16 word \<Rightarrow> win_sockaddr \<Rightarrow> win_world \<Rightarrow> (goerror + win_sockaddr) \<times> af_bind \<times> win_world" where
  "af_Open K a family sa w =
     (let (sock, err, w1) = Socket K (ucast family) 2 17 w;
          a1 = a\<lparr>a_sock := sock\<rparr>
      in case err of Some e \<Rightarrow> (Inl e, a1, w1)
         | None \<Rightarrow>
           let (err, rx, w2) = ring_Open K (a_rx a1) w1;
               a2 = a1\<lparr>a_rx := rx\<rparr>
           in case err of Some e \<Rightarrow> (Inl e, a2, w2)
              | None \<Rightarrow>
                let (err, tx, w3) = ring_Open K (a_tx a2) w2;
                    a3 = a2\<lparr>a_tx := tx\<rparr>
                in case err of Some e \<Rightarrow> (Inl e, a3, w3) | None \<Rightarrow> af_bind_socket K a3 sa w3)"

text \<open>The \<open>winrio.Buffer\<close> values of a packet at \<open>p\<close>: its data, \<open>n\<close> bytes of it, and its address.\<close>

definition data_buffer :: "ring_buffer \<Rightarrow> pointer \<Rightarrow> nat \<Rightarrow> rio_buffer" where
  "data_buffer rb p n =
     \<lparr>rb_Id = r_id rb, rb_Offset = ucast (p + sizeofEndpoint - r_packets rb), rb_Length = of_nat n\<rparr>"

definition address_buffer :: "ring_buffer \<Rightarrow> pointer \<Rightarrow> rio_buffer" where
  "address_buffer rb p =
     \<lparr>rb_Id = r_id rb, rb_Offset = ucast (p - r_packets rb), rb_Length = ucast sizeofEndpoint\<rparr>"

definition InsertReceiveRequest ::
  "win_os \<Rightarrow> af_bind \<Rightarrow> win_world \<Rightarrow> (goerror option \<times> af_bind \<times> win_world) outcome" where
  "InsertReceiveRequest K a w =
     obind (ring_Push (a_rx a)) (\<lambda>(packet, rx).
       let (err, w') = ReceiveEx K (a_rq a) (data_buffer rx packet bytesPerPacket) (address_buffer rx packet) packet w
       in Ret (err, a\<lparr>a_rx := rx\<rparr>, w'))"

text \<open>\<open>n\<close> rounds of the loop that posts the first receive requests of both families.\<close>

fun insert_requests ::
  "win_os \<Rightarrow> nat \<Rightarrow> af_bind \<Rightarrow> af_bind \<Rightarrow> win_world
    \<Rightarrow> (goerror option \<times> af_bind \<times> af_bind \<times> win_world) outcome" where
  "insert_requests K 0 v4 v6 w = Ret (None, v4, v6, w)"
| "insert_requests K (Suc n) v4 v6 w =
     obind (InsertReceiveRequest K v4 w) (\<lambda>(err, v4', w1).
       if err \<noteq> None then Ret (err, v4', v6, w1)
       else obind (InsertReceiveRequest K v6 w1) (\<lambda>(err, v6', w2).
         if err \<noteq> None then Ret (err, v4', v6', w2) else insert_requests K n v4' v6' w2))"

definition subscribe :: "win_os \<Rightarrow> win_bind \<Rightarrow> win_world \<Rightarrow> goerror option \<times> win_bind \<times> win_world" where
  "subscribe K b w =
     (if wb_subscriber b
      then let (f, err, w') = win_sys K SubscribeCloser w
           in if err \<noteq> None then (err, b, w') else (None, b\<lparr>wb_unsubscribe := f \<noteq> 0\<rparr>, w')
      else (None, b, w))"

text \<open>\<open>Open\<close> before its deferred cleanup: the error, or the port of the IPv6 socket.\<close>

definition open_body ::
  "win_os \<Rightarrow> win_bind \<Rightarrow> port \<Rightarrow> win_world \<Rightarrow> ((goerror + port) \<times> win_bind \<times> win_world) outcome" where
  "open_body K b port w =
     (if wb_isOpen b \<noteq> 0 then Ret (Inl ErrBindAlreadyOpen, b, w)
      else let (r4, v4, w1) = af_Open K (wb_v4 b) AF_INET (SockaddrInet4 (uint port)) w;
               b1 = b\<lparr>wb_v4 := v4\<rparr>
           in case r4 of
                Inl e \<Rightarrow> Ret (Inl e, b1, w1)
              | Inr (SockaddrInet4 p4) \<Rightarrow>
                  (let (r6, v6, w2) = af_Open K (wb_v6 b1) AF_INET6 (SockaddrInet6 p4) w1;
                       b2 = b1\<lparr>wb_v6 := v6\<rparr>
                   in case r6 of
                        Inl e \<Rightarrow> Ret (Inl e, b2, w2)
                      | Inr (SockaddrInet6 p6) \<Rightarrow>
                          obind (insert_requests K (unat packetsPerRing) (wb_v4 b2) (wb_v6 b2) w2) (\<lambda>(err, v4', v6', w3).
                            let b3 = b2\<lparr>wb_v4 := v4', wb_v6 := v6'\<rparr>
                            in case err of
                                 Some e \<Rightarrow> Ret (Inl e, b3, w3)
                               | None \<Rightarrow>
                                   let (err, b4, w4) = subscribe K b3 w3
                                   in case err of
                                        Some e \<Rightarrow> Ret (Inl e, b4, w4)
                                      | None \<Rightarrow> Ret (Inr (of_int p6), b4\<lparr>wb_isOpen := 1\<rparr>, w4))
                      | Inr _ \<Rightarrow> Panic BadTypeAssertion)
              | Inr _ \<Rightarrow> Panic BadTypeAssertion)"

datatype win_receive_func = receiveIPv4_fn | receiveIPv6_fn

definition win_Open ::
  "win_os \<Rightarrow> win_bind \<Rightarrow> port \<Rightarrow> win_world
    \<Rightarrow> ((goerror + win_receive_func list \<times> port) \<times> win_bind \<times> win_world) outcome" where
  "win_Open K b port w =
     obind (open_body K b port w) (\<lambda>(r, b', w').
       case r of
         Inl e \<Rightarrow> let (b'', w'') = closeAndZero K b' w' in Ret (Inl e, b'', w'')
       | Inr p \<Rightarrow> Ret (Inr ([receiveIPv4_fn, receiveIPv6_fn], p), b', w'))"

definition win_BatchSize :: nat where
  "win_BatchSize = 1"

definition win_SetMark :: "win_bind \<Rightarrow> 32 word \<Rightarrow> goerror option \<times> win_bind" where
  "win_SetMark b mark = (None, b)"

section \<open>Receiving\<close>

definition receiveSpins :: nat where
  "receiveSpins = 15"

text \<open>
  \<open>isOpen.Load()\<close> as a function of the moment: \<open>Close\<close> of another goroutine stores 2 without
  waiting for the calls in progress.
\<close>

definition load_isOpen :: "win_os \<Rightarrow> win_bind \<Rightarrow> win_world \<Rightarrow> 32 word" where
  "load_isOpen K b w = (if wb_isOpen b = 1 \<and> oClosing K w then 2 else wb_isOpen b)"

text \<open>The spinning loop with \<open>n\<close> tries left; \<open>first\<close> in its first iteration.\<close>

fun receive_spin ::
  "win_os \<Rightarrow> (win_world \<Rightarrow> 32 word) \<Rightarrow> handle \<Rightarrow> bool \<Rightarrow> nat \<Rightarrow> 32 word \<Rightarrow> rio_result list \<Rightarrow> win_world
    \<Rightarrow> ((goerror + 32 word) \<times> rio_result list \<times> win_world) outcome" where
  "receive_spin K isOpen cq first 0 count results w = Ret (Inr count, results, w)"
| "receive_spin K isOpen cq first (Suc n) count results w =
     (if count \<noteq> 0 then Ret (Inr count, results, w)
      else if \<not> first \<and> isOpen w \<noteq> 1 then Ret (Inl NetErrClosed, results, w)
      else obind (DequeueCompletion K cq results w) (\<lambda>(count', results', w').
             receive_spin K isOpen cq False n count' results' w'))"

text \<open>
  Waiting on the completion port of a queue that had no completion: \<open>Notify\<close>, the wait, and one
  more look. Both directions use it. A wait that never ends is \<open>Diverge\<close>.
\<close>

definition wait_completion ::
  "win_os \<Rightarrow> (win_world \<Rightarrow> 32 word) \<Rightarrow> ring_buffer \<Rightarrow> rio_result list \<Rightarrow> win_world
    \<Rightarrow> ((goerror + 32 word) \<times> rio_result list \<times> win_world) outcome" where
  "wait_completion K isOpen rb results w =
     (let (err, w1) = Notify K (r_cq rb) w
      in case err of
           Some e \<Rightarrow> Ret (Inl e, results, w1)
         | None \<Rightarrow>
             if oBlocks K w1 (r_iocp rb) then Diverge
             else let (_, err, w2) = win_sys K (GetQueuedCompletionStatus (r_iocp rb)) w1
                  in case err of
                       Some e \<Rightarrow> Ret (Inl e, results, w2)
                     | None \<Rightarrow>
                         if isOpen w2 \<noteq> 1 then Ret (Inl NetErrClosed, results, w2)
                         else obind (DequeueCompletion K (r_cq rb) results w2) (\<lambda>(count, results', w3).
                                if count = 0 then Ret (Inl IoErrNoProgress, results', w3)
                                else Ret (Inr count, results', w3)))"

definition receive_completion ::
  "win_os \<Rightarrow> (win_world \<Rightarrow> 32 word) \<Rightarrow> ring_buffer \<Rightarrow> rio_result list \<Rightarrow> win_world
    \<Rightarrow> ((goerror + 32 word) \<times> rio_result list \<times> win_world) outcome" where
  "receive_completion K isOpen rx results w =
     obind (receive_spin K isOpen (r_cq rx) True receiveSpins 0 results w) (\<lambda>(r, results', w').
       if r = Inr 0 then wait_completion K isOpen rx results' w' else Ret (r, results', w'))"

definition WSAEMSGSIZE :: "32 word" where
  "WSAEMSGSIZE = 10040"

definition status_error :: "32 word \<Rightarrow> goerror" where
  "status_error s = Errno (uint (scast s :: 64 word))"

text \<open>The result of \<open>Receive\<close>: the number of bytes, the sender and the error.\<close>

type_synonym win_received = "nat \<times> win_endpoint option \<times> goerror option"

text \<open>What follows a completion: \<open>None\<close> stands for \<open>goto retry\<close>.\<close>

definition receive_packet ::
  "win_os \<Rightarrow> (win_world \<Rightarrow> 32 word) \<Rightarrow> slice \<Rightarrow> rio_result \<Rightarrow> store \<Rightarrow> win_world \<Rightarrow> (win_received option \<times> store) outcome" where
  "receive_packet K isOpen buf res h w =
     (if rr_Status res = WSAEMSGSIZE then
        Ret (if isOpen w \<noteq> 1 then Some (0, None, Some NetErrClosed) else None, h)
      else if rr_Status res \<noteq> 0 then Ret (Some (0, None, Some (status_error (rr_Status res))), h)
      else let packet = ww_mem w (rr_RequestContext res);
               n = unat (rr_BytesTransferred res);
               k = min (slen buf) n
           in if bytesPerPacket < n then Panic SliceOutOfRange
              else Ret (Some (k, Some (rp_addr packet), None),
                        sl_write h (sarr buf) (soff buf) (take k (rp_data packet))))"

record receive_state =
  rs_results :: "rio_result list"
  rs_af :: af_bind
  rs_mem :: store
  rs_world :: win_world

definition receive_once ::
  "win_os \<Rightarrow> (win_world \<Rightarrow> 32 word) \<Rightarrow> slice \<Rightarrow> receive_state \<Rightarrow> (win_received option \<times> receive_state) outcome" where
  "receive_once K isOpen buf st =
     obind (receive_completion K isOpen (a_rx (rs_af st)) (rs_results st) (rs_world st)) (\<lambda>(r, results, w).
       case r of
         Inl e \<Rightarrow> Ret (Some (0, None, Some e), st\<lparr>rs_results := results, rs_world := w\<rparr>)
       | Inr _ \<Rightarrow>
           obind (InsertReceiveRequest K ((rs_af st)\<lparr>a_rx := ring_Return 1 (a_rx (rs_af st))\<rparr>) w) (\<lambda>(err, a, w').
             let st' = st\<lparr>rs_results := results, rs_af := a, rs_world := w'\<rparr>
             in case err of
                  Some e \<Rightarrow> Ret (Some (0, None, Some e), st')
                | None \<Rightarrow>
                    obind (idx results 0) (\<lambda>res.
                      obind (receive_packet K isOpen buf res (rs_mem st) w') (\<lambda>(r, h).
                        Ret (r, st'\<lparr>rs_mem := h\<rparr>)))))"

text \<open>The loop closed by \<open>goto retry\<close>; \<open>None\<close> when it never ends.\<close>

partial_function (option) receive_loop ::
  "win_os \<Rightarrow> (win_world \<Rightarrow> 32 word) \<Rightarrow> slice \<Rightarrow> receive_state \<Rightarrow> (win_received \<times> receive_state) outcome option" where
  "receive_loop K isOpen buf st =
     (case receive_once K isOpen buf st of
        Ret r \<Rightarrow> (case fst r of
                    Some x \<Rightarrow> Some (Ret (x, snd r))
                  | None \<Rightarrow> receive_loop K isOpen buf (snd r))
      | Panic p \<Rightarrow> Some (Panic p)
      | Diverge \<Rightarrow> Some Diverge)"

definition af_Receive ::
  "win_os \<Rightarrow> (win_world \<Rightarrow> 32 word) \<Rightarrow> af_bind \<Rightarrow> slice \<Rightarrow> store \<Rightarrow> win_world
    \<Rightarrow> (win_received \<times> af_bind \<times> store \<times> win_world) outcome" where
  "af_Receive K isOpen a buf h w =
     (if isOpen w \<noteq> 1 then Ret ((0, None, Some NetErrClosed), a, h, w)
      else case receive_loop K isOpen buf \<lparr>rs_results = [zero_result], rs_af = a, rs_mem = h, rs_world = w\<rparr> of
             None \<Rightarrow> Diverge
           | Some r \<Rightarrow> obind r (\<lambda>(x, st). Ret (x, rs_af st, rs_mem st, rs_world st)))"

record win_receive_result =
  wr_n :: nat
  wr_err :: "goerror option"
  wr_sizes :: "nat list"
  wr_eps :: "win_endpoint option list"
  wr_bind :: win_bind
  wr_mem :: store
  wr_world :: win_world

text \<open>The receive functions of the two families differ in the half of the bind they use.\<close>

definition win_receive ::
  "win_os \<Rightarrow> win_bind \<Rightarrow> (win_bind \<Rightarrow> af_bind) \<Rightarrow> (af_bind \<Rightarrow> win_bind \<Rightarrow> win_bind) \<Rightarrow>
   slice list \<Rightarrow> nat list \<Rightarrow> win_endpoint option list \<Rightarrow> store \<Rightarrow> win_world \<Rightarrow> win_receive_result outcome" where
  "win_receive K b get put bufs sizes eps h w =
     (let stop = (\<lambda>e. Ret \<lparr>wr_n = 0, wr_err = Some e, wr_sizes = sizes, wr_eps = eps, wr_bind = b, wr_mem = h, wr_world = w\<rparr>)
      in if load_isOpen K b w \<noteq> 1 then stop NetErrClosed
         else case validateReceiveBuffers bufs sizes eps win_BatchSize of
                Some err \<Rightarrow> stop err
              | None \<Rightarrow>
                  obind (idx bufs 0) (\<lambda>buf.
                    obind (af_Receive K (load_isOpen K b) (get b) buf h w) (\<lambda>((n, ep, err), a, h', w').
                      obind (upd sizes 0 n) (\<lambda>sizes'.
                        obind (upd eps 0 ep) (\<lambda>eps'.
                          Ret \<lparr>wr_n = 1, wr_err = err, wr_sizes = sizes', wr_eps = eps', wr_bind = put a b,
                               wr_mem = h', wr_world = w'\<rparr>)))))"

definition receiveIPv4 ::
  "win_os \<Rightarrow> win_bind \<Rightarrow> slice list \<Rightarrow> nat list \<Rightarrow> win_endpoint option list \<Rightarrow> store \<Rightarrow> win_world
    \<Rightarrow> win_receive_result outcome" where
  "receiveIPv4 K b = win_receive K b wb_v4 (\<lambda>a b. b\<lparr>wb_v4 := a\<rparr>)"

definition receiveIPv6 ::
  "win_os \<Rightarrow> win_bind \<Rightarrow> slice list \<Rightarrow> nat list \<Rightarrow> win_endpoint option list \<Rightarrow> store \<Rightarrow> win_world
    \<Rightarrow> win_receive_result outcome" where
  "receiveIPv6 K b = win_receive K b wb_v6 (\<lambda>a b. b\<lparr>wb_v6 := a\<rparr>)"

section \<open>Sending\<close>

text \<open>The completions collected before a send; waits only when the ring is full.\<close>

definition send_completions ::
  "win_os \<Rightarrow> (win_world \<Rightarrow> 32 word) \<Rightarrow> ring_buffer \<Rightarrow> win_world \<Rightarrow> ((goerror + 32 word) \<times> win_world) outcome" where
  "send_completions K isOpen tx w =
     obind (DequeueCompletion K (r_cq tx) (replicate (unat packetsPerRing) zero_result) w) (\<lambda>(count, results, w1).
       if count = 0 \<and> r_isFull tx
       then obind (wait_completion K isOpen tx results w1) (\<lambda>(r, _, w2). Ret (r, w2))
       else Ret (Inr count, w1))"

text \<open>Storing the address and the payload in the packet, and posting the request.\<close>

definition send_packet ::
  "win_os \<Rightarrow> af_bind \<Rightarrow> byte list \<Rightarrow> win_endpoint \<Rightarrow> win_world \<Rightarrow> (goerror option \<times> af_bind \<times> win_world) outcome" where
  "send_packet K a bytes nend w =
     obind (ring_Push (a_tx a)) (\<lambda>(packet, tx).
       let old = ww_mem w packet;
           w1 = w\<lparr>ww_mem := (ww_mem w)(packet := \<lparr>rp_addr = nend, rp_data = overwrite (rp_data old) 0 bytes\<rparr>)\<rparr>;
           (err, w2) = SendEx K (a_rq a) (data_buffer tx packet (length bytes)) (address_buffer tx packet) 0 w1
       in Ret (err, a\<lparr>a_tx := tx\<rparr>, w2))"

definition af_Send ::
  "win_os \<Rightarrow> (win_world \<Rightarrow> 32 word) \<Rightarrow> af_bind \<Rightarrow> byte list \<Rightarrow> win_endpoint \<Rightarrow> win_world
    \<Rightarrow> (goerror option \<times> af_bind \<times> win_world) outcome" where
  "af_Send K isOpen a bytes nend w =
     (if isOpen w \<noteq> 1 then Ret (Some NetErrClosed, a, w)
      else if bytesPerPacket < length bytes then Ret (Some IoErrShortBuffer, a, w)
      else obind (send_completions K isOpen (a_tx a) w) (\<lambda>(r, w1).
             case r of
               Inl e \<Rightarrow> Ret (Some e, a, w1)
             | Inr count \<Rightarrow>
                 send_packet K (if 0 < count then a\<lparr>a_tx := ring_Return count (a_tx a)\<rparr> else a) bytes nend w1))"

fun win_send_loop ::
  "win_os \<Rightarrow> win_bind \<Rightarrow> byte list list \<Rightarrow> win_endpoint \<Rightarrow> win_world \<Rightarrow> (goerror option \<times> win_bind \<times> win_world) outcome" where
  "win_send_loop K b [] nend w = Ret (None, b, w)"
| "win_send_loop K b (bytes # bufs) nend w =
     (if we_family nend = AF_INET then
        if a_blackhole (wb_v4 b) then win_send_loop K b bufs nend w
        else obind (af_Send K (load_isOpen K b) (wb_v4 b) bytes nend w) (\<lambda>(err, a, w').
               if err \<noteq> None then Ret (err, b\<lparr>wb_v4 := a\<rparr>, w')
               else win_send_loop K (b\<lparr>wb_v4 := a\<rparr>) bufs nend w')
      else if we_family nend = AF_INET6 then
        if a_blackhole (wb_v6 b) then win_send_loop K b bufs nend w
        else obind (af_Send K (load_isOpen K b) (wb_v6 b) bytes nend w) (\<lambda>(err, a, w').
               if err \<noteq> None then Ret (err, b\<lparr>wb_v6 := a\<rparr>, w')
               else win_send_loop K (b\<lparr>wb_v6 := a\<rparr>) bufs nend w')
      else win_send_loop K b bufs nend w)"

definition win_Send ::
  "win_os \<Rightarrow> win_bind \<Rightarrow> slice list \<Rightarrow> win_endpoint_arg \<Rightarrow> store \<Rightarrow> win_world
    \<Rightarrow> (goerror option \<times> win_bind \<times> win_world) outcome" where
  "win_Send K b bufs endpoint h w =
     (case endpoint of
        NotWinEndpoint \<Rightarrow> Ret (Some ErrWrongEndpointType, b, w)
      | WinEndpoint nend \<Rightarrow> win_send_loop K b (map (sl_read h) bufs) nend w)"

end
