(* ===== verification/Win_Lifecycle.thy ===== *)
theory Win_Lifecycle
  imports Win_Ring_Bind
begin

text \<open>
  The life of a \<open>WinRingBind\<close>: every socket, completion port, completion queue, registered buffer
  and memory block that was opened and not closed is held by the bind, after any sequence of
  calls, and a bind that is not open holds nothing.
\<close>

section \<open>What a bind holds\<close>

definition owns_ring :: "resource \<Rightarrow> ring_buffer \<Rightarrow> int" where
  "owns_ring r rb =
     of_bool (r = QueueOf (r_cq rb)) + of_bool (r = HandleOf (r_iocp rb)) +
     of_bool (r = BufferOf (r_id rb)) + of_bool (r = MemoryOf (r_packets rb))"

definition owns_af :: "resource \<Rightarrow> af_bind \<Rightarrow> int" where
  "owns_af r a = of_bool (r = HandleOf (a_sock a)) + owns_ring r (a_rx a) + owns_ring r (a_tx a)"

definition owns_bind :: "resource \<Rightarrow> win_bind \<Rightarrow> int" where
  "owns_bind r b = owns_af r (wb_v4 b) + owns_af r (wb_v6 b)"

text \<open>
  What the calls that fail return besides the error, as documented: no memory, no completion port,
  and the invalid handle for a socket.
\<close>

definition os_values :: "win_os \<Rightarrow> bool" where
  "os_values K \<longleftrightarrow>
     (\<forall>w n. snd (oCall K w (VirtualAlloc n)) \<noteq> None \<longrightarrow> fst (oCall K w (VirtualAlloc n)) = 0) \<and>
     (\<forall>w. snd (oCall K w CreateIoCompletionPort) \<noteq> None \<longrightarrow> fst (oCall K w CreateIoCompletionPort) = 0) \<and>
     (\<forall>w a t p. snd (oCall K w (WSASocket a t p)) \<noteq> None \<longrightarrow> fst (oCall K w (WSASocket a t p)) = InvalidHandle)"

lemma proper_ne:
  assumes "proper r"
  shows "r \<noteq> QueueOf 0" "r \<noteq> HandleOf 0" "r \<noteq> BufferOf 0" "r \<noteq> MemoryOf 0" "r \<noteq> HandleOf InvalidHandle"
  using assms by auto

lemma owns_zero [simp]:
  "proper r \<Longrightarrow> owns_ring r zero_ring = 0" "proper r \<Longrightarrow> owns_af r (zero_af q) = 0"
  by (auto simp: owns_ring_def owns_af_def zero_ring_def zero_af_def)

section \<open>Closing\<close>

lemma close_if_count:
  assumes "proper r"
  shows "open_count r (if q \<noteq> 0 then CloseCompletionQueue K q w else w) = open_count r w - of_bool (r = QueueOf q)"
    "open_count r (if q \<noteq> 0 then close_handle K q w else w) = open_count r w - of_bool (r = HandleOf q)"
    "open_count r (if q \<noteq> 0 then DeregisterBuffer K q w else w) = open_count r w - of_bool (r = BufferOf q)"
    "open_count r (if q \<noteq> 0 then snd (snd (win_sys K (VirtualFree q) w)) else w) = open_count r w - of_bool (r = MemoryOf q)"
  using proper_ne [OF assms]
  by (auto simp: close_count win_sys_def event_balance_def split: prod.splits)

lemma ring_CloseAndZero_count:
  assumes "ring_CloseAndZero K rb w = (rb', w')" "proper r"
  shows "rb' = zero_ring" "open_count r w' = open_count r w - owns_ring r rb"
proof -
  show "rb' = zero_ring" using assms(1) by (auto simp: ring_CloseAndZero_def Let_def zero_ring_def)
  show "open_count r w' = open_count r w - owns_ring r rb"
    using assms(1) unfolding ring_CloseAndZero_def Let_def owns_ring_def
    by (auto simp only: prod.inject close_if_count [OF assms(2)])
qed

lemma af_CloseAndZero_count:
  assumes "af_CloseAndZero K a w = (a', w')" "proper r"
  shows "a' = zero_af (a_rq a)" "open_count r w' = open_count r w - owns_af r a"
proof -
  obtain rx w1 tx w2 where c: "ring_CloseAndZero K (a_rx a) w = (rx, w1)" "ring_CloseAndZero K (a_tx a) w1 = (tx, w2)"
    by fastforce
  note n = ring_CloseAndZero_count [OF c(1) assms(2)] ring_CloseAndZero_count [OF c(2) assms(2)]
  show "a' = zero_af (a_rq a)" using assms(1) c n(1,3) by (auto simp: af_CloseAndZero_def zero_af_def)
  show "open_count r w' = open_count r w - owns_af r a"
    using assms(1) c n(2,4) unfolding af_CloseAndZero_def Let_def owns_af_def
    by (auto simp only: prod.inject prod.case close_if_count [OF assms(2)])
qed

text \<open>A bind that is not open holds nothing.\<close>

definition win_inv :: "win_bind \<Rightarrow> bool" where
  "win_inv b \<longleftrightarrow>
     (wb_isOpen b = 0 \<and> (\<exists>q4 q6. wb_v4 b = zero_af q4 \<and> wb_v6 b = zero_af q6) \<or> wb_isOpen b = 1)"

lemma closeAndZero_count:
  assumes "closeAndZero K b w = (b', w')" "proper r"
  shows "wb_isOpen b' = 0" "win_inv b'" "owns_bind r b' = 0" "open_count r w' = open_count r w - owns_bind r b"
proof -
  obtain v4 w2 v6 w3 where c:
    "af_CloseAndZero K (wb_v4 b) (if wb_unsubscribe b then snd (snd (win_sys K Unsubscribe w)) else w) = (v4, w2)"
    "af_CloseAndZero K (wb_v6 b) w2 = (v6, w3)"
    by (metis prod.collapse)
  note n = af_CloseAndZero_count [OF c(1) assms(2)] af_CloseAndZero_count [OF c(2) assms(2)]
  have b': "b' = b\<lparr>wb_isOpen := 0, wb_unsubscribe := False, wb_v4 := v4, wb_v6 := v6\<rparr>" "w' = w3"
    using assms(1) c by (auto simp: closeAndZero_def)
  have unsub: "open_count r (snd (snd (win_sys K Unsubscribe w))) = open_count r w"
    by (auto simp: win_sys_def event_balance_def split: prod.splits)
  show "wb_isOpen b' = 0" "win_inv b'" using n(1,3) by (auto simp: b' win_inv_def)
  show "owns_bind r b' = 0" using n(1,3) assms(2) by (simp add: b' owns_bind_def)
  show "open_count r w' = open_count r w - owns_bind r b" using n(2,4) unsub by (auto simp: b' owns_bind_def)
qed

lemma post_all_count [simp]: "open_count r (post_all K hs w) = open_count r w"
proof (induction hs arbitrary: w)
  case (Cons x hs)
  have "open_count r (snd (snd (win_sys K (PostQueuedCompletionStatus x) w))) = open_count r w"
    by (auto simp: win_sys_def event_balance_def split: prod.splits)
  then show ?case using Cons by (simp add: post_all_def)
qed (simp add: post_all_def)

lemma win_Close_count:
  assumes "win_Close K b w = (b', w')" "proper r" "win_inv b"
  shows "wb_isOpen b' = 0" "win_inv b'" "owns_bind r b' = 0" "open_count r w' = open_count r w - owns_bind r b"
proof -
  have "wb_isOpen b' = 0 \<and> win_inv b' \<and> owns_bind r b' = 0 \<and> open_count r w' = open_count r w - owns_bind r b"
  proof (cases "wb_isOpen b = 1")
    case True
    let ?b = "b\<lparr>wb_isOpen := 2\<rparr>"
    have "owns_bind r ?b = owns_bind r b" by (simp add: owns_bind_def)
    moreover obtain w1 where "closeAndZero K ?b w1 = (b', w')" "open_count r w1 = open_count r w"
      using assms(1) True by (simp add: win_Close_def Let_def)
    ultimately show ?thesis using closeAndZero_count [of K ?b w1 b' w' r] assms(2) by auto
  next
    case False
    then show ?thesis using assms by (auto simp: win_Close_def win_inv_def owns_bind_def)
  qed
  then show "wb_isOpen b' = 0" "win_inv b'" "owns_bind r b' = 0" "open_count r w' = open_count r w - owns_bind r b"
    by blast+
qed

section \<open>Opening\<close>

lemma os_valuesD:
  assumes "os_values K"
  shows "oCall K w (VirtualAlloc n) = (x, Some e) \<Longrightarrow> x = 0"
    and "oCall K w CreateIoCompletionPort = (x, Some e) \<Longrightarrow> x = 0"
    and "oCall K w (WSASocket a t p) = (x, Some e) \<Longrightarrow> x = InvalidHandle"
  using assms unfolding os_values_def by (metis fst_conv snd_conv option.distinct(1))+

lemma win_sys_acquire:
  assumes "os_values K" "proper r"
  shows "win_sys K (VirtualAlloc n) w = (x, err, w') \<Longrightarrow> open_count r w' = open_count r w + of_bool (r = MemoryOf x)"
    and "win_sys K CreateIoCompletionPort w = (x, err, w') \<Longrightarrow> open_count r w' = open_count r w + of_bool (r = HandleOf x)"
    and "Socket K a t p w = (x, err, w') \<Longrightarrow> open_count r w' = open_count r w + of_bool (r = HandleOf x)"
  using proper_ne [OF assms(2)]
  by (cases err; auto simp: win_sys_def Socket_def event_balance_def dest: os_valuesD [OF assms(1)] split: prod.splits)+

lemma ring_Open_count:
  assumes "os_values K" "proper r" "ring_Open K zero_ring w = (err, rb', w')"
  shows "open_count r w' = open_count r w + owns_ring r rb'"
    and "r_head rb' = 0 \<and> r_tail rb' = 0 \<and> \<not> r_isFull rb'"
  using assms(3) proper_ne [OF assms(2)]
  by (auto simp: ring_Open_def Let_def owns_ring_def zero_ring_def CreateIOCPCompletionQueue_def
      dest!: win_sys_acquire [OF assms(1,2)] RegisterPointer_count [OF _ assms(2)] create_cq_count [OF _ assms(2)]
      split: prod.splits if_splits)

lemma af_bind_socket_count:
  assumes "af_bind_socket K a sa w = (res, a', w')"
  shows "open_count r w' = open_count r w" "\<exists>q. a' = a\<lparr>a_rq := q\<rparr>"
  using assms
  by (auto simp: af_bind_socket_def Let_def CreateRequestQueue_count event_balance_def
      dest!: win_sys_count [of _ _ _ _ _ _ r] split: prod.splits option.splits)

lemma af_Open_count:
  assumes "os_values K" "proper r" "af_Open K (zero_af q) family sa w = (res, a', w')"
  shows "open_count r w' = open_count r w + owns_af r a'"
proof -
  obtain sock err w1 where s: "Socket K (ucast family) 2 17 w = (sock, err, w1)" by (metis prod_cases3)
  note n1 = win_sys_acquire(3) [OF assms(1,2) s]
  show ?thesis
  proof (cases err)
    case (Some e)
    then show ?thesis using assms(2,3) s n1 by (auto simp: af_Open_def owns_af_def zero_af_def)
  next
    case None
    obtain err2 rx w2 where rx: "ring_Open K zero_ring w1 = (err2, rx, w2)" by (metis prod_cases3)
    obtain err3 tx w3 where tx: "ring_Open K zero_ring w2 = (err3, tx, w3)" by (metis prod_cases3)
    note n = n1 ring_Open_count(1) [OF assms(1,2) rx] ring_Open_count(1) [OF assms(1,2) tx]
    let ?a = "\<lparr>a_sock = sock, a_rx = rx, a_tx = tx, a_rq = q, a_blackhole = False\<rparr>"
    consider "err2 \<noteq> None" | "err2 = None" "err3 \<noteq> None" | "err2 = None" "err3 = None" by blast
    then show ?thesis
    proof cases
      case 3
      then have b: "af_bind_socket K ?a sa w3 = (res, a', w')"
        using assms(3) s None rx tx by (simp add: af_Open_def zero_af_def)
      show ?thesis using af_bind_socket_count(1) [OF b, of r] af_bind_socket_count(2) [OF b] n by (auto simp: owns_af_def)
    qed (use assms(2,3) s None rx tx n in \<open>auto simp: af_Open_def owns_af_def zero_af_def\<close>)
  qed
qed

lemma InsertReceiveRequestD:
  assumes "InsertReceiveRequest K a w = Ret (err, a', w')"
  obtains p rx where "ring_Push (a_rx a) = Ret (p, rx)" "a' = a\<lparr>a_rx := rx\<rparr>"
    "ReceiveEx K (a_rq a) (data_buffer rx p bytesPerPacket) (address_buffer rx p) p w = (err, w')"
proof -
  from assms obtain p rx where p: "ring_Push (a_rx a) = Ret (p, rx)"
    by (auto simp: InsertReceiveRequest_def obind_eq_Ret)
  show thesis
    using assms p by (intro that [OF p])
      (simp_all add: InsertReceiveRequest_def case_prod_beta prod_eq_iff)
qed

lemma ring_counters_owns [simp]:
  "owns_ring r (rb\<lparr>r_head := x\<rparr>) = owns_ring r rb" "owns_ring r (rb\<lparr>r_tail := x\<rparr>) = owns_ring r rb"
  "owns_ring r (rb\<lparr>r_isFull := f\<rparr>) = owns_ring r rb"
  by (simp_all add: owns_ring_def)

lemma ring_Push_owns: "ring_Push rb = Ret (p, rb') \<Longrightarrow> owns_ring r rb' = owns_ring r rb"
  by (auto simp: ring_Push_def Let_def split: if_splits)

lemma InsertReceiveRequest_count:
  assumes "InsertReceiveRequest K a w = Ret (err, a', w')"
  shows "open_count r w' = open_count r w" "owns_af r a' = owns_af r a"
proof -
  obtain p rx where i: "ring_Push (a_rx a) = Ret (p, rx)" "a' = a\<lparr>a_rx := rx\<rparr>"
    "ReceiveEx K (a_rq a) (data_buffer rx p bytesPerPacket) (address_buffer rx p) p w = (err, w')"
    using assms by (rule InsertReceiveRequestD)
  show "open_count r w' = open_count r w" using i(3) by (rule transfer_count)
  show "owns_af r a' = owns_af r a" using i(2) ring_Push_owns [OF i(1)] by (simp add: owns_af_def)
qed

lemma insert_requests_count:
  "insert_requests K n v4 v6 w = Ret (err, v4', v6', w') \<Longrightarrow>
   open_count r w' = open_count r w \<and> owns_af r v4' = owns_af r v4 \<and> owns_af r v6' = owns_af r v6"
proof (induction n arbitrary: v4 v6 w)
  case (Suc n)
  from Suc.prems obtain e1 v4a w1 where i4: "InsertReceiveRequest K v4 w = Ret (e1, v4a, w1)"
    by (auto simp: obind_eq_Ret)
  note n4 = InsertReceiveRequest_count [OF i4, of r]
  show ?case
  proof (cases e1)
    case None
    from Suc.prems None i4 obtain e2 v6a w2 where i6: "InsertReceiveRequest K v6 w1 = Ret (e2, v6a, w2)"
      by (auto simp: obind_eq_Ret)
    note n6 = InsertReceiveRequest_count [OF i6, of r]
    show ?thesis
    proof (cases e2)
      case None2: None
      have "insert_requests K n v4a v6a w2 = Ret (err, v4', v6', w')"
        using Suc.prems i4 i6 None None2 by simp
      then show ?thesis using Suc.IH n4 n6 by simp
    qed (use Suc.prems i4 i6 None n4 n6 in auto)
  qed (use Suc.prems i4 n4 in auto)
qed simp

lemma subscribe_count:
  assumes "subscribe K b w = (err, b', w')"
  shows "open_count r w' = open_count r w" "wb_v4 b' = wb_v4 b" "wb_v6 b' = wb_v6 b" "wb_isOpen b' = wb_isOpen b"
  using assms
  by (auto simp: subscribe_def event_balance_def dest!: win_sys_count [of _ _ _ _ _ _ r] split: prod.splits if_splits)

text \<open>Resources and the state of the bind across \<open>Open\<close>.\<close>

definition accounts :: "resource \<Rightarrow> win_bind \<Rightarrow> win_world \<Rightarrow> win_bind \<Rightarrow> win_world \<Rightarrow> bool" where
  "accounts r b w b' w' \<longleftrightarrow> open_count r w' - open_count r w = owns_bind r b' - owns_bind r b"

lemma accounts_trans: "accounts r b w b1 w1 \<Longrightarrow> accounts r b1 w1 b2 w2 \<Longrightarrow> accounts r b w b2 w2"
  by (simp add: accounts_def)

lemma open_body_count:
  assumes "os_values K" "proper r" "win_inv b" "open_body K b port w = Ret (res, b', w')"
  shows "accounts r b w b' w'" "wb_isOpen b' = (case res of Inl _ \<Rightarrow> wb_isOpen b | Inr _ \<Rightarrow> 1)"
proof -
  have "accounts r b w b' w' \<and> wb_isOpen b' = (case res of Inl _ \<Rightarrow> wb_isOpen b | Inr _ \<Rightarrow> 1)"
  proof (cases "wb_isOpen b = 0")
    case False
    then show ?thesis using assms(4) by (auto simp: open_body_def accounts_def)
  next
    case True
    then obtain q4 q6 where z: "wb_v4 b = zero_af q4" "wb_v6 b = zero_af q6"
      using assms(3) by (auto simp: win_inv_def)
    then have zero: "owns_bind r b = 0" using assms(2) by (simp add: owns_bind_def)
    obtain r4 v4 w1 where o4: "af_Open K (zero_af q4) AF_INET (SockaddrInet4 (uint port)) w = (r4, v4, w1)"
      by (metis prod_cases3)
    note n4 = af_Open_count [OF assms(1,2) o4]
    show ?thesis
    proof (cases "\<exists>p4. r4 = Inr (SockaddrInet4 p4)")
      case False
      then obtain e where "r4 = Inl e"
        using assms(4) True z o4 by (cases r4; cases "projr r4") (simp_all add: open_body_def Let_def)
      then have "b' = b\<lparr>wb_v4 := v4\<rparr>" "w' = w1" "res = Inl e" using assms(4) True z o4 by (simp_all add: open_body_def Let_def)
      then show ?thesis using assms(2) z n4 zero by (simp add: owns_bind_def accounts_def)
    next
      case r4: True
      then obtain p4 where p4: "r4 = Inr (SockaddrInet4 p4)" by blast
      obtain r6 v6 w2 where o6: "af_Open K (zero_af q6) AF_INET6 (SockaddrInet6 p4) w1 = (r6, v6, w2)"
        by (metis prod_cases3)
      note n6 = n4 af_Open_count [OF assms(1,2) o6]
      show ?thesis
      proof (cases "\<exists>p6. r6 = Inr (SockaddrInet6 p6)")
        case False
        then obtain e where "r6 = Inl e"
          using assms(4) True z o4 p4 o6 by (cases r6; cases "projr r6") (simp_all add: open_body_def Let_def)
        then have "b' = b\<lparr>wb_v4 := v4, wb_v6 := v6\<rparr>" "w' = w2" "res = Inl e"
          using assms(4) True z o4 p4 o6 by (simp_all add: open_body_def Let_def)
        then show ?thesis using assms(2) n6 zero by (simp add: owns_bind_def accounts_def)
      next
        case r6: True
        then obtain p6 where p6: "r6 = Inr (SockaddrInet6 p6)" by blast
        let ?b2 = "b\<lparr>wb_v4 := v4, wb_v6 := v6\<rparr>"
        obtain err v4' v6' w3 where i: "insert_requests K (unat packetsPerRing) v4 v6 w2 = Ret (err, v4', v6', w3)"
          using assms(4) True z o4 p4 o6 p6 by (auto simp: open_body_def obind_eq_Ret)
        note n = n6 insert_requests_count [OF i, of r]
        let ?b3 = "?b2\<lparr>wb_v4 := v4', wb_v6 := v6'\<rparr>"
        obtain err2 b4 w4 where s: "subscribe K ?b3 w3 = (err2, b4, w4)" by (metis prod_cases3)
        note ns = subscribe_count [OF s]
        show ?thesis
          using assms(4) True z o4 p4 o6 p6 i s n ns(1) [of r] ns(2-4) zero
          by (cases err; cases err2) (auto simp: open_body_def owns_bind_def accounts_def)
      qed
    qed
  qed
  then show "accounts r b w b' w'" "wb_isOpen b' = (case res of Inl _ \<Rightarrow> wb_isOpen b | Inr _ \<Rightarrow> 1)" by blast+
qed

lemma win_Open_count:
  assumes "os_values K" "proper r" "win_inv b" "win_Open K b port w = Ret (res, b', w')"
  shows "accounts r b w b' w'" "win_inv b'" "wb_isOpen b' = (case res of Inl _ \<Rightarrow> 0 | Inr _ \<Rightarrow> 1)"
proof -
  obtain res1 b1 w1 where o: "open_body K b port w = Ret (res1, b1, w1)"
    using assms(4) by (auto simp: win_Open_def obind_eq_Ret)
  note n = open_body_count [OF assms(1-3) o]
  have "accounts r b w b' w' \<and> win_inv b' \<and> wb_isOpen b' = (case res of Inl _ \<Rightarrow> 0 | Inr _ \<Rightarrow> 1)"
  proof (cases res1)
    case (Inl e)
    then have "closeAndZero K b1 w1 = (b', w')" "res = Inl e"
      using assms(4) o by (auto simp: win_Open_def split: prod.splits)
    then show ?thesis using closeAndZero_count [of K b1 w1 b' w' r] assms(2) n(1) by (simp add: accounts_def)
  next
    case (Inr p)
    then show ?thesis using assms(4) o n by (auto simp: win_Open_def win_inv_def)
  qed
  then show "accounts r b w b' w'" "win_inv b'" "wb_isOpen b' = (case res of Inl _ \<Rightarrow> 0 | Inr _ \<Rightarrow> 1)" by blast+
qed

end
