(* ===== verification/Win_Interface.thy ===== *)
theory Win_Interface
  imports Win_Ring_Bind Std_Bind
begin

text \<open>
  The rest of \<open>bind_windows.go\<close>, with \<open>default.go\<close> and \<open>closer_tracking.go\<close>: which bind is the default
  one, and binding the sockets of either bind to a network interface.
\<close>

section \<open>The default bind\<close>

datatype any_bind = StdBind std_bind | RingBind win_bind

text \<open>
  \<open>winRingCloserSubscriber\<close>: \<open>sub\<close> says whether the network value implements \<open>closerSubscriber\<close>; the
  result is the second value, the first is the network itself.
\<close>

definition winRingCloserSubscriber :: "network option \<Rightarrow> bool \<Rightarrow> bool" where
  "winRingCloserSubscriber net sub \<longleftrightarrow> (case net of None \<Rightarrow> False | Some n \<Rightarrow> nIsNative n \<and> sub)"

definition NewWinRingBind ::
  "win_os \<Rightarrow> network option \<Rightarrow> bool \<Rightarrow> bool option \<Rightarrow> win_world \<Rightarrow> any_bind \<times> bool option \<times> win_world" where
  "NewWinRingBind K net sub st w =
     (if \<not> winRingCloserSubscriber net sub then (StdBind (NewStdNetBind Windows net), st, w)
      else let (ok, st', w') = Initialize K st w
           in (if ok then RingBind (new_win_bind True) else StdBind (NewStdNetBind Windows net), st', w'))"

definition NewDefaultBind_windows ::
  "win_os \<Rightarrow> network option \<Rightarrow> bool \<Rightarrow> bool option \<Rightarrow> win_world \<Rightarrow> any_bind \<times> bool option \<times> win_world" where
  "NewDefaultBind_windows K net sub st w =
     (if \<not> winRingCloserSubscriber net sub then (StdBind (NewStdNetBind Windows net), st, w)
      else NewWinRingBind K net sub st w)"

definition FamilyOrderIPv4First :: int where
  "FamilyOrderIPv4First = 0"

definition NewDefaultBindWithOptions_windows ::
  "win_os \<Rightarrow> network option \<Rightarrow> bool \<Rightarrow> std_options \<Rightarrow> bool option \<Rightarrow> win_world \<Rightarrow> any_bind \<times> bool option \<times> win_world" where
  "NewDefaultBindWithOptions_windows K net sub opts st w =
     (if oFamilyOrder opts \<noteq> FamilyOrderIPv4First \<or> oAllowSingleFamily opts \<or> oOnFamilyOpenError opts \<or> oBatchSize opts > 0
      then (StdBind (NewStdNetBindWithOptions Windows net opts), st, w)
      else NewDefaultBind_windows K net sub st w)"

text \<open>On the other platforms the default bind is \<open>StdNetBind\<close>.\<close>

definition NewDefaultBind :: "goos \<Rightarrow> network option \<Rightarrow> any_bind" where
  "NewDefaultBind p net = StdBind (NewStdNetBind p net)"

definition NewDefaultBindWithOptions :: "goos \<Rightarrow> network option \<Rightarrow> std_options \<Rightarrow> any_bind" where
  "NewDefaultBindWithOptions p net opts = StdBind (NewStdNetBindWithOptions p net opts)"

section \<open>Binding to an interface\<close>

text \<open>\<open>binary.BigEndian.PutUint32\<close>, and the \<open>uint32\<close> a little-endian machine reads from the four bytes.\<close>

definition PutUint32 :: "32 word \<Rightarrow> byte list" where
  "PutUint32 x = [ucast (drop_bit 24 x), ucast (drop_bit 16 x), ucast (drop_bit 8 x), ucast x]"

definition interface_option4 :: "32 word \<Rightarrow> int" where
  "interface_option4 interfaceIndex = int (le_val (PutUint32 interfaceIndex))"

definition bindSocketToInterface4 :: "win_os \<Rightarrow> handle \<Rightarrow> 32 word \<Rightarrow> win_world \<Rightarrow> goerror option \<times> win_world" where
  "bindSocketToInterface4 K x interfaceIndex w =
     (let (_, err, w') = win_sys K (SetsockoptIntWin x 0 31 (interface_option4 interfaceIndex)) w in (err, w'))"

definition bindSocketToInterface6 :: "win_os \<Rightarrow> handle \<Rightarrow> 32 word \<Rightarrow> win_world \<Rightarrow> goerror option \<times> win_world" where
  "bindSocketToInterface6 K x interfaceIndex w =
     (let (_, err, w') = win_sys K (SetsockoptIntWin x 41 31 (uint interfaceIndex)) w in (err, w'))"

definition win_BindSocketToInterface4 ::
  "win_os \<Rightarrow> win_bind \<Rightarrow> 32 word \<Rightarrow> bool \<Rightarrow> win_world \<Rightarrow> goerror option \<times> win_bind \<times> win_world" where
  "win_BindSocketToInterface4 K b interfaceIndex blackhole w =
     (if load_isOpen K b w \<noteq> 1 then (Some NetErrClosed, b, w)
      else let (err, w') = bindSocketToInterface4 K (a_sock (wb_v4 b)) interfaceIndex w
           in if err \<noteq> None then (err, b, w')
              else (None, b\<lparr>wb_v4 := (wb_v4 b)\<lparr>a_blackhole := blackhole\<rparr>\<rparr>, w'))"

definition win_BindSocketToInterface6 ::
  "win_os \<Rightarrow> win_bind \<Rightarrow> 32 word \<Rightarrow> bool \<Rightarrow> win_world \<Rightarrow> goerror option \<times> win_bind \<times> win_world" where
  "win_BindSocketToInterface6 K b interfaceIndex blackhole w =
     (if load_isOpen K b w \<noteq> 1 then (Some NetErrClosed, b, w)
      else let (err, w') = bindSocketToInterface6 K (a_sock (wb_v6 b)) interfaceIndex w
           in if err \<noteq> None then (err, b, w')
              else (None, b\<lparr>wb_v6 := (wb_v6 b)\<lparr>a_blackhole := blackhole\<rparr>\<rparr>, w'))"

text \<open>\<open>StdNetBind\<close> reaches its sockets through \<open>sockopt.Control\<close>.\<close>

definition BindSocketToInterface4 ::
  "env \<Rightarrow> std_bind \<Rightarrow> 32 word \<Rightarrow> bool \<Rightarrow> world \<Rightarrow> goerror option \<times> std_bind \<times> world" where
  "BindSocketToInterface4 E s interfaceIndex blackhole w =
     (case s_ipv4 s of
        None \<Rightarrow> (Some NetErrClosed, s, w)
      | Some c \<Rightarrow>
          let (err2, err, t) = run_control (eSockoptControl E w c) None
                (\<lambda>f. sys_setsockopt E f Opt_IP_UNICAST_IF (interface_option4 interfaceIndex)) (w_sock w);
              w' = w\<lparr>w_sock := t\<rparr>
          in if err2 \<noteq> None then (err2, s, w') else if err \<noteq> None then (err, s, w')
             else (None, s\<lparr>s_blackhole4 := blackhole\<rparr>, w'))"

definition BindSocketToInterface6 ::
  "env \<Rightarrow> std_bind \<Rightarrow> 32 word \<Rightarrow> bool \<Rightarrow> world \<Rightarrow> goerror option \<times> std_bind \<times> world" where
  "BindSocketToInterface6 E s interfaceIndex blackhole w =
     (case s_ipv6 s of
        None \<Rightarrow> (Some NetErrClosed, s, w)
      | Some c \<Rightarrow>
          let (err2, err, t) = run_control (eSockoptControl E w c) None
                (\<lambda>f. sys_setsockopt E f Opt_IPV6_UNICAST_IF (uint interfaceIndex)) (w_sock w);
              w' = w\<lparr>w_sock := t\<rparr>
          in if err2 \<noteq> None then (err2, s, w') else if err \<noteq> None then (err, s, w')
             else (None, s\<lparr>s_blackhole6 := blackhole\<rparr>, w'))"

end
