(* ===== verification/Win_Runs.thy ===== *)
theory Win_Runs
  imports Win_Lifecycle Win_Interface
begin

text \<open>
  Runs of a \<open>WinRingBind\<close>: the send and receive paths neither open nor close anything, the receive
  rings of an open bind stay full, and after any sequence of calls the resources that are open
  are exactly those the bind holds.
\<close>

section \<open>What the data paths keep\<close>

lemma wait_completion_count:
  assumes "wait_completion K f rb rs w = Ret (x, rs', w')"
  shows "open_count r w' = open_count r w"
proof -
  obtain e1 w1 where n: "Notify K (r_cq rb) w = (e1, w1)" by fastforce
  obtain v e2 w2 where g: "win_sys K (GetQueuedCompletionStatus (r_iocp rb)) w1 = (v, e2, w2)" by (metis prod_cases3)
  have c: "open_count r w1 = open_count r w" "open_count r w2 = open_count r w"
    using transfer_count(3) [OF n] win_sys_count [OF g, of r] by (simp_all add: event_balance_def)
  show ?thesis
    using assms n g c
    by (auto simp: wait_completion_def obind_eq_Ret dest!: transfer_count(4) [where r = r] split: option.splits if_splits)
qed

lemma receive_spin_count:
  "receive_spin K f cq first n c rs w = Ret (x, rs', w') \<Longrightarrow> open_count r w' = open_count r w"
proof (induction n arbitrary: first c rs w)
  case (Suc n)
  then show ?case
    by (auto simp: obind_eq_Ret dest!: transfer_count(4) [where r = r] split: if_splits)
qed simp

lemma receive_completion_count:
  "receive_completion K f rx rs w = Ret (x, rs', w') \<Longrightarrow> open_count r w' = open_count r w"
  by (auto simp: receive_completion_def obind_eq_Ret dest!: receive_spin_count [where r = r] wait_completion_count [where r = r]
      split: if_splits)

section \<open>Full receive rings\<close>

definition rx_full :: "af_bind \<Rightarrow> bool" where
  "rx_full a \<longleftrightarrow> ring_inv (a_rx a) \<and> r_isFull (a_rx a)"

lemma rx_full_used: "rx_full a \<Longrightarrow> ring_inv (a_rx a) \<and> set (ring_used (a_rx a)) = ring_slots (a_rx a) \<and> length (ring_used (a_rx a)) = 256"
  using ring_full_iff [of "a_rx a"] by (auto simp: rx_full_def ring_inv_def)

lemma owns_Return [simp]: "owns_ring r (ring_Return n rb) = owns_ring r rb"
  by (simp add: ring_Return_def)

text \<open>Replacing a completed receive request keeps the ring full, in the slot of the oldest request.\<close>

lemma reinsert:
  assumes "rx_full a"
  obtains err rx w' where
    "InsertReceiveRequest K (a\<lparr>a_rx := ring_Return 1 (a_rx a)\<rparr>) w = Ret (err, a\<lparr>a_rx := rx\<rparr>, w')"
    "rx_full (a\<lparr>a_rx := rx\<rparr>)" "ring_used rx = tl (ring_used (a_rx a)) @ [hd (ring_used (a_rx a))]"
    "ReceiveEx K (a_rq a) (data_buffer rx (hd (ring_used (a_rx a))) bytesPerPacket)
       (address_buffer rx (hd (ring_used (a_rx a)))) (hd (ring_used (a_rx a))) w = (err, w')"
proof -
  let ?p = "hd (ring_used (a_rx a))"
  note u = rx_full_used [OF assms]
  have ne: "ring_used (a_rx a) = ?p # tl (ring_used (a_rx a))" using u by (cases "ring_used (a_rx a)") auto
  obtain rx where rx: "ring_Push (ring_Return 1 (a_rx a)) = Ret (?p, rx)" "ring_inv rx"
    "ring_slots rx = ring_slots (a_rx a)" "ring_used rx = tl (ring_used (a_rx a)) @ [?p]"
    using ring.recycle_full [of "a_rx a" ?p "tl (ring_used (a_rx a))"] u ne by auto
  obtain err w' where e: "ReceiveEx K (a_rq a) (data_buffer rx ?p bytesPerPacket) (address_buffer rx ?p) ?p w = (err, w')"
    by fastforce
  have "length (ring_used rx) = 256" using rx(4) u ne by (metis length_append_singleton length_Cons)
  then have "r_isFull rx" using rx(2) by (simp add: ring_inv_def)
  then show thesis
    using that [of err rx w'] rx e by (simp add: InsertReceiveRequest_def rx_full_def)
qed

lemma ring_Return_owns_af [simp]: "owns_af r (a\<lparr>a_rx := ring_Return n (a_rx a)\<rparr>) = owns_af r a"
  by (simp add: owns_af_def)

lemma receive_once_keeps:
  assumes "rx_full (rs_af st)" "receive_once K f buf st = Ret (x, st')"
  shows "rx_full (rs_af st')" "owns_af r (rs_af st') = owns_af r (rs_af st)"
    "open_count r (rs_world st') = open_count r (rs_world st)" "\<exists>rx. rs_af st' = (rs_af st)\<lparr>a_rx := rx\<rparr>"
proof -
  let ?a = "rs_af st"
  obtain y rs w where c: "receive_completion K f (a_rx ?a) (rs_results st) (rs_world st) = Ret (y, rs, w)"
    using assms(2) by (auto simp: receive_once_def obind_eq_Ret)
  note n = receive_completion_count [OF c, of r]
  obtain err rx w' where i: "InsertReceiveRequest K (?a\<lparr>a_rx := ring_Return 1 (a_rx ?a)\<rparr>) w = Ret (err, ?a\<lparr>a_rx := rx\<rparr>, w')"
    "rx_full (?a\<lparr>a_rx := rx\<rparr>)"
    by (rule reinsert [OF assms(1), of K w]) blast
  note m = InsertReceiveRequest_count [OF i(1), of r]
  have "(rs_af st' = ?a \<and> rs_world st' = w) \<or> (rs_af st' = ?a\<lparr>a_rx := rx\<rparr> \<and> rs_world st' = w')"
    using assms(2) c i(1) by (auto simp: receive_once_def obind_eq_Ret Let_def split: sum.splits option.splits)
  then show "rx_full (rs_af st')" "owns_af r (rs_af st') = owns_af r ?a"
    "open_count r (rs_world st') = open_count r (rs_world st)" "\<exists>rx. rs_af st' = ?a\<lparr>a_rx := rx\<rparr>"
    using assms(1) i(2) n m by (auto intro: exI [of _ "a_rx ?a"])
qed

definition receive_keeps :: "resource \<Rightarrow> receive_state \<Rightarrow> receive_state \<Rightarrow> bool" where
  "receive_keeps r st st' \<longleftrightarrow>
     rx_full (rs_af st') \<and> owns_af r (rs_af st') = owns_af r (rs_af st) \<and>
     open_count r (rs_world st') = open_count r (rs_world st)"

lemma receive_loop_keeps:
  assumes "receive_loop K f buf st = Some (Ret (x, st'))" "rx_full (rs_af st)"
  shows "receive_keeps r st st'"
proof -
  let ?P = "\<lambda>K f buf st y. \<forall>x st'. y = Ret (x, st') \<longrightarrow> rx_full (rs_af st) \<longrightarrow> receive_keeps r st st'"
  have "?P K f buf st (Ret (x, st'))"
  proof (rule receive_loop.raw_induct [where P = ?P, OF _ assms(1)], intro allI impI)
    fix loop K f buf st y x st'
    assume IH: "\<And>K f buf st y. loop K f buf st = Some y \<Longrightarrow> ?P K f buf st y"
      and body: "(case receive_once K f buf st of
           Ret r \<Rightarrow> (case fst r of Some x \<Rightarrow> Some (Ret (x, snd r)) | None \<Rightarrow> loop K f buf (snd r))
         | Panic p \<Rightarrow> Some (Panic p) | Diverge \<Rightarrow> Some Diverge) = Some y"
      and y: "y = Ret (x, st')" and full: "rx_full (rs_af st)"
    then obtain z st1 where o: "receive_once K f buf st = Ret (z, st1)" by (auto split: outcome.splits)
    note k = receive_once_keeps [OF full o]
    show "receive_keeps r st st'"
    proof (cases z)
      case None
      then have "loop K f buf st1 = Some y" using body o by simp
      then have "receive_keeps r st1 st'" using IH y k(1) by blast
      then show ?thesis using k(2,3) [of r] by (simp add: receive_keeps_def)
    qed (use body o y k(1) k(2,3) [of r] in \<open>auto simp: receive_keeps_def\<close>)
  qed
  then show ?thesis using assms by blast
qed

lemma af_Receive_keeps:
  assumes "af_Receive K f a buf h w = Ret (x, a', h', w')" "rx_full a"
  shows "rx_full a'" "owns_af r a' = owns_af r a" "open_count r w' = open_count r w"
proof -
  let ?st = "\<lparr>rs_results = [zero_result], rs_af = a, rs_mem = h, rs_world = w\<rparr>"
  have "rx_full a' \<and> owns_af r a' = owns_af r a \<and> open_count r w' = open_count r w"
  proof (cases "f w = 1")
    case True
    then obtain st' where "receive_loop K f buf ?st = Some (Ret (x, st'))" "a' = rs_af st'" "w' = rs_world st'"
      using assms(1) by (auto simp: af_Receive_def obind_eq_Ret split: option.splits)
    then show ?thesis using receive_loop_keeps [of K f buf ?st x st' r] assms(2) by (simp add: receive_keeps_def)
  next
    case False
    then show ?thesis using assms by (auto simp: af_Receive_def)
  qed
  then show "rx_full a'" "owns_af r a' = owns_af r a" "open_count r w' = open_count r w" by blast+
qed

section \<open>Sending\<close>

lemma send_completions_count:
  "send_completions K f tx w = Ret (x, w') \<Longrightarrow> open_count r w' = open_count r w"
  by (auto simp: send_completions_def obind_eq_Ret dest!: transfer_count(4) [where r = r] wait_completion_count [where r = r]
      split: if_splits)

lemma send_packet_keeps:
  assumes "send_packet K a bytes nend w = Ret (err, a', w')"
  shows "a_rx a' = a_rx a" "owns_af r a' = owns_af r a" "open_count r w' = open_count r w"
proof -
  obtain p tx where p: "ring_Push (a_tx a) = Ret (p, tx)"
    using assms by (auto simp: send_packet_def obind_eq_Ret)
  let ?w = "w\<lparr>ww_mem := (ww_mem w)(p := \<lparr>rp_addr = nend, rp_data = overwrite (rp_data (ww_mem w p)) 0 bytes\<rparr>)\<rparr>"
  have "SendEx K (a_rq a) (data_buffer tx p (length bytes)) (address_buffer tx p) 0 ?w = (err, w')" "a' = a\<lparr>a_tx := tx\<rparr>"
    using assms p by (auto simp: send_packet_def Let_def split: prod.splits)
  then show "a_rx a' = a_rx a" "owns_af r a' = owns_af r a" "open_count r w' = open_count r w"
    using ring_Push_owns [OF p] transfer_count(1) [of K _ _ _ _ ?w err w' r] by (simp_all add: owns_af_def)
qed

lemma af_Send_keeps:
  assumes "af_Send K f a bytes nend w = Ret (err, a', w')"
  shows "a_rx a' = a_rx a" "owns_af r a' = owns_af r a" "open_count r w' = open_count r w"
proof -
  have "a_rx a' = a_rx a \<and> owns_af r a' = owns_af r a \<and> open_count r w' = open_count r w"
  proof (cases "f w = 1 \<and> length bytes \<le> bytesPerPacket")
    case True
    then obtain x w1 where c: "send_completions K f (a_tx a) w = Ret (x, w1)"
      using assms by (auto simp: af_Send_def obind_eq_Ret)
    note n = send_completions_count [OF c, of r]
    show ?thesis
    proof (cases x)
      case (Inl e)
      then show ?thesis using assms c True n by (simp add: af_Send_def)
    next
      case (Inr count)
      let ?a = "if 0 < count then a\<lparr>a_tx := ring_Return count (a_tx a)\<rparr> else a"
      have "send_packet K ?a bytes nend w1 = Ret (err, a', w')"
        using assms c True Inr by (simp add: af_Send_def not_less)
      moreover have "a_rx ?a = a_rx a" "owns_af r ?a = owns_af r a" by (simp_all add: owns_af_def)
      ultimately show ?thesis using send_packet_keeps [of K ?a bytes nend w1 err a' w'] n by metis
    qed
  next
    case False
    then show ?thesis using assms by (auto simp: af_Send_def not_le split: if_splits)
  qed
  then show "a_rx a' = a_rx a" "owns_af r a' = owns_af r a" "open_count r w' = open_count r w" by blast+
qed

section \<open>Runs\<close>

text \<open>
  The invariant: a bind that is not open holds nothing, and every slot of the receive rings of an
  open bind belongs to a request.
\<close>

definition win_ready :: "win_bind \<Rightarrow> bool" where
  "win_ready b \<longleftrightarrow> win_inv b \<and> (wb_isOpen b = 1 \<longrightarrow> rx_full (wb_v4 b) \<and> rx_full (wb_v6 b))"

definition win_keeps :: "resource \<Rightarrow> win_bind \<Rightarrow> win_world \<Rightarrow> win_bind \<Rightarrow> win_world \<Rightarrow> bool" where
  "win_keeps r b w b' w' \<longleftrightarrow> win_ready b' \<and> accounts r b w b' w'"

lemma win_ready_update:
  assumes "win_ready b" "wb_isOpen b = 1" "rx_full v4" "rx_full v6"
  shows "win_ready (b\<lparr>wb_v4 := v4\<rparr>)" "win_ready (b\<lparr>wb_v6 := v6\<rparr>)"
  using assms by (simp_all add: win_ready_def win_inv_def)

lemma win_send_loop_keeps:
  "win_send_loop K b bufs nend w = Ret (err, b', w') \<Longrightarrow> win_ready b \<Longrightarrow> win_keeps r b w b' w'"
proof (induction bufs arbitrary: b w)
  case Nil
  then show ?case by (simp add: win_keeps_def accounts_def)
next
  case (Cons bytes bufs)
  have upd: "win_keeps r b w (b\<lparr>wb_v4 := a\<rparr>) w1"
    if "af_Send K (load_isOpen K b) (wb_v4 b) bytes nend w = Ret (e, a, w1)" for e a w1
    using af_Send_keeps(1) [OF that] af_Send_keeps(2,3) [OF that, of r] Cons.prems(2) that
    by (cases "wb_isOpen b = 1")
      (auto simp: win_keeps_def accounts_def owns_bind_def win_ready_def win_inv_def rx_full_def af_Send_def load_isOpen_def)
  have upd6: "win_keeps r b w (b\<lparr>wb_v6 := a\<rparr>) w1"
    if "af_Send K (load_isOpen K b) (wb_v6 b) bytes nend w = Ret (e, a, w1)" for e a w1
    using af_Send_keeps(1) [OF that] af_Send_keeps(2,3) [OF that, of r] Cons.prems(2) that
    by (cases "wb_isOpen b = 1")
      (auto simp: win_keeps_def accounts_def owns_bind_def win_ready_def win_inv_def rx_full_def af_Send_def load_isOpen_def)
  have trans: "win_keeps r b w b1 w1 \<Longrightarrow> win_send_loop K b1 bufs nend w1 = Ret (err, b', w') \<Longrightarrow> win_keeps r b w b' w'" for b1 w1
    using Cons.IH [of b1 w1] accounts_trans by (auto simp: win_keeps_def)
  have skip: "win_keeps r b w b w" using Cons.prems(2) by (simp add: win_keeps_def accounts_def)
  show ?case
    using Cons.prems(1) upd upd6 trans trans [OF skip]
    by (fastforce simp: obind_eq_Ret split: if_splits)
qed

lemma win_receive_keeps:
  assumes "win_ready b" "win_receive K b get put bufs sizes eps h w = Ret res"
    and "(get, put) = (wb_v4, \<lambda>a b. b\<lparr>wb_v4 := a\<rparr>) \<or> (get, put) = (wb_v6, \<lambda>a b. b\<lparr>wb_v6 := a\<rparr>)"
  shows "win_keeps r b w (wr_bind res) (wr_world res)"
proof (cases "wr_bind res = b \<and> wr_world res = w")
  case True
  then show ?thesis using assms(1) by (simp add: win_keeps_def accounts_def)
next
  case False
  then have one: "load_isOpen K b w = 1" using assms(2) by (auto simp: win_receive_def Let_def split: if_splits)
  then have op: "wb_isOpen b = 1" by (auto simp: load_isOpen_def split: if_splits)
  obtain x a h' w' buf where a: "af_Receive K (load_isOpen K b) (get b) buf h w = Ret (x, a, h', w')"
    "wr_bind res = put a b" "wr_world res = w'"
    using assms(2) False one
    by (auto simp: win_receive_def Let_def obind_eq_Ret split: option.splits if_splits)
  have full: "rx_full (get b)" using assms(1,3) op by (auto simp: win_ready_def)
  show ?thesis
    using af_Receive_keeps(1) [OF a(1) full] af_Receive_keeps(2,3) [OF a(1) full, of r] a(2,3) assms(1,3) op
    by (auto simp: win_keeps_def accounts_def owns_bind_def win_ready_def win_inv_def)
qed

section \<open>Opening fills the receive rings\<close>

definition rx_count :: "nat \<Rightarrow> af_bind \<Rightarrow> bool" where
  "rx_count c a \<longleftrightarrow> ring_inv (a_rx a) \<and> ring_count (a_rx a) = c"

lemma InsertReceiveRequest_rx:
  assumes "rx_count c a" "c < 256"
  shows "\<exists>err a' w'. InsertReceiveRequest K a w = Ret (err, a', w') \<and> rx_count (Suc c) a'"
proof -
  have "\<not> r_isFull (a_rx a)" using assms by (auto simp: rx_count_def ring_inv_def)
  then obtain p rx where p: "ring_Push (a_rx a) = Ret (p, rx)" "ring_inv rx" "ring_used rx = ring_used (a_rx a) @ [p]"
    using ring_Push_Ret [of "a_rx a"] assms(1) by (auto simp: rx_count_def)
  have "ring_count rx = Suc c" using arg_cong [OF p(3), of length] assms(1) by (simp add: rx_count_def)
  then show ?thesis
    using p by (auto simp: InsertReceiveRequest_def rx_count_def split: prod.splits)
qed

lemma insert_requests_fills:
  assumes "rx_count c v4" "rx_count c v6" "c + n \<le> 256"
  shows "\<exists>err v4' v6' w'. insert_requests K n v4 v6 w = Ret (err, v4', v6', w') \<and>
    (err = None \<longrightarrow> rx_count (c + n) v4' \<and> rx_count (c + n) v6')"
  using assms
proof (induction n arbitrary: c v4 v6 w)
  case (Suc n)
  obtain e4 v4a w1 where i4: "InsertReceiveRequest K v4 w = Ret (e4, v4a, w1)" "rx_count (Suc c) v4a"
    using InsertReceiveRequest_rx [OF Suc.prems(1), of K w] Suc.prems(3) by auto
  obtain e6 v6a w2 where i6: "InsertReceiveRequest K v6 w1 = Ret (e6, v6a, w2)" "rx_count (Suc c) v6a"
    using InsertReceiveRequest_rx [OF Suc.prems(2), of K w1] Suc.prems(3) by auto
  have rest: "\<exists>err v4' v6' w'. insert_requests K n v4a v6a w2 = Ret (err, v4', v6', w') \<and>
      (err = None \<longrightarrow> rx_count (Suc c + n) v4' \<and> rx_count (Suc c + n) v6')"
    using Suc.IH [OF i4(2) i6(2)] Suc.prems(3) by simp
  show ?case
    using i4(1) i6(1) rest by (cases e4; cases e6) auto
qed simp

lemma af_bind_socket_name:
  assumes "af_bind_socket K a sa w = (Inr sa', a', w')"
  shows "\<exists>w2 v. sa' = oSockname K w2 (a_sock a) \<and> last (ww_events w2) = (BindSocket (a_sock a) sa, v)"
  using assms
  by (fastforce simp: af_bind_socket_def win_sys_def Let_def split: prod.splits option.splits)

lemma af_Open_rx:
  assumes "af_Open K (zero_af q) family sa w = (Inr sa', a', w')"
  shows "rx_count 0 a'"
    and "\<exists>w2 x v. sa' = oSockname K w2 x \<and> last (ww_events w2) = (BindSocket x sa, v)"
proof -
  obtain sock err w1 where s: "Socket K (ucast family) 2 17 w = (sock, err, w1)" by (metis prod_cases3)
  obtain err2 rx w2 where rx: "ring_Open K zero_ring w1 = (err2, rx, w2)" by (metis prod_cases3)
  obtain err3 tx w3 where tx: "ring_Open K zero_ring w2 = (err3, tx, w3)" by (metis prod_cases3)
  have none: "err = None" "err2 = None" "err3 = None"
    using assms s rx tx by (auto simp: af_Open_def zero_af_def Let_def split: option.splits)
  let ?a = "\<lparr>a_sock = sock, a_rx = rx, a_tx = tx, a_rq = q, a_blackhole = False\<rparr>"
  have b: "af_bind_socket K ?a sa w3 = (Inr sa', a', w')"
    using assms s rx tx none by (simp add: af_Open_def zero_af_def)
  show "\<exists>w2 x v. sa' = oSockname K w2 x \<and> last (ww_events w2) = (BindSocket x sa, v)"
    using af_bind_socket_name [OF b] by blast
  have "a_rx a' = rx" using af_bind_socket_count(2) [OF b] by auto
  moreover have "r_head rx = 0 \<and> r_tail rx = 0 \<and> \<not> r_isFull rx"
    using rx by (auto simp: ring_Open_def zero_ring_def Let_def split: prod.splits if_splits)
  ultimately show "rx_count 0 a'" by (simp add: rx_count_def ring_inv_def ring_count_def)
qed

text \<open>\<open>Getsockname\<close> reports an address of the family the socket was bound to.\<close>

definition sockname_family :: "win_os \<Rightarrow> bool" where
  "sockname_family K \<longleftrightarrow>
     (\<forall>w x p v. last (ww_events w) = (BindSocket x (SockaddrInet4 p), v) \<longrightarrow> (\<exists>p'. oSockname K w x = SockaddrInet4 p')) \<and>
     (\<forall>w x p v. last (ww_events w) = (BindSocket x (SockaddrInet6 p), v) \<longrightarrow> (\<exists>p'. oSockname K w x = SockaddrInet6 p'))"

lemma af_Open_family:
  assumes "sockname_family K"
  shows "af_Open K (zero_af q) f (SockaddrInet4 p) w = (Inr sa, a', w') \<Longrightarrow> \<exists>p'. sa = SockaddrInet4 p'"
    and "af_Open K (zero_af q) f (SockaddrInet6 p) w = (Inr sa, a', w') \<Longrightarrow> \<exists>p'. sa = SockaddrInet6 p'"
  using assms by (auto simp: sockname_family_def dest!: af_Open_rx(2))

lemma open_body_returns:
  assumes "sockname_family K" "win_inv b"
  shows "\<exists>res b' w'. open_body K b port w = Ret (res, b', w') \<and>
    ((\<exists>p. res = Inr p) \<longrightarrow> rx_full (wb_v4 b') \<and> rx_full (wb_v6 b'))"
proof (cases "wb_isOpen b = 0")
  case False
  then show ?thesis by (simp add: open_body_def)
next
  case True
  then obtain q4 q6 where z: "wb_v4 b = zero_af q4" "wb_v6 b = zero_af q6"
    using assms(2) by (auto simp: win_inv_def)
  obtain r4 v4 w1 where o4: "af_Open K (zero_af q4) AF_INET (SockaddrInet4 (uint port)) w = (r4, v4, w1)"
    by (metis prod_cases3)
  show ?thesis
  proof (cases r4)
    case (Inl e)
    then show ?thesis using True z o4 by (simp add: open_body_def Let_def)
  next
    case r4: (Inr sa)
    then obtain p4 where p4: "sa = SockaddrInet4 p4" using af_Open_family(1) [OF assms(1)] o4 by blast
    obtain r6 v6 w2 where o6: "af_Open K (zero_af q6) AF_INET6 (SockaddrInet6 p4) w1 = (r6, v6, w2)"
      by (metis prod_cases3)
    show ?thesis
    proof (cases r6)
      case (Inl e)
      then show ?thesis using True z o4 r4 p4 o6 by (simp add: open_body_def Let_def)
    next
      case r6: (Inr sa6)
      then obtain p6 where p6: "sa6 = SockaddrInet6 p6" using af_Open_family(2) [OF assms(1)] o6 by blast
      have "rx_count 0 v4" "rx_count 0 v6" using af_Open_rx(1) o4 r4 o6 r6 by blast+
      moreover have "unat packetsPerRing = 256" by (simp add: packetsPerRing_def)
      ultimately obtain err v4' v6' w3 where i: "insert_requests K (unat packetsPerRing) v4 v6 w2 = Ret (err, v4', v6', w3)"
        "err = None \<longrightarrow> rx_count 256 v4' \<and> rx_count 256 v6'"
        using insert_requests_fills [of 0 v4 v6 256 K w2] by auto
      let ?b3 = "b\<lparr>wb_v4 := v4', wb_v6 := v6'\<rparr>"
      obtain err2 b4 w4 where s: "subscribe K ?b3 w3 = (err2, b4, w4)" by (metis prod_cases3)
      have "rx_count 256 a \<Longrightarrow> rx_full a" for a by (simp add: rx_count_def rx_full_def ring_inv_def)
      then show ?thesis
        using True z o4 r4 p4 o6 r6 p6 i s subscribe_count(2,3) [OF s]
        by (cases err; cases err2) (simp_all add: open_body_def Let_def)
    qed
  qed
qed

lemma win_Open_keeps:
  assumes "os_values K" "sockname_family K" "proper r" "win_ready b"
  shows "\<exists>res b' w'. win_Open K b port w = Ret (res, b', w') \<and> win_keeps r b w b' w' \<and>
    wb_isOpen b' = (case res of Inl _ \<Rightarrow> 0 | Inr _ \<Rightarrow> 1)"
proof -
  have inv: "win_inv b" using assms(4) by (simp add: win_ready_def)
  obtain res1 b1 w1 where o: "open_body K b port w = Ret (res1, b1, w1)"
    "(\<exists>p. res1 = Inr p) \<longrightarrow> rx_full (wb_v4 b1) \<and> rx_full (wb_v6 b1)"
    using open_body_returns [OF assms(2) inv] by blast
  obtain res b' w' where w: "win_Open K b port w = Ret (res, b', w')"
    using o(1) by (cases res1; cases "closeAndZero K b1 w1") (simp_all add: win_Open_def)
  note n = win_Open_count [OF assms(1,3) inv w]
  have "rx_full (wb_v4 b') \<and> rx_full (wb_v6 b')" if "wb_isOpen b' = 1"
    using o w n(3) that by (cases res1) (auto simp: win_Open_def split: prod.splits)
  then show ?thesis using w n by (auto simp: win_keeps_def win_ready_def)
qed

section \<open>The life cycle\<close>

type_synonym win_state = "win_bind \<times> store \<times> win_world"

inductive win_step :: "win_os \<Rightarrow> win_state \<Rightarrow> win_state \<Rightarrow> bool" for K where
  win_step_Open: "win_Open K b port w = Ret (res, b', w') \<Longrightarrow> win_step K (b, h, w) (b', h, w')"
| win_step_Close: "win_Close K b w = (b', w') \<Longrightarrow> win_step K (b, h, w) (b', h, w')"
| win_step_Send: "win_Send K b bufs ep h w = Ret (err, b', w') \<Longrightarrow> win_step K (b, h, w) (b', h, w')"
| win_step_Receive4: "receiveIPv4 K b bufs sizes eps h w = Ret res \<Longrightarrow>
    win_step K (b, h, w) (wr_bind res, wr_mem res, wr_world res)"
| win_step_Receive6: "receiveIPv6 K b bufs sizes eps h w = Ret res \<Longrightarrow>
    win_step K (b, h, w) (wr_bind res, wr_mem res, wr_world res)"
| win_step_Interface4: "win_BindSocketToInterface4 K b i bh w = (err, b', w') \<Longrightarrow> win_step K (b, h, w) (b', h, w')"
| win_step_Interface6: "win_BindSocketToInterface6 K b i bh w = (err, b', w') \<Longrightarrow> win_step K (b, h, w) (b', h, w')"
| win_step_SetMark: "win_SetMark b mark = (err, b') \<Longrightarrow> win_step K (b, h, w) (b', h, w)"
| win_step_caller: "win_step K (b, h, w) (b, h', w)"

lemma interface_count:
  "bindSocketToInterface4 K x i w = (err, w') \<Longrightarrow> open_count r w' = open_count r w"
  "bindSocketToInterface6 K x i w = (err, w') \<Longrightarrow> open_count r w' = open_count r w"
  by (auto simp: bindSocketToInterface4_def bindSocketToInterface6_def event_balance_def win_sys_def split: prod.splits)

lemma blackhole_simps [simp]:
  "owns_af r (a\<lparr>a_blackhole := x\<rparr>) = owns_af r a" "rx_full (a\<lparr>a_blackhole := x\<rparr>) = rx_full a"
  by (simp_all add: owns_af_def rx_full_def)

lemma interface4_keeps:
  assumes "win_ready b" "win_BindSocketToInterface4 K b i bh w = (err, b', w')"
  shows "win_keeps r b w b' w'"
proof (cases "load_isOpen K b w = 1")
  case True
  then have op: "wb_isOpen b = 1" by (auto simp: load_isOpen_def split: if_splits)
  obtain e w1 where i: "bindSocketToInterface4 K (a_sock (wb_v4 b)) i w = (e, w1)" by fastforce
  then have "w' = w1" "b' = b \<or> b' = b\<lparr>wb_v4 := (wb_v4 b)\<lparr>a_blackhole := bh\<rparr>\<rparr>"
    using assms(2) True by (auto simp: win_BindSocketToInterface4_def split: if_splits)
  then show ?thesis
    using assms(1) op interface_count(1) [OF i, of r]
    by (auto simp: win_keeps_def accounts_def win_ready_def win_inv_def owns_bind_def)
qed (use assms in \<open>simp add: win_BindSocketToInterface4_def win_keeps_def accounts_def\<close>)

lemma interface6_keeps:
  assumes "win_ready b" "win_BindSocketToInterface6 K b i bh w = (err, b', w')"
  shows "win_keeps r b w b' w'"
proof (cases "load_isOpen K b w = 1")
  case True
  then have op: "wb_isOpen b = 1" by (auto simp: load_isOpen_def split: if_splits)
  obtain e w1 where i: "bindSocketToInterface6 K (a_sock (wb_v6 b)) i w = (e, w1)" by fastforce
  then have "w' = w1" "b' = b \<or> b' = b\<lparr>wb_v6 := (wb_v6 b)\<lparr>a_blackhole := bh\<rparr>\<rparr>"
    using assms(2) True by (auto simp: win_BindSocketToInterface6_def split: if_splits)
  then show ?thesis
    using assms(1) op interface_count(2) [OF i, of r]
    by (auto simp: win_keeps_def accounts_def win_ready_def win_inv_def owns_bind_def)
qed (use assms in \<open>simp add: win_BindSocketToInterface6_def win_keeps_def accounts_def\<close>)

lemma win_step_keeps:
  assumes "os_values K" "sockname_family K" "proper r" "win_step K (b, h, w) (b', h', w')" "win_ready b"
  shows "win_keeps r b w b' w'"
  using assms(4)
proof cases
  case (win_step_Open port res)
  then show ?thesis using win_Open_keeps [OF assms(1-3,5), of port w] by auto
next
  case win_step_Close
  then show ?thesis
    using win_Close_count [of K b w b' w' r] assms(3,5) by (simp add: win_ready_def win_keeps_def accounts_def)
next
  case (win_step_Send bufs ep err)
  show ?thesis
  proof (cases ep)
    case (WinEndpoint nend)
    then have "win_send_loop K b (map (sl_read h) bufs) nend w = Ret (err, b', w')"
      using win_step_Send by (simp add: win_Send_def)
    then show ?thesis using assms(5) by (rule win_send_loop_keeps)
  next
    case NotWinEndpoint
    then show ?thesis using win_step_Send assms(5) by (simp add: win_Send_def win_keeps_def accounts_def)
  qed
next
  case (win_step_Receive4 bufs sizes eps res)
  then show ?thesis using win_receive_keeps [OF assms(5)] by (auto simp: receiveIPv4_def)
next
  case (win_step_Receive6 bufs sizes eps res)
  then show ?thesis using win_receive_keeps [OF assms(5)] by (auto simp: receiveIPv6_def)
next
  case (win_step_Interface4 i bh err)
  then show ?thesis using interface4_keeps [OF assms(5)] by blast
next
  case (win_step_Interface6 i bh err)
  then show ?thesis using interface6_keeps [OF assms(5)] by blast
qed (use assms(5) in \<open>simp_all add: win_SetMark_def win_keeps_def accounts_def\<close>)

lemma win_run_keeps:
  assumes "os_values K" "sockname_family K" "proper r" "(win_step K)\<^sup>*\<^sup>* (b, h, w) (b', h', w')" "win_ready b"
  shows "win_keeps r b w b' w'"
  using assms(4)
proof (induction "(b', h', w')" arbitrary: b' h' w' rule: rtranclp_induct)
  case base
  then show ?case using assms(5) by (simp add: win_keeps_def accounts_def)
next
  case (step y)
  obtain b1 h1 w1 where y: "y = (b1, h1, w1)" by (cases y)
  have k: "win_keeps r b w b1 w1" using step.hyps(3) y by blast
  then have "win_keeps r b1 w1 b' w'"
    using win_step_keeps [OF assms(1-3)] step.hyps(2) y by (auto simp: win_keeps_def)
  then show ?case using k accounts_trans by (auto simp: win_keeps_def)
qed

text \<open>
  C28. A \<open>WinRingBind\<close> leaks nothing and keeps its receive rings full. From a new bind, after any
  sequence of calls of \<open>Open\<close>, \<open>Close\<close>, \<open>Send\<close>, the receive functions, \<open>BindSocketToInterface\<close> and
  \<open>SetMark\<close>, in whatever way they ended, every socket, completion port, completion queue, registered
  buffer and memory block that is open is held by the bind exactly as often as it is open; when
  the bind is not open none is; and when it is open every slot of both receive rings belongs
  to a request.
\<close>

theorem win_lifecycle:
  assumes "os_values K" "sockname_family K" "proper r"
    and "(win_step K)\<^sup>*\<^sup>* (new_win_bind sub, h, w) (b, h', w')"
  shows "open_count r w' - open_count r w = owns_bind r b \<and>
    (wb_isOpen b = 0 \<longrightarrow> open_count r w' = open_count r w) \<and>
    (wb_isOpen b = 1 \<longrightarrow> rx_full (wb_v4 b) \<and> rx_full (wb_v6 b))"
proof -
  have "win_ready (new_win_bind sub)" by (auto simp: win_ready_def win_inv_def new_win_bind_def)
  then have k: "win_keeps r (new_win_bind sub) w b w'" by (rule win_run_keeps [OF assms])
  have z: "owns_bind r (new_win_bind sub) = 0" using assms(3) by (simp add: owns_bind_def new_win_bind_def)
  have "owns_bind r b = 0" if "wb_isOpen b = 0"
    using k that assms(3) by (auto simp: win_keeps_def win_ready_def win_inv_def owns_bind_def)
  then show ?thesis using k z by (auto simp: win_keeps_def win_ready_def accounts_def)
qed

text \<open>
  C29. \<open>Open\<close> of a \<open>WinRingBind\<close> is all or nothing. It returns, for a new bind, a closed one and an
  open one; when it reports an error the bind is closed and every resource it held or opened on
  the way was released, and when it succeeds the bind is open with both receive rings full.
\<close>

theorem win_Open_all_or_nothing:
  assumes "os_values K" "sockname_family K" "win_ready b"
  shows "\<exists>res b' w'. win_Open K b port w = Ret (res, b', w') \<and> win_ready b' \<and>
    (case res of
       Inl _ \<Rightarrow> wb_isOpen b' = 0 \<and> (\<forall>r. proper r \<longrightarrow> open_count r w' = open_count r w - owns_bind r b)
     | Inr _ \<Rightarrow> wb_isOpen b' = 1 \<and> rx_full (wb_v4 b') \<and> rx_full (wb_v6 b'))"
proof -
  have p: "proper (QueueOf 1)" by (simp add: proper_def)
  obtain res b' w' where o: "win_Open K b port w = Ret (res, b', w')" "win_keeps (QueueOf 1) b w b' w'"
    "wb_isOpen b' = (case res of Inl _ \<Rightarrow> 0 | Inr _ \<Rightarrow> 1)"
    using win_Open_keeps [OF assms(1,2) p assms(3)] by blast
  have ready: "win_ready b'" using o(2) by (simp add: win_keeps_def)
  have "open_count r w' = open_count r w - owns_bind r b" if "proper r" "wb_isOpen b' = 0" for r
  proof -
    have "accounts r b w b' w'" using win_Open_keeps [OF assms(1,2) that(1) assms(3), of port w] o(1) by (auto simp: win_keeps_def)
    moreover have "owns_bind r b' = 0" using ready that by (auto simp: win_ready_def win_inv_def owns_bind_def)
    ultimately show ?thesis by (simp add: accounts_def)
  qed
  then show ?thesis using o ready by (cases res) (auto simp: win_ready_def)
qed

end
