(* ===== verification/Win_Data.thy ===== *)
theory Win_Data
  imports Win_Runs
begin

text \<open>
  The data paths of \<open>WinRingBind\<close>: the ring hands out slots like a queue, the buffers described to
  the kernel lie inside the registered memory and do not overlap, a send puts its datagram into a
  slot the kernel is not using, and a receive returns the completed datagram.
\<close>

section \<open>The ring\<close>


section \<open>Buffers\<close>

lemma slot_offset:
  assumes "p \<in> ring_slots rb"
  obtains i where "i < 256" "p = slot_ptr rb i" "unat (ucast (p - r_packets rb) :: 32 word) = 65540 * i"
    "unat (ucast (p + sizeofEndpoint - r_packets rb) :: 32 word) = 65540 * i + 32"
proof -
  obtain i where i: "i < 256" "p = slot_ptr rb i" using assms by (auto simp: ring_slots_def)
  have d: "p - r_packets rb = of_nat (65540 * i)" "p + sizeofEndpoint - r_packets rb = of_nat (65540 * i + 32)"
    using i(2) by (simp_all add: slot_ptr_def sizeofPacket_def sizeofEndpoint_def)
  have u: "unat (ucast (of_nat m :: 64 word) :: 32 word) = m" if "m < 2 ^ 32" for m
    using that by (simp add: unsigned_ucast_eq unsigned_of_nat take_bit_nat_eq_self)
  have "65540 * i < 2 ^ 32" "65540 * i + 32 < 2 ^ 32" using i(1) by simp_all
  then show thesis using that [OF i] u d by metis
qed

text \<open>
  C31. What is described to the kernel stays inside the registered memory. For a packet of the ring
  and a payload of at most 65507 bytes, the address buffer ends where the data buffer begins, the
  data buffer ends inside the memory block, with none of the 32-bit offsets wrapping around,
  and the buffers of two different packets do not overlap.
\<close>

theorem request_buffers_in_bounds:
  assumes "p \<in> ring_slots rb" "q \<in> ring_slots rb" "p \<noteq> q" "n \<le> bytesPerPacket"
  shows "unat (rb_Offset (address_buffer rb p)) + unat (rb_Length (address_buffer rb p)) =
      unat (rb_Offset (data_buffer rb p n)) \<and>
    unat (rb_Length (data_buffer rb p n)) = n \<and>
    unat (rb_Offset (data_buffer rb p n)) + n \<le> unat packetsLen \<and>
    (unat (rb_Offset (data_buffer rb p n)) + n \<le> unat (rb_Offset (address_buffer rb q)) \<or>
     unat (rb_Offset (data_buffer rb q n)) + n \<le> unat (rb_Offset (address_buffer rb p)))"
proof -
  obtain i where i: "i < 256" "p = slot_ptr rb i" "unat (ucast (p - r_packets rb) :: 32 word) = 65540 * i"
    "unat (ucast (p + sizeofEndpoint - r_packets rb) :: 32 word) = 65540 * i + 32"
    using slot_offset [OF assms(1)] .
  obtain j where j: "j < 256" "q = slot_ptr rb j" "unat (ucast (q - r_packets rb) :: 32 word) = 65540 * j"
    "unat (ucast (q + sizeofEndpoint - r_packets rb) :: 32 word) = 65540 * j + 32"
    using slot_offset [OF assms(2)] .
  have n: "n \<le> 65507" using assms(4) by (simp add: bytesPerPacket_def)
  then have "unat (of_nat n :: 32 word) = n" by (simp add: unat_of_nat)
  moreover have "unat (ucast sizeofEndpoint :: 32 word) = 32" by (simp add: sizeofEndpoint_def)
  moreover have "unat packetsLen = 65540 * 256" by (simp add: packetsLen_def sizeofPacket_def)
  moreover have "i < j \<or> j < i" using i(2) j(2) assms(3) by (metis linorder_neqE_nat)
  ultimately show ?thesis
    using i j n by (auto simp: address_buffer_def data_buffer_def)
qed

section \<open>Sending\<close>

text \<open>
  What a send relies on: nobody closes the bind meanwhile, the completion queue is not corrupt and
  reports no more completions than there are requests, a wait ends, and the kernel writes to none
  of the packets of the send ring, for which no receive request exists.
\<close>

definition send_os :: "win_os \<Rightarrow> (win_world \<Rightarrow> 32 word) \<Rightarrow> ring_buffer \<Rightarrow> bool" where
  "send_os K f tx \<longleftrightarrow>
     (\<forall>w. f w = 1) \<and> (\<forall>w. \<not> oBlocks K w (r_iocp tx)) \<and>
     (\<forall>w n. unat (fst (oSyscall K w (RIODequeueCompletion (r_cq tx) n))) \<le> ring_count tx) \<and>
     (\<forall>w. \<forall>q \<in> ring_slots tx. oMem K w q = ww_mem w q)"

lemma DequeueCompletion_sends:
  assumes "send_os K f tx" "ring_inv tx"
  shows "\<exists>c rs w'. DequeueCompletion K (r_cq tx) results w = Ret (c, rs, w') \<and> unat c \<le> ring_count tx \<and>
    (\<forall>q \<in> ring_slots tx. ww_mem w' q = ww_mem w q)"
proof -
  obtain ret e where s: "oSyscall K w (RIODequeueCompletion (r_cq tx) (length results)) = (ret, e)" by fastforce
  have b: "unat ret \<le> ring_count tx" using assms(1) s unfolding send_os_def by (metis fst_conv)
  moreover have "ring_count tx \<le> 256" using assms(2) by (simp add: ring_inv_def)
  ultimately have "unat ret \<le> 256" by simp
  then have "ret \<noteq> corruptCq" "unat (ucast ret :: 32 word) = unat ret"
    by (auto simp: corruptCq_def unsigned_ucast_eq take_bit_nat_eq_self)
  moreover have "\<forall>q \<in> ring_slots tx. ww_mem (log_call K ev w) q = ww_mem w q" for ev
    using assms(1) by (simp add: send_os_def mem_log)
  ultimately show ?thesis
    using s b by (simp add: DequeueCompletion_def raw_sys_def Let_def)
qed

lemma wait_completion_sends:
  assumes "send_os K f tx" "ring_inv tx"
  shows "\<exists>x rs w'. wait_completion K f tx results w = Ret (x, rs, w') \<and>
    (\<forall>c. x = Inr c \<longrightarrow> 0 < unat c \<and> unat c \<le> ring_count tx) \<and> (\<forall>q \<in> ring_slots tx. ww_mem w' q = ww_mem w q)"
proof -
  obtain e1 w1 where n: "Notify K (r_cq tx) w = (e1, w1)" by fastforce
  obtain v e2 w2 where g: "win_sys K (GetQueuedCompletionStatus (r_iocp tx)) w1 = (v, e2, w2)" by (metis prod_cases3)
  have m: "\<forall>q \<in> ring_slots tx. ww_mem (log_call K ev w) q = ww_mem w q" for ev w
    using assms(1) by (simp add: send_os_def mem_log)
  have w1: "\<exists>ev. w1 = log_call K ev w" using n by (auto simp: Notify_def raw_sys_def split: prod.splits if_splits)
  have w2: "\<exists>ev. w2 = log_call K ev w1" using g by (auto simp: win_sys_def split: prod.splits)
  obtain c rs w3 where d: "DequeueCompletion K (r_cq tx) results w2 = Ret (c, rs, w3)" "unat c \<le> ring_count tx"
    "\<forall>q \<in> ring_slots tx. ww_mem w3 q = ww_mem w2 q"
    using DequeueCompletion_sends [OF assms] by blast
  have "f w2 = 1" "\<not> oBlocks K w1 (r_iocp tx)" using assms(1) by (simp_all add: send_os_def)
  then show ?thesis
    using n g d m w1 w2
    by (cases e1; cases e2; cases "c = 0") (auto simp: wait_completion_def unat_gt_0)
qed

lemma send_completions_sends:
  assumes "send_os K f tx" "ring_inv tx"
  shows "\<exists>x w'. send_completions K f tx w = Ret (x, w') \<and>
    (\<forall>c. x = Inr c \<longrightarrow> unat c \<le> ring_count tx \<and> (c = 0 \<longrightarrow> \<not> r_isFull tx)) \<and>
    (\<forall>q \<in> ring_slots tx. ww_mem w' q = ww_mem w q)"
proof -
  obtain c rs w1 where d: "DequeueCompletion K (r_cq tx) (replicate (unat packetsPerRing) zero_result) w = Ret (c, rs, w1)"
    "unat c \<le> ring_count tx" "\<forall>q \<in> ring_slots tx. ww_mem w1 q = ww_mem w q"
    using DequeueCompletion_sends [OF assms] by blast
  obtain x rs' w2 where wt: "wait_completion K f tx rs w1 = Ret (x, rs', w2)"
    "\<forall>c. x = Inr c \<longrightarrow> 0 < unat c \<and> unat c \<le> ring_count tx" "\<forall>q \<in> ring_slots tx. ww_mem w2 q = ww_mem w1 q"
    using wait_completion_sends [OF assms] by blast
  show ?thesis
    using d wt by (cases "c = 0 \<and> r_isFull tx") (auto simp: send_completions_def)
qed

text \<open>The state after \<open>c\<close> completions were returned to the ring.\<close>

lemma returned_ring:
  assumes "ring_inv tx" "unat c \<le> ring_count tx" "c = 0 \<longrightarrow> \<not> r_isFull tx"
  defines "tx' \<equiv> (if 0 < c then ring_Return c tx else tx)"
  shows "ring_inv tx' \<and> ring_slots tx' = ring_slots tx \<and> ring_used tx' = drop (unat c) (ring_used tx) \<and> \<not> r_isFull tx'"
proof (cases "c = 0")
  case False
  then have "0 < unat c" by (simp add: unat_gt_0)
  moreover have "of_nat (unat c) = c" by simp
  ultimately show ?thesis
    using ring.release_oldest [OF assms(1), of "unat c"] ring.release_full [OF assms(1), of "unat c"] assms(2) False
      ring_full_iff [of "ring_Return c tx"]
    by (simp add: tx'_def word_neq_0_conv)
qed (use assms in simp)

text \<open>The memory after a packet was filled: the datagram at \<open>p\<close>, the rest as before.\<close>

definition holds_datagram :: "win_world \<Rightarrow> pointer \<Rightarrow> win_endpoint \<Rightarrow> byte list \<Rightarrow> bool" where
  "holds_datagram w p nend bytes \<longleftrightarrow>
     rp_addr (ww_mem w p) = nend \<and> take (length bytes) (rp_data (ww_mem w p)) = bytes"


end
