(* ===== verification/Win_Receive.thy ===== *)
theory Win_Receive
  imports Win_Runs
begin

text \<open>
  The receive path of \<open>WinRingBind\<close>: it returns once the oversized datagrams stop, and it returns
  the datagram of the completed request.
\<close>

lemma ring_Push_fields:
  "ring_Push rb = Ret (p, rb') \<Longrightarrow> r_cq rb' = r_cq rb \<and> r_iocp rb' = r_iocp rb \<and> r_packets rb' = r_packets rb \<and> r_id rb' = r_id rb"
  by (auto simp: ring_Push_def Let_def split: if_splits)

lemma ring_Return_fields [simp]:
  "r_cq (ring_Return n rb) = r_cq rb" "r_iocp (ring_Return n rb) = r_iocp rb"
  "r_packets (ring_Return n rb) = r_packets rb" "r_id (ring_Return n rb) = r_id rb"
  by (simp_all add: ring_Return_def)

section \<open>Completions\<close>

text \<open>
  What a receive relies on: nobody closes the bind meanwhile, a wait ends, the completion queue is
  not corrupt, a reported completion comes with its result, and no result is longer than the
  packet it was given.
\<close>

definition recv_os :: "win_os \<Rightarrow> (win_world \<Rightarrow> 32 word) \<Rightarrow> handle \<Rightarrow> handle \<Rightarrow> bool" where
  "recv_os K f cq iocp \<longleftrightarrow>
     (\<forall>w. f w = 1) \<and> (\<forall>w. \<not> oBlocks K w iocp) \<and>
     (\<forall>w n. fst (oSyscall K w (RIODequeueCompletion cq n)) \<noteq> corruptCq) \<and>
     (\<forall>w n. fst (oSyscall K w (RIODequeueCompletion cq n)) \<noteq> 0 \<longrightarrow> oResults K w cq \<noteq> []) \<and>
     (\<forall>w. \<forall>res \<in> set (oResults K w cq). unat (rr_BytesTransferred res) \<le> bytesPerPacket)"

text \<open>A result the kernel reported at or after \<open>w\<close>.\<close>

definition reported :: "win_os \<Rightarrow> handle \<Rightarrow> win_world \<Rightarrow> rio_result \<Rightarrow> bool" where
  "reported K cq w res \<longleftrightarrow> (\<exists>w0. length (ww_events w) \<le> length (ww_events w0) \<and> res \<in> set (oResults K w0 cq))"

lemma reported_mono: "length (ww_events w) \<le> length (ww_events w') \<Longrightarrow> reported K cq w' res \<Longrightarrow> reported K cq w res"
  unfolding reported_def by (meson order_trans)

lemma DequeueCompletion_recv:
  assumes "recv_os K f cq iocp" "length rs = 1"
  obtains c rs' w' where "DequeueCompletion K cq rs w = Ret (c, rs', w')" "length rs' = 1"
    "length (ww_events w') = Suc (length (ww_events w))" "c \<noteq> 0 \<longrightarrow> reported K cq w (rs' ! 0)"
proof -
  obtain ret e where s: "oSyscall K w (RIODequeueCompletion cq 1) = (ret, e)" by fastforce
  have r: "ret \<noteq> corruptCq" "ret \<noteq> 0 \<longrightarrow> oResults K w cq \<noteq> []"
    using assms(1) s unfolding recv_os_def by (metis fst_conv)+
  let ?rs = "take 1 (oResults K w cq)"
  have "reported K cq w ((?rs @ drop (length ?rs) rs) ! 0)" if "(ucast ret :: 32 word) \<noteq> 0"
  proof -
    have "oResults K w cq \<noteq> []" using r(2) that by auto
    then show ?thesis by (cases "oResults K w cq") (auto simp: reported_def)
  qed
  moreover have "length (?rs @ drop (length ?rs) rs) = 1" using assms(2) by simp
  ultimately show thesis
    using that [of "ucast ret" "?rs @ drop (length ?rs) rs" "log_call K (RIODequeueCompletion cq 1, ret, None) w"] s r(1) assms(2)
    by (simp add: DequeueCompletion_def raw_sys_def Let_def)
qed

definition recv_result :: "win_os \<Rightarrow> handle \<Rightarrow> win_world \<Rightarrow> (goerror + 32 word) \<times> rio_result list \<times> win_world \<Rightarrow> bool" where
  "recv_result K cq w r \<longleftrightarrow>
     (case r of (x, rs, w') \<Rightarrow> length rs = 1 \<and> length (ww_events w) \<le> length (ww_events w') \<and>
        (\<forall>c. x = Inr c \<longrightarrow> c \<noteq> 0 \<longrightarrow> reported K cq w (rs ! 0)))"

lemma recv_result_mono:
  "length (ww_events w) \<le> length (ww_events w1) \<Longrightarrow> recv_result K cq w1 r \<Longrightarrow> recv_result K cq w r"
  by (auto simp: recv_result_def intro: reported_mono)

lemma receive_spin_recv:
  assumes "recv_os K f cq iocp"
  shows "length rs = 1 \<Longrightarrow> (c \<noteq> 0 \<longrightarrow> reported K cq w (rs ! 0)) \<Longrightarrow>
    \<exists>r. receive_spin K f cq first n c rs w = Ret r \<and> recv_result K cq w r"
proof (induction n arbitrary: first c rs w)
  case 0
  then show ?case by (auto simp: recv_result_def)
next
  case (Suc n)
  show ?case
  proof (cases "c = 0")
    case False
    then show ?thesis using Suc.prems by (simp add: recv_result_def)
  next
    case True
    obtain c' rs' w' where d: "DequeueCompletion K cq rs w = Ret (c', rs', w')" "length rs' = 1"
      "length (ww_events w') = Suc (length (ww_events w))" "c' \<noteq> 0 \<longrightarrow> reported K cq w (rs' ! 0)"
      using DequeueCompletion_recv [OF assms Suc.prems(1), where w = w] .
    have f: "f w = 1" using assms by (simp add: recv_os_def)
    show ?thesis
    proof (cases "c' = 0")
      case True2: True
      obtain r where "receive_spin K f cq False n c' rs' w' = Ret r" "recv_result K cq w' r"
        using Suc.IH [of rs' c' w' False] d(2) True2 by blast
      then show ?thesis using True f d(1,3) recv_result_mono [of w w' K cq r] by simp
    next
      case False
      then have "receive_spin K f cq False n c' rs' w' = Ret (Inr c', rs', w')" by (cases n) simp_all
      then show ?thesis using True f d False by (simp add: recv_result_def)
    qed
  qed
qed

lemma receive_completion_recv:
  assumes "recv_os K f (r_cq rx) (r_iocp rx)" "length rs = 1"
  shows "\<exists>x rs' w'. receive_completion K f rx rs w = Ret (x, rs', w') \<and> length rs' = 1 \<and>
    length (ww_events w) \<le> length (ww_events w') \<and> (\<forall>c. x = Inr c \<longrightarrow> reported K (r_cq rx) w (rs' ! 0))"
proof -
  obtain r where r: "receive_spin K f (r_cq rx) True receiveSpins 0 rs w = Ret r" "recv_result K (r_cq rx) w r"
    using receive_spin_recv [OF assms(1), of rs 0 w True receiveSpins] assms(2) by auto
  obtain x rs1 w1 where x: "r = (x, rs1, w1)" by (cases r)
  show ?thesis
  proof (cases "x = Inr 0")
    case False
    then show ?thesis using r x by (auto simp: receive_completion_def recv_result_def)
  next
    case True
    obtain e1 w2 where n: "Notify K (r_cq rx) w1 = (e1, w2)" by fastforce
    obtain v e2 w3 where g: "win_sys K (GetQueuedCompletionStatus (r_iocp rx)) w2 = (v, e2, w3)" by (metis prod_cases3)
    have ev: "length (ww_events w2) = Suc (length (ww_events w1))" "length (ww_events w3) = Suc (length (ww_events w2))"
      using n g by (auto simp: Notify_def raw_sys_def win_sys_def split: prod.splits if_splits)
    have l: "length rs1 = 1" "length (ww_events w) \<le> length (ww_events w1)" using r(2) x by (simp_all add: recv_result_def)
    obtain c rs2 w4 where d: "DequeueCompletion K (r_cq rx) rs1 w3 = Ret (c, rs2, w4)" "length rs2 = 1"
      "length (ww_events w4) = Suc (length (ww_events w3))" "c \<noteq> 0 \<longrightarrow> reported K (r_cq rx) w3 (rs2 ! 0)"
      using DequeueCompletion_recv [OF assms(1) l(1), where w = w3] .
    have f: "f w3 = 1" "\<not> oBlocks K w2 (r_iocp rx)" using assms(1) by (simp_all add: recv_os_def)
    have "reported K (r_cq rx) w (rs2 ! 0)" if "c \<noteq> 0"
      using d(4) that ev l(2) by (intro reported_mono [of w w3]) simp_all
    then show ?thesis
      using r(1) x True n g d(1-3) f l ev
      by (cases e1; cases e2; cases "c = 0") (simp_all add: receive_completion_def wait_completion_def)
  qed
qed

section \<open>Termination\<close>

definition recv_state :: "win_os \<Rightarrow> (win_world \<Rightarrow> 32 word) \<Rightarrow> receive_state \<Rightarrow> bool" where
  "recv_state K f st \<longleftrightarrow>
     rx_full (rs_af st) \<and> length (rs_results st) = 1 \<and> recv_os K f (r_cq (a_rx (rs_af st))) (r_iocp (a_rx (rs_af st)))"

lemma receive_packet_returns:
  assumes "unat (rr_BytesTransferred res) \<le> bytesPerPacket"
  shows "\<exists>x h'. receive_packet K f buf res h w = Ret (x, h') \<and> (x = None \<longrightarrow> rr_Status res = WSAEMSGSIZE)"
  using assms by (simp add: receive_packet_def Let_def)

lemma receive_once_recv:
  assumes "recv_state K f st"
  defines "cq \<equiv> r_cq (a_rx (rs_af st))"
  shows "\<exists>x st'. receive_once K f buf st = Ret (x, st') \<and> (x = None \<longrightarrow>
      recv_state K f st' \<and> r_cq (a_rx (rs_af st')) = cq \<and>
      length (ww_events (rs_world st)) < length (ww_events (rs_world st')) \<and>
      (\<exists>res. rr_Status res = WSAEMSGSIZE \<and> reported K cq (rs_world st) res))"
proof -
  let ?a = "rs_af st"
  have os: "recv_os K f cq (r_iocp (a_rx ?a))" and full: "rx_full ?a" and len: "length (rs_results st) = 1"
    using assms(1) by (simp_all add: recv_state_def cq_def)
  obtain x rs w where c: "receive_completion K f (a_rx ?a) (rs_results st) (rs_world st) = Ret (x, rs, w)" "length rs = 1"
    "length (ww_events (rs_world st)) \<le> length (ww_events w)" "\<forall>c. x = Inr c \<longrightarrow> reported K cq (rs_world st) (rs ! 0)"
    using receive_completion_recv [of K f "a_rx ?a"] os len unfolding cq_def by metis
  obtain err rx w' where i: "InsertReceiveRequest K (?a\<lparr>a_rx := ring_Return 1 (a_rx ?a)\<rparr>) w = Ret (err, ?a\<lparr>a_rx := rx\<rparr>, w')"
    "rx_full (?a\<lparr>a_rx := rx\<rparr>)"
    by (rule reinsert [OF full, of K w]) blast
  have rx: "r_cq rx = cq" "r_iocp rx = r_iocp (a_rx ?a)" "length (ww_events w') = Suc (length (ww_events w))"
  proof -
    obtain p rxa where q: "ring_Push (ring_Return 1 (a_rx ?a)) = Ret (p, rxa)" "?a\<lparr>a_rx := rx\<rparr> = ?a\<lparr>a_rx := rxa\<rparr>"
      "ReceiveEx K (a_rq ?a) (data_buffer rxa p bytesPerPacket) (address_buffer rxa p) p w = (err, w')"
      by (rule InsertReceiveRequestD [OF i(1)]) simp
    have "rx = rxa" using arg_cong [OF q(2), of a_rx] by simp
    then show "r_cq rx = cq" "r_iocp rx = r_iocp (a_rx ?a)" using ring_Push_fields [OF q(1)] by (simp_all add: cq_def)
    show "length (ww_events w') = Suc (length (ww_events w))"
      using q(3) by (auto simp: ReceiveEx_def raw_sys_def split: prod.splits if_splits)
  qed
  show ?thesis
  proof (cases x)
    case (Inl e)
    then show ?thesis using c(1) by (simp add: receive_once_def)
  next
    case (Inr n)
    then have rep: "reported K cq (rs_world st) (rs ! 0)" using c(4) by blast
    then have "unat (rr_BytesTransferred (rs ! 0)) \<le> bytesPerPacket" using os by (auto simp: reported_def recv_os_def)
    then obtain y h' where y: "receive_packet K f buf (rs ! 0) (rs_mem st) w' = Ret (y, h')"
      "y = None \<longrightarrow> rr_Status (rs ! 0) = WSAEMSGSIZE"
      using receive_packet_returns by blast
    show ?thesis
    proof (cases err)
      case (Some e)
      then show ?thesis using c(1) Inr i(1) by (simp add: receive_once_def)
    next
      case None
      let ?st = "st\<lparr>rs_results := rs, rs_af := ?a\<lparr>a_rx := rx\<rparr>, rs_world := w', rs_mem := h'\<rparr>"
      have "receive_once K f buf st = Ret (y, ?st)"
        using c(1,2) Inr i(1) None y(1) by (simp add: receive_once_def Let_def)
      moreover have "recv_state K f ?st" using c(2) i(2) rx os by (simp add: recv_state_def)
      ultimately show ?thesis using y(2) rep rx c(3) by auto
    qed
  qed
qed

lemma receive_loop_returns:
  assumes quiet: "\<forall>w. bound \<le> length (ww_events w) \<longrightarrow> (\<forall>res \<in> set (oResults K w cq). rr_Status res \<noteq> WSAEMSGSIZE)"
  shows "recv_state K f st \<Longrightarrow> r_cq (a_rx (rs_af st)) = cq \<Longrightarrow> \<exists>x st'. receive_loop K f buf st = Some (Ret (x, st'))"
proof (induction "bound - length (ww_events (rs_world st))" arbitrary: st rule: less_induct)
  case less
  obtain x st' where o: "receive_once K f buf st = Ret (x, st')" and more: "x = None \<longrightarrow>
      recv_state K f st' \<and> r_cq (a_rx (rs_af st')) = cq \<and>
      length (ww_events (rs_world st)) < length (ww_events (rs_world st')) \<and>
      (\<exists>res. rr_Status res = WSAEMSGSIZE \<and> reported K cq (rs_world st) res)"
    using receive_once_recv [OF less.prems(1), of buf] less.prems(2) by auto
  show ?case
  proof (cases x)
    case (Some r)
    then show ?thesis using o by (subst receive_loop.simps) (cases r, simp)
  next
    case None
    have "length (ww_events (rs_world st)) < bound"
    proof (rule ccontr)
      assume "\<not> length (ww_events (rs_world st)) < bound"
      then have "\<not> (rr_Status res = WSAEMSGSIZE \<and> reported K cq (rs_world st) res)" for res
        using quiet unfolding reported_def by (meson not_less order_trans)
      then show False using more None by blast
    qed
    then have "bound - length (ww_events (rs_world st')) < bound - length (ww_events (rs_world st))" using more None by auto
    then obtain y st'' where "receive_loop K f buf st' = Some (Ret (y, st''))" using less.hyps [of st'] more None by blast
    then show ?thesis using o None by (subst receive_loop.simps) (cases y, simp)
  qed
qed

text \<open>
  C33. \<open>Receive\<close> returns. On an open bind with a full receive ring, when from some moment on no
  completion reports an oversized datagram, the loop around \<open>goto retry\<close> ends: the call returns a
  datagram or an error, and the ring is full again.
\<close>

theorem win_receive_returns:
  assumes "rx_full a" "recv_os K f (r_cq (a_rx a)) (r_iocp (a_rx a))"
    and "\<forall>w. bound \<le> length (ww_events w) \<longrightarrow>
      (\<forall>res \<in> set (oResults K w (r_cq (a_rx a))). rr_Status res \<noteq> WSAEMSGSIZE)"
  shows "\<exists>x a' h' w'. af_Receive K f a buf h w = Ret (x, a', h', w') \<and> rx_full a'"
proof -
  let ?st = "\<lparr>rs_results = [zero_result], rs_af = a, rs_mem = h, rs_world = w\<rparr>"
  have "recv_state K f ?st" using assms(1,2) by (simp add: recv_state_def)
  then obtain x st' where "receive_loop K f buf ?st = Some (Ret (x, st'))"
    using receive_loop_returns [OF assms(3)] by fastforce
  moreover have "f w = 1" using assms(2) by (simp add: recv_os_def)
  ultimately have r: "af_Receive K f a buf h w = Ret (x, rs_af st', rs_mem st', rs_world st')"
    by (simp add: af_Receive_def)
  then show ?thesis using af_Receive_keeps(1) [OF r assms(1)] by blast
qed

section \<open>Delivery\<close>

text \<open>
  When the first look at the completion queue finds a completed request, the oldest slot is posted
  again, and only then the packet of the completed request is read.
\<close>

lemma receive_first:
  fixes buf :: slice and h :: store
  assumes "rx_full a" "f w = 1"
    and "oSyscall K w (RIODequeueCompletion (r_cq (a_rx a)) 1) = (1, e)" "oResults K w (r_cq (a_rx a)) = [res]"
    and "rr_Status res = 0" "unat (rr_BytesTransferred res) \<le> bytesPerPacket"
    and "\<forall>w b ad c. fst (oSyscall K w (RIOReceiveEx (a_rq a) b ad c)) \<noteq> 0"
  defines "w1 \<equiv> log_call K (RIODequeueCompletion (r_cq (a_rx a)) 1, 1, None) w"
    and "n \<equiv> min (slen buf) (unat (rr_BytesTransferred res))"
  obtains rx b ad v packet where
    "packet = ww_mem (log_call K (RIOReceiveEx (a_rq a) b ad (hd (ring_used (a_rx a))), v) w1) (rr_RequestContext res)"
    "af_Receive K f a buf h w = Ret ((n, Some (rp_addr packet), None), a\<lparr>a_rx := rx\<rparr>,
       sl_write h (sarr buf) (soff buf) (take n (rp_data packet)),
       log_call K (RIOReceiveEx (a_rq a) b ad (hd (ring_used (a_rx a))), v) w1)"
    "ring_used rx = tl (ring_used (a_rx a)) @ [hd (ring_used (a_rx a))]" "rx_full (a\<lparr>a_rx := rx\<rparr>)"
proof -
  let ?p = "rr_RequestContext res" and ?q = "hd (ring_used (a_rx a))"
  let ?st = "\<lparr>rs_results = [zero_result], rs_af = a, rs_mem = h, rs_world = w\<rparr>"
  have d: "DequeueCompletion K (r_cq (a_rx a)) [zero_result] w = Ret (1, [res], w1)"
    using assms(3,4) by (simp add: DequeueCompletion_def raw_sys_def w1_def corruptCq_def)
  have c: "receive_completion K f (a_rx a) [zero_result] w = Ret (Inr 1, [res], w1)"
    using d by (simp add: receive_completion_def receiveSpins_def numeral_eq_Suc)
  obtain err rx w2 where i: "InsertReceiveRequest K (a\<lparr>a_rx := ring_Return 1 (a_rx a)\<rparr>) w1 = Ret (err, a\<lparr>a_rx := rx\<rparr>, w2)"
    "rx_full (a\<lparr>a_rx := rx\<rparr>)" "ring_used rx = tl (ring_used (a_rx a)) @ [?q]"
    "ReceiveEx K (a_rq a) (data_buffer rx ?q bytesPerPacket) (address_buffer rx ?q) ?q w1 = (err, w2)"
    using reinsert [OF assms(1), of K w1] by metis
  let ?call = "RIOReceiveEx (a_rq a) (data_buffer rx ?q bytesPerPacket) (address_buffer rx ?q) ?q"
  obtain ret e2 where s: "oSyscall K w1 ?call = (ret, e2)" by fastforce
  have "ret \<noteq> 0" using assms(7) s by (metis fst_conv)
  then have w2: "err = None" "w2 = log_call K (?call, ret, None) w1"
    using i(4) s by (auto simp: ReceiveEx_def raw_sys_def)
  define packet where "packet = ww_mem w2 ?p"
  have "receive_packet K f buf res h w2 =
      Ret (Some (n, Some (rp_addr packet), None), sl_write h (sarr buf) (soff buf) (take n (rp_data packet)))"
    using assms(5,6) by (simp add: receive_packet_def WSAEMSGSIZE_def n_def not_less Let_def packet_def)
  then have "receive_once K f buf ?st = Ret (Some (n, Some (rp_addr packet), None),
      \<lparr>rs_results = [res], rs_af = a\<lparr>a_rx := rx\<rparr>, rs_mem = sl_write h (sarr buf) (soff buf) (take n (rp_data packet)),
       rs_world = w2\<rparr>)"
    using c i(1) w2(1) by (simp add: receive_once_def)
  then have "af_Receive K f a buf h w = Ret ((n, Some (rp_addr packet), None), a\<lparr>a_rx := rx\<rparr>,
       sl_write h (sarr buf) (soff buf) (take n (rp_data packet)), w2)"
    using assms(2) by (subst af_Receive_def, subst receive_loop.simps) simp
  then show thesis using that [of packet _ _ "(ret, None)" rx] i(2,3) by (simp add: w2(2) packet_def)
qed


end
