(* ===== verification/Win_Samples.thy ===== *)
theory Win_Samples
  imports Win_Data Win_Receive
begin

text \<open>
  Concrete operating systems for the Windows properties: one on which every call succeeds, one that
  delivers datagrams, one that stores a datagram as soon as a request is posted, and one that
  refuses every send request. The last two show what the code does not handle.
\<close>

section \<open>A system on which everything succeeds\<close>

definition good_os :: win_os where
  "good_os =
     \<lparr>oCall = (\<lambda>w c. (of_nat (Suc (length (ww_events w))), None)),
      oSyscall = (\<lambda>w c. case c of
          RIODequeueCompletion _ _ \<Rightarrow> (0, 0) | RIONotify _ \<Rightarrow> (0, 0) | _ \<Rightarrow> (1, 0)),
      oSockname = (\<lambda>w x. case last (ww_events w) of
          (BindSocket _ (SockaddrInet4 _), _) \<Rightarrow> SockaddrInet4 4242
        | (BindSocket _ (SockaddrInet6 _), _) \<Rightarrow> SockaddrInet6 4242
        | _ \<Rightarrow> SockaddrOther),
      oResults = (\<lambda>w cq. []),
      oMem = ww_mem,
      oBlocks = (\<lambda>w x. False),
      oClosing = (\<lambda>w. False)\<rparr>"

definition empty_packet :: ring_packet where
  "empty_packet = \<lparr>rp_addr = zero_win_endpoint, rp_data = replicate bytesPerPacket 0\<rparr>"

definition win_world0 :: win_world where
  "win_world0 = \<lparr>ww_events = [], ww_mem = (\<lambda>p. empty_packet)\<rparr>"

lemma good_os_values: "os_values good_os" "sockname_family good_os"
  by (auto simp: os_values_def sockname_family_def good_os_def)

lemma new_ready: "win_ready (new_win_bind True)"
  by (auto simp: win_ready_def win_inv_def new_win_bind_def)

definition full_ring :: ring_buffer where
  "full_ring = \<lparr>r_packets = 65536, r_head = 0, r_tail = 256, r_id = 1, r_iocp = 2, r_isFull = True, r_cq = 3\<rparr>"

definition full_af :: af_bind where
  "full_af = \<lparr>a_sock = 4, a_rx = full_ring, a_tx = full_ring\<lparr>r_tail := 0, r_isFull := False\<rparr>, a_rq = 5, a_blackhole = False\<rparr>"

definition open_bind :: win_bind where
  "open_bind = (new_win_bind True)\<lparr>wb_v4 := full_af, wb_v6 := full_af, wb_isOpen := 1\<rparr>"

lemma full_ring_inv: "ring_inv full_ring" "ring_count full_ring = 256"
  by (simp_all add: ring_inv_def ring_count_def full_ring_def)

lemma full_af_rx: "rx_full full_af"
  by (simp add: rx_full_def full_af_def full_ring_inv) (simp add: full_ring_def)

lemma open_bind_ready: "win_ready open_bind"
  using full_af_rx by (simp add: win_ready_def win_inv_def open_bind_def)

theorem win_lifecycle_witness:
  "\<exists>res b w. win_Open good_os (new_win_bind True) 0 win_world0 = Ret (res, b, w) \<and>
     open_count (HandleOf 1) w - open_count (HandleOf 1) win_world0 = owns_bind (HandleOf 1) b"
proof -
  have p: "proper (HandleOf 1)" by (simp add: proper_def InvalidHandle_def)
  obtain res b w where o: "win_Open good_os (new_win_bind True) 0 win_world0 = Ret (res, b, w)"
    using win_Open_keeps [OF good_os_values p new_ready] by blast
  have "win_step good_os (new_win_bind True, h, win_world0) (b, h, w)" for h using o by (rule win_step_Open)
  then have "(win_step good_os)\<^sup>*\<^sup>* (new_win_bind True, h, win_world0) (b, h, w)" for h by blast
  then show ?thesis using win_lifecycle [OF good_os_values p] o by blast
qed

theorem win_Open_all_or_nothing_witness:
  "\<exists>res b w. win_Open good_os (new_win_bind True) 0 win_world0 = Ret (res, b, w) \<and> win_ready b"
  using win_Open_all_or_nothing [OF good_os_values new_ready, of 0 win_world0] by blast


theorem request_buffers_in_bounds_witness:
  "unat (rb_Offset (data_buffer full_ring (slot_ptr full_ring 255) 65507)) + 65507 \<le> unat packetsLen"
proof -
  have "slot_ptr full_ring 255 \<in> ring_slots full_ring" "slot_ptr full_ring 0 \<in> ring_slots full_ring"
    by (simp_all add: ring_slots_def)
  moreover have "slot_ptr full_ring 255 \<noteq> slot_ptr full_ring 0" by (simp add: slot_ptr_inj)
  ultimately show ?thesis
    using request_buffers_in_bounds [of "slot_ptr full_ring 255" full_ring "slot_ptr full_ring 0" 65507]
    by (simp add: bytesPerPacket_def)
qed

definition some_peer :: win_endpoint where
  "some_peer = \<lparr>we_family = AF_INET, we_data = [0xCA, 0x6C, 192, 0, 2, 1] @ replicate 24 0\<rparr>"


section \<open>A system that delivers\<close>

definition datagram_result :: rio_result where
  "datagram_result = \<lparr>rr_Status = 0, rr_BytesTransferred = 3, rr_SocketContext = 0, rr_RequestContext = 65536\<rparr>"

definition first_datagram :: ring_packet where
  "first_datagram = \<lparr>rp_addr = some_peer, rp_data = [1, 2, 3] @ replicate 65504 0\<rparr>"

definition delivering_os :: win_os where
  "delivering_os = good_os\<lparr>
     oSyscall := (\<lambda>w c. (1, 0)),
     oResults := (\<lambda>w cq. [datagram_result])\<rparr>"

definition rx_world :: win_world where
  "rx_world = win_world0\<lparr>ww_mem := (\<lambda>p. first_datagram)\<rparr>"

definition win_buf :: slice where
  "win_buf = \<lparr>sarr = 0, soff = 0, slen = 8, scap = 8\<rparr>"

definition win_store :: store where
  "win_store = \<lparr>arrs = (\<lambda>i. replicate 8 0), brk = 1\<rparr>"

lemma delivering_recv: "recv_os delivering_os (\<lambda>w. 1) cq iocp"
  by (simp add: recv_os_def delivering_os_def good_os_def corruptCq_def datagram_result_def bytesPerPacket_def)

theorem win_receive_returns_witness:
  "\<exists>x a' h' w'. af_Receive delivering_os (\<lambda>w. 1) full_af win_buf win_store rx_world = Ret (x, a', h', w') \<and> rx_full a'"
proof -
  have "\<forall>w. 0 \<le> length (ww_events w) \<longrightarrow>
      (\<forall>res \<in> set (oResults delivering_os w (r_cq (a_rx full_af))). rr_Status res \<noteq> WSAEMSGSIZE)"
    by (simp add: delivering_os_def good_os_def datagram_result_def WSAEMSGSIZE_def)
  then show ?thesis by (rule win_receive_returns [OF full_af_rx delivering_recv])
qed

lemma delivering_simps:
  "oSyscall delivering_os w c = (1, 0)" "oResults delivering_os w cq = [datagram_result]" "oMem delivering_os = ww_mem"
  by (simp_all add: delivering_os_def good_os_def)


section \<open>What the code does not handle\<close>

text \<open>
  C35. \<open>Open\<close> of a bind that is already open reports \<open>ErrBindAlreadyOpen\<close> and closes it: the deferred
  cleanup runs for this error too. Every resource the bind held is released.
\<close>

theorem win_Open_twice_closes:
  assumes "wb_isOpen b = 1"
  shows "\<exists>b' w'. win_Open K b port w = Ret (Inl ErrBindAlreadyOpen, b', w') \<and> wb_isOpen b' = 0 \<and>
    (\<forall>r. proper r \<longrightarrow> owns_bind r b' = 0 \<and> open_count r w' = open_count r w - owns_bind r b)"
proof -
  obtain b' w' where c: "closeAndZero K b w = (b', w')" by fastforce
  have p: "proper (QueueOf 1)" by (simp add: proper_def)
  have "win_Open K b port w = Ret (Inl ErrBindAlreadyOpen, b', w')"
    using assms c by (simp add: win_Open_def open_body_def)
  then show ?thesis
    using closeAndZero_count(1) [OF c p] closeAndZero_count(3,4) [OF c] by blast
qed

theorem win_Open_twice_closes_witness:
  "\<exists>b' w'. win_Open good_os open_bind 0 win_world0 = Ret (Inl ErrBindAlreadyOpen, b', w') \<and> wb_isOpen b' = 0"
  using win_Open_twice_closes [of open_bind good_os 0 win_world0] by (auto simp: open_bind_def)

text \<open>A system that has the next datagram ready when a request is posted.\<close>

definition second_peer :: win_endpoint where
  "second_peer = \<lparr>we_family = AF_INET, we_data = [0xCA, 0x6C, 192, 0, 2, 2] @ replicate 24 0\<rparr>"

definition second_datagram :: ring_packet where
  "second_datagram = \<lparr>rp_addr = second_peer, rp_data = [7, 8, 9] @ replicate 65504 0\<rparr>"

definition racing_os :: win_os where
  "racing_os = delivering_os\<lparr>oMem := (\<lambda>w. case last (ww_events w) of
     (RIOReceiveEx _ _ _ p, _) \<Rightarrow> (ww_mem w)(p := second_datagram) | _ \<Rightarrow> ww_mem w)\<rparr>"

lemma full_af_head: "hd (ring_used (a_rx full_af)) = 65536"
proof -
  have "[0..<256 :: nat] = 0 # [1..<256]" by (simp add: upt_conv_Cons)
  then show ?thesis
    by (simp add: full_af_def ring_used_def full_ring_inv(2) slot_ptr_def) (simp add: full_ring_def)
qed

text \<open>
  C36. \<open>Receive\<close> hands a packet back to the kernel before it reads it. The completed request is that
  of the packet with the first datagram, but the call returns the sender and the bytes of the
  next one, which the kernel stored in the same packet in the meantime: the first datagram is
  lost.
\<close>

theorem win_receive_overwritten:
  "rp_addr (ww_mem rx_world (rr_RequestContext datagram_result)) = some_peer \<and>
   (\<exists>a' w'. af_Receive racing_os (\<lambda>w. 1) full_af win_buf win_store rx_world =
     Ret ((3, Some second_peer, None), a', sl_write win_store 0 0 [7, 8, 9], w'))"
proof
  show "rp_addr (ww_mem rx_world (rr_RequestContext datagram_result)) = some_peer"
    by (simp add: rx_world_def first_datagram_def)
  have k: "oSyscall racing_os w c = (1, 0)" "oResults racing_os w cq = [datagram_result]" for w c cq
    by (simp_all add: racing_os_def delivering_os_def)
  have d: "unat (rr_BytesTransferred datagram_result) = 3" "rr_Status datagram_result = 0" "rr_RequestContext datagram_result = 65536"
    by (simp_all add: datagram_result_def)
  obtain rx b ad v packet w' where r:
    "packet = ww_mem (log_call racing_os (RIOReceiveEx (a_rq full_af) b ad (hd (ring_used (a_rx full_af))), v) w') 65536"
    "af_Receive racing_os (\<lambda>w. 1) full_af win_buf win_store rx_world = Ret ((3, Some (rp_addr packet), None), full_af\<lparr>a_rx := rx\<rparr>,
       sl_write win_store 0 0 (take 3 (rp_data packet)),
       log_call racing_os (RIOReceiveEx (a_rq full_af) b ad (hd (ring_used (a_rx full_af))), v) w')"
    by (rule receive_first [where K = racing_os and f = "\<lambda>w. 1" and w = rx_world and res = datagram_result and
          buf = win_buf and h = win_store, OF full_af_rx refl k(1) k(2) d(2)])
      (auto simp: d k bytesPerPacket_def win_buf_def)
  have "packet = second_datagram" unfolding r(1) full_af_head by (simp add: mem_log racing_os_def)
  then show "\<exists>a' w'. af_Receive racing_os (\<lambda>w. 1) full_af win_buf win_store rx_world =
     Ret ((3, Some second_peer, None), a', sl_write win_store 0 0 [7, 8, 9], w')"
    using r(2) by (simp add: second_datagram_def)
qed

text \<open>A system that refuses send requests, so that none completes.\<close>

definition refusing_os :: win_os where
  "refusing_os = good_os\<lparr>oSyscall := (\<lambda>w c. (0, 10055)), oBlocks := (\<lambda>w x. True)\<rparr>"

fun send_times :: "nat \<Rightarrow> af_bind \<Rightarrow> win_world \<Rightarrow> (goerror option list \<times> af_bind \<times> win_world) outcome" where
  "send_times 0 a w = Ret ([], a, w)"
| "send_times (Suc n) a w =
     obind (af_Send refusing_os (\<lambda>w. 1) a [1] some_peer w) (\<lambda>(err, a', w').
       obind (send_times n a' w') (\<lambda>(errs, a'', w''). Ret (err # errs, a'', w'')))"

lemma refused_send:
  assumes "ring_inv (a_tx a)" "ring_count (a_tx a) < 256"
  shows "\<exists>a' w'. af_Send refusing_os (\<lambda>w. 1) a [1] some_peer w = Ret (Some (Errno 10055), a', w') \<and>
    ring_inv (a_tx a') \<and> ring_count (a_tx a') = Suc (ring_count (a_tx a))"
proof -
  have "\<not> r_isFull (a_tx a)" using assms by (auto simp: ring_inv_def)
  then obtain p tx where p: "ring_Push (a_tx a) = Ret (p, tx)" "ring_inv tx" "ring_used tx = ring_used (a_tx a) @ [p]"
    using ring_Push_Ret [OF assms(1)] by blast
  have "ring_count tx = Suc (ring_count (a_tx a))" using arg_cong [OF p(3), of length] by simp
  then show ?thesis
    using p \<open>\<not> r_isFull (a_tx a)\<close>
    by (simp add: af_Send_def bytesPerPacket_def send_completions_def DequeueCompletion_def raw_sys_def refusing_os_def
        corruptCq_def send_packet_def SendEx_def Let_def)
qed

lemma refused_sends:
  "ring_inv (a_tx a) \<Longrightarrow> ring_count (a_tx a) + n \<le> 256 \<Longrightarrow>
   \<exists>a' w'. send_times n a w = Ret (replicate n (Some (Errno 10055)), a', w') \<and> ring_inv (a_tx a') \<and>
     ring_count (a_tx a') = ring_count (a_tx a) + n"
proof (induction n arbitrary: a w)
  case (Suc n)
  obtain a1 w1 where s: "af_Send refusing_os (\<lambda>w. 1) a [1] some_peer w = Ret (Some (Errno 10055), a1, w1)"
    "ring_inv (a_tx a1)" "ring_count (a_tx a1) = Suc (ring_count (a_tx a))"
    using refused_send [OF Suc.prems(1), of w] Suc.prems(2) by auto
  then show ?case using Suc.IH [OF s(2), of w1] Suc.prems(2) by auto
qed simp

text \<open>
  C37. A refused send request leaks its slot. Starting with an empty send ring, 256 sends whose
  requests the kernel refuses all return its error, and the next send waits for a completion that
  cannot come, since no request is outstanding: it never returns.
\<close>

theorem win_refused_sends_block:
  "\<exists>a w. send_times 256 full_af win_world0 = Ret (replicate 256 (Some (Errno 10055)), a, w) \<and>
     af_Send refusing_os (\<lambda>w. 1) a [1] some_peer w = Diverge"
proof -
  have "ring_inv (a_tx full_af)" "ring_count (a_tx full_af) = 0"
    by (simp_all add: full_af_def full_ring_def ring_inv_def ring_count_def)
  then obtain a w where s: "send_times 256 full_af win_world0 = Ret (replicate 256 (Some (Errno 10055)), a, w)"
    "ring_inv (a_tx a)" "ring_count (a_tx a) = 256"
    using refused_sends [of full_af 256 win_world0] by auto
  then have "r_isFull (a_tx a)" by (simp add: ring_inv_def)
  then have "af_Send refusing_os (\<lambda>w. 1) a [1] some_peer w = Diverge"
    by (simp add: af_Send_def bytesPerPacket_def send_completions_def DequeueCompletion_def raw_sys_def refusing_os_def
        corruptCq_def wait_completion_def Notify_def)
  then show ?thesis using s(1) by blast
qed

end
