(* ===== verification/Netip_Text.thy ===== *)
theory Netip_Text
  imports Netip
begin

text \<open>
  The textual form of addresses in \<open>net/netip\<close> and \<open>net\<close> as the endpoints use it: \<open>Addr.String\<close>,
  \<open>AddrPort.String\<close>, \<open>ParseAddr\<close>, \<open>ParseAddrPort\<close> and \<open>SplitHostPort\<close>. The texts of parse errors are
  not kept: a parser returns \<open>None\<close> where Go returns an error.
\<close>

section \<open>Printing\<close>

definition hex_digit :: "nat \<Rightarrow> char" where
  "hex_digit d = (if d < 10 then char_of (48 + d) else char_of (87 + d))"

fun hex_text :: "nat \<Rightarrow> string" where
  "hex_text n = (if n < 16 then [hex_digit n] else hex_text (n div 16) @ [hex_digit (n mod 16)])"

declare hex_text.simps [simp del]

definition string4 :: "byte list \<Rightarrow> string" where
  "string4 b = Itoa (unat (b ! 0)) @ ''.'' @ Itoa (unat (b ! 1)) @ ''.'' @ Itoa (unat (b ! 2)) @ ''.'' @ Itoa (unat (b ! 3))"

text \<open>The 16-bit groups of an address, and the bytes of a list of groups.\<close>

fun groups16 :: "byte list \<Rightarrow> nat list" where
  "groups16 (a # b # r) = (256 * unat a + unat b) # groups16 r"
| "groups16 _ = []"

fun bytes16 :: "nat list \<Rightarrow> byte list" where
  "bytes16 [] = []"
| "bytes16 (g # gs) = of_nat (g div 256) # of_nat g # bytes16 gs"

text \<open>The first longest run of at least two zero groups; \<open>(255, 255)\<close> if there is none.\<close>

definition run_from :: "nat list \<Rightarrow> nat \<Rightarrow> nat" where
  "run_from gs i = length (takeWhile (\<lambda>g. g = 0) (drop i gs))"

definition zero_step :: "nat list \<Rightarrow> nat \<Rightarrow> nat \<times> nat \<Rightarrow> nat \<times> nat" where
  "zero_step gs i se =
     (let l = run_from gs i in if 2 \<le> l \<and> snd se - fst se < l then (i, i + l) else se)"

definition zero_run :: "nat list \<Rightarrow> nat \<times> nat" where
  "zero_run gs = fold (zero_step gs) [0..<8] (255, 255)"

fun colon_text :: "nat list \<Rightarrow> string" where
  "colon_text [] = ''''"
| "colon_text [g] = hex_text g"
| "colon_text (g # gs) = hex_text g @ '':'' @ colon_text gs"

definition zone_text :: "string \<Rightarrow> string" where
  "zone_text z = (if z = '''' then '''' else ''%'' @ z)"

definition string6 :: "byte list \<Rightarrow> string" where
  "string6 b =
     (let gs = groups16 b; (s, e) = zero_run gs
      in if s = 255 then colon_text gs else colon_text (take s gs) @ ''::'' @ colon_text (drop e gs))"

definition Addr_String :: "addr \<Rightarrow> string" where
  "Addr_String a =
     (case a of
        AddrZero \<Rightarrow> ''invalid IP''
      | Addr4 b \<Rightarrow> string4 b
      | Addr6 b z \<Rightarrow> (if Is4In6 a then ''::ffff:'' @ string4 (drop 12 b) else string6 b) @ zone_text z)"

definition AddrPort_String :: "addr_port \<Rightarrow> string" where
  "AddrPort_String p =
     (case ap_addr p of
        AddrZero \<Rightarrow> ''invalid AddrPort''
      | Addr4 b \<Rightarrow> string4 b @ '':'' @ Itoa (unat (ap_port p))
      | Addr6 b z \<Rightarrow> ''['' @ Addr_String (Addr6 b z) @ '']:'' @ Itoa (unat (ap_port p)))"

section \<open>Parsing\<close>

definition digit_value :: "char \<Rightarrow> nat option" where
  "digit_value c = (let n = of_char c in if 48 \<le> n \<and> n \<le> 57 then Some (n - 48) else None)"

definition hex_value :: "char \<Rightarrow> nat option" where
  "hex_value c =
     (let n = of_char c
      in if 48 \<le> n \<and> n \<le> 57 then Some (n - 48)
         else if 97 \<le> n \<and> n \<le> 102 then Some (n - 87)
         else if 65 \<le> n \<and> n \<le> 70 then Some (n - 55)
         else None)"

text \<open>\<open>parseIPv4Fields\<close>: value and number of digits of the current octet, and the octets before it.\<close>

fun parse4 :: "string \<Rightarrow> nat \<Rightarrow> nat \<Rightarrow> byte list \<Rightarrow> byte list option" where
  "parse4 [] v d fs = (if length fs < 3 then None else Some (fs @ [of_nat v]))"
| "parse4 (c # s) v d fs =
     (case digit_value c of
        Some x \<Rightarrow>
          if d = 1 \<and> v = 0 then None
          else if v * 10 + x > 255 then None
          else parse4 s (v * 10 + x) (Suc d) fs
      | None \<Rightarrow>
          if c = CHR ''.'' then
            if d = 0 \<or> s = [] then None
            else if length fs = 3 then None
            else parse4 s 0 0 (fs @ [of_nat v])
          else None)"

definition parseIPv4 :: "string \<Rightarrow> addr option" where
  "parseIPv4 s = map_option Addr4 (parse4 s 0 0 [])"

text \<open>A group of hexadecimal digits: its value, how many digits, and what follows.\<close>

fun hex_field :: "string \<Rightarrow> nat \<Rightarrow> nat \<Rightarrow> (nat \<times> nat \<times> string) option" where
  "hex_field [] k acc = Some (acc, k, [])"
| "hex_field (c # s) k acc =
     (case hex_value c of
        None \<Rightarrow> Some (acc, k, c # s)
      | Some x \<Rightarrow>
          if k > 3 then None
          else if acc * 16 + x > 65535 then None
          else hex_field s (Suc k) (acc * 16 + x))"

text \<open>The loop of \<open>parseIPv6\<close> over the groups: the bytes so far and where the ellipsis was.\<close>

function parse6 :: "string \<Rightarrow> byte list \<Rightarrow> nat option \<Rightarrow> (string \<times> byte list \<times> nat option) option" where
  "parse6 s ip ell =
     (if 16 \<le> length ip then Some (s, ip, ell)
      else case hex_field s 0 0 of
        None \<Rightarrow> None
      | Some (v, k, rest) \<Rightarrow>
          if k = 0 then None
          else if rest \<noteq> [] \<and> hd rest = CHR ''.'' then
            if ell = None \<and> length ip \<noteq> 12 then None
            else if length ip + 4 > 16 then None
            else (case parse4 s 0 0 [] of None \<Rightarrow> None | Some q \<Rightarrow> Some ([], ip @ q, ell))
          else
            let ip' = ip @ [of_nat (v div 256), of_nat v]
            in case rest of
                 [] \<Rightarrow> Some ([], ip', ell)
               | c # r \<Rightarrow>
                   if c \<noteq> CHR '':'' then None
                   else case r of
                     [] \<Rightarrow> None
                   | c' # r' \<Rightarrow>
                       if c' = CHR '':'' then
                         if ell \<noteq> None then None
                         else if r' = [] then Some ([], ip', Some (length ip'))
                         else parse6 r' ip' (Some (length ip'))
                       else parse6 r ip' ell)"
  by pat_completeness auto
termination by (relation "measure (\<lambda>(s, ip, ell). 16 - length ip)") auto

declare parse6.simps [simp del]

definition expand6 :: "string \<times> byte list \<times> nat option \<Rightarrow> byte list option" where
  "expand6 r =
     (case r of (s, ip, ell) \<Rightarrow>
        if s \<noteq> [] then None
        else if length ip < 16 then
          (case ell of None \<Rightarrow> None | Some e \<Rightarrow> Some (take e ip @ replicate (16 - length ip) 0 @ drop e ip))
        else if ell \<noteq> None then None
        else Some ip)"

definition parse6_body :: "string \<Rightarrow> byte list option" where
  "parse6_body s =
     (if take 2 s = ''::'' then
        if length s = 2 then Some (replicate 16 0)
        else Option.bind (parse6 (drop 2 s) [] (Some 0)) expand6
      else Option.bind (parse6 s [] None) expand6)"

definition parseIPv6 :: "string \<Rightarrow> addr option" where
  "parseIPv6 text =
     (let s = takeWhile (\<lambda>c. c \<noteq> CHR ''%'') text; tail = dropWhile (\<lambda>c. c \<noteq> CHR ''%'') text
      in if tail \<noteq> [] \<and> tl tail = [] then None
         else map_option (\<lambda>b. Addr6 b (tl tail)) (parse6_body s))"

definition addr_mark :: "char \<Rightarrow> bool" where
  "addr_mark c \<longleftrightarrow> c = CHR ''.'' \<or> c = CHR '':'' \<or> c = CHR ''%''"

definition ParseAddr :: "string \<Rightarrow> addr option" where
  "ParseAddr s =
     (case List.find addr_mark s of
        None \<Rightarrow> None
      | Some c \<Rightarrow> if c = CHR ''.'' then parseIPv4 s else if c = CHR '':'' then parseIPv6 s else None)"

text \<open>\<open>strconv.ParseUint(s, 10, 16)\<close>\<close>

fun digits_value :: "string \<Rightarrow> nat \<Rightarrow> nat option" where
  "digits_value [] v = Some v"
| "digits_value (c # s) v = (case digit_value c of None \<Rightarrow> None | Some x \<Rightarrow> digits_value s (v * 10 + x))"

definition ParseUint16 :: "string \<Rightarrow> port option" where
  "ParseUint16 s =
     (if s = [] then None
      else case digits_value s 0 of None \<Rightarrow> None | Some v \<Rightarrow> if v < 65536 then Some (of_nat v) else None)"

text \<open>The parts before and after the last occurrence of \<open>c\<close>.\<close>

definition split_last :: "char \<Rightarrow> string \<Rightarrow> (string \<times> string) option" where
  "split_last c s =
     (case dropWhile (\<lambda>x. x \<noteq> c) (rev s) of
        [] \<Rightarrow> None
      | _ # r \<Rightarrow> Some (rev r, rev (takeWhile (\<lambda>x. x \<noteq> c) (rev s))))"

definition splitAddrPort :: "string \<Rightarrow> (string \<times> string \<times> bool) option" where
  "splitAddrPort s =
     (case split_last (CHR '':'') s of
        None \<Rightarrow> None
      | Some (ip, port) \<Rightarrow>
          if ip = [] \<or> port = [] then None
          else if hd ip = CHR ''['' then
            if length ip < 2 \<or> last ip \<noteq> CHR '']'' then None
            else Some (butlast (tl ip), port, True)
          else Some (ip, port, False))"

definition ParseAddrPort :: "string \<Rightarrow> addr_port option" where
  "ParseAddrPort s =
     (case splitAddrPort s of
        None \<Rightarrow> None
      | Some (ip, port, v6) \<Rightarrow>
          (case ParseUint16 port of
             None \<Rightarrow> None
           | Some p \<Rightarrow>
               (case ParseAddr ip of
                  None \<Rightarrow> None
                | Some a \<Rightarrow> if v6 \<and> Is4 a \<or> \<not> v6 \<and> Is6 a then None else Some \<lparr>ap_addr = a, ap_port = p\<rparr>)))"

text \<open>\<open>net.SplitHostPort\<close>: the first \<open>]\<close> must stand just before the last colon.\<close>

definition SplitHostPort :: "string \<Rightarrow> (string \<times> string) option" where
  "SplitHostPort s =
     (case split_last (CHR '':'') s of
        None \<Rightarrow> None
      | Some (before, port) \<Rightarrow>
          if hd s = CHR ''['' then
            let host = takeWhile (\<lambda>c. c \<noteq> CHR '']'') (tl s)
            in if before \<noteq> CHR ''['' # host @ '']'' then None
               else if CHR ''['' \<in> set (tl s) \<or> CHR '']'' \<in> set port then None
               else Some (host, port)
          else if CHR '':'' \<in> set before then None
          else if CHR ''['' \<in> set s \<or> CHR '']'' \<in> set s then None
          else Some (before, port))"

end
