(* ===== verification/Netip_Text_Correct.thy ===== *)
theory Netip_Text_Correct
  imports Netip_Text
begin

text \<open>
  Parsing the text of an address gives the address back: decimal and hexadecimal numbers, dotted
  octets, groups with and without an ellipsis, zones and ports.
\<close>

section \<open>Numbers\<close>

lemma of_char_of [simp]: "n < 256 \<Longrightarrow> of_char (char_of n :: char) = (n :: nat)"
  by simp

lemma digit_value_char: "d < 10 \<Longrightarrow> digit_value (char_of (48 + d)) = Some d"
  by (simp add: digit_value_def)

lemma hex_value_digit: "d < 16 \<Longrightarrow> hex_value (hex_digit d) = Some d"
  by (auto simp: hex_value_def hex_digit_def)

lemma digits_value_append:
  "digits_value (s @ t) v = (case digits_value s v of None \<Rightarrow> None | Some w \<Rightarrow> digits_value t w)"
  by (induction s arbitrary: v) (auto split: option.splits)

lemma digits_value_Itoa: "digits_value (Itoa n) 0 = Some n"
proof (induction n rule: Itoa.induct)
  case (1 n)
  show ?case
  proof (cases "n < 10")
    case True
    then show ?thesis by (simp add: Itoa.simps [of n] digit_value_char)
  next
    case False
    then show ?thesis using 1 by (simp add: Itoa.simps [of n] digits_value_append digit_value_char)
  qed
qed

lemma Itoa_nonempty [simp]: "Itoa n \<noteq> []"
  by (subst Itoa.simps) simp

text \<open>The digits of a number are digits.\<close>

lemma Itoa_digits: "c \<in> set (Itoa n) \<Longrightarrow> digit_value c \<noteq> None"
proof (induction n rule: Itoa.induct)
  case (1 n)
  show ?case
  proof (cases "n < 10")
    case True
    then show ?thesis using "1.prems" by (auto simp: Itoa.simps [of n] digit_value_char)
  next
    case False
    then show ?thesis using 1 by (auto simp: Itoa.simps [of n] digit_value_char)
  qed
qed

lemma Itoa_plain [simp]:
  "CHR ''.'' \<notin> set (Itoa n)" "CHR '':'' \<notin> set (Itoa n)" "CHR ''%'' \<notin> set (Itoa n)"
  "CHR ''['' \<notin> set (Itoa n)" "CHR '']'' \<notin> set (Itoa n)"
  by (auto simp: digit_value_def dest!: Itoa_digits)

lemma ParseUint16_Itoa: "ParseUint16 (Itoa (unat p)) = Some (p :: port)"
  using unsigned_less [of p] by (simp add: ParseUint16_def digits_value_Itoa)

section \<open>Dotted octets\<close>

lemma Itoa_octet_cases:
  assumes "n < 256"
  obtains "n < 10" "Itoa n = [char_of (48 + n)]"
    | x y where "0 < x" "x < 10" "y < 10" "n = x * 10 + y" "Itoa n = [char_of (48 + x), char_of (48 + y)]"
    | x y z where "0 < x" "x < 3" "y < 10" "z < 10" "n = (x * 10 + y) * 10 + z"
        "Itoa n = [char_of (48 + x), char_of (48 + y), char_of (48 + z)]"
proof -
  consider "n < 10" | "10 \<le> n" "n < 100" | "100 \<le> n" by linarith
  then show ?thesis
  proof cases
    case 1
    then show ?thesis using that(1) by (simp add: Itoa.simps [of n])
  next
    case 2
    then have "n div 10 < 10" "0 < n div 10" by linarith+
    moreover have "Itoa n = [char_of (48 + n div 10), char_of (48 + n mod 10)]"
      using 2 calculation by (simp add: Itoa.simps [of n] Itoa.simps [of "n div 10"])
    ultimately show ?thesis by (intro that(2) [of "n div 10" "n mod 10"]) simp_all
  next
    case 3
    then have "\<not> n div 10 < 10" "n div 10 div 10 < 3" "0 < n div 10 div 10" using assms by linarith+
    moreover have "Itoa n = [char_of (48 + n div 10 div 10), char_of (48 + n div 10 mod 10), char_of (48 + n mod 10)]"
    proof -
      have "Itoa n = Itoa (n div 10) @ [char_of (48 + n mod 10)]" using 3 by (subst Itoa.simps) simp
      also have "Itoa (n div 10) = Itoa (n div 10 div 10) @ [char_of (48 + n div 10 mod 10)]"
        using calculation(1) \<open>\<not> n div 10 < 10\<close> by (subst Itoa.simps) simp
      also have "Itoa (n div 10 div 10) = [char_of (48 + n div 10 div 10)]"
        using \<open>n div 10 div 10 < 3\<close> by (subst Itoa.simps) simp
      finally show ?thesis by simp
    qed
    ultimately show ?thesis by (intro that(3) [of "n div 10 div 10" "n div 10 mod 10" "n mod 10"]) simp_all
  qed
qed

lemma Itoa_octet:
  assumes "n < 256"
  shows "parse4 (Itoa n @ s) 0 0 fs = parse4 s n (length (Itoa n)) fs"
  using assms
proof (cases rule: Itoa_octet_cases)
  case 1
  then show ?thesis using assms by (simp add: digit_value_char)
next
  case (2 x y)
  then show ?thesis using assms by (simp add: digit_value_char)
next
  case (3 x y z)
  then show ?thesis using assms by (simp add: digit_value_char)
qed

lemma digit_value_dot [simp]: "digit_value (CHR ''.'') = None"
  by (simp add: digit_value_def)

lemma parse4_string4:
  assumes "length b = 4"
  shows "parse4 (string4 b) 0 0 [] = Some b"
proof -
  obtain w x y z where b: "b = [w, x, y, z]" using assms by (auto simp: length_Suc_conv numeral_eq_Suc)
  have lt: "unat u < 256" for u :: byte using unsigned_less [of u] by simp
  have "parse4 (Itoa (unat z)) 0 0 [w, x, y] = Some [w, x, y, z]"
    using Itoa_octet [OF lt, of z "[]" "[w, x, y]"] by simp
  then show ?thesis
    by (simp add: b string4_def Itoa_octet lt)
qed

section \<open>Groups\<close>

lemma hex_digit_plain:
  assumes "d < 16"
  shows "hex_digit d \<noteq> CHR '':''" "hex_digit d \<noteq> CHR ''.''" "hex_digit d \<noteq> CHR ''%''"
    "hex_digit d \<noteq> CHR ''[''" "hex_digit d \<noteq> CHR '']''" "hex_digit d \<noteq> CHR 0x00"
  using hex_value_digit [OF assms] by (auto simp: hex_value_def)

lemma hex_text_plain: "c \<in> set (hex_text n) \<Longrightarrow> \<exists>d < 16. c = hex_digit d"
proof (induction n rule: hex_text.induct)
  case (1 n)
  show ?case
  proof (cases "n < 16")
    case True
    then show ?thesis using "1.prems" by (auto simp: hex_text.simps [of n])
  next
    case False
    then show ?thesis using 1 by (force simp: hex_text.simps [of n])
  qed
qed

lemma hex_text_nonempty [simp]: "hex_text n \<noteq> []"
  by (subst hex_text.simps) simp

text \<open>What may follow a group: nothing, or a character that is not a digit.\<close>

definition stops_group :: "string \<Rightarrow> bool" where
  "stops_group s \<longleftrightarrow> s = [] \<or> hex_value (hd s) = None"

lemma hex_field_stop: "stops_group s \<Longrightarrow> hex_field s k acc = Some (acc, k, s)"
  by (cases s) (auto simp: stops_group_def)

lemma hex_field_digit:
  assumes "d < 16" "k \<le> 3" "acc * 16 + d < 65536"
  shows "hex_field (hex_digit d # s) k acc = hex_field s (Suc k) (acc * 16 + d)"
  using assms by (simp add: hex_value_digit)

lemma hex_field_text:
  "n < 16 ^ Suc k \<Longrightarrow> k \<le> 3 \<Longrightarrow>
    \<exists>j. length (hex_text n) = Suc j \<and> j \<le> k \<and> hex_field (hex_text n @ s) 0 0 = hex_field s (Suc j) n"
proof (induction k arbitrary: n s)
  case 0
  then have "n < 16" by simp
  then show ?case using hex_field_digit [of n 0 0 s] by (simp add: hex_text.simps [of n])
next
  case (Suc k)
  show ?case
  proof (cases "n < 16")
    case True
    then show ?thesis using hex_field_digit [of n 0 0 s] by (simp add: hex_text.simps [of n])
  next
    case False
    have "n div 16 < 16 ^ Suc k" using Suc.prems(1) by (simp add: less_mult_imp_div_less)
    then obtain j where j: "length (hex_text (n div 16)) = Suc j" "j \<le> k"
      "hex_field (hex_text (n div 16) @ hex_digit (n mod 16) # s) 0 0 = hex_field (hex_digit (n mod 16) # s) (Suc j) (n div 16)"
      using Suc.IH [of "n div 16" "hex_digit (n mod 16) # s"] Suc.prems(2) by auto
    have "(16 :: nat) ^ Suc (Suc k) \<le> 16 ^ 4" using Suc.prems(2) by (intro power_increasing) auto
    then have "n < 65536" using Suc.prems(1) by simp
    then have "hex_field (hex_digit (n mod 16) # s) (Suc j) (n div 16) = hex_field s (Suc (Suc j)) n"
      using hex_field_digit [of "n mod 16" "Suc j" "n div 16" s] j(2) Suc.prems(2) by simp
    then show ?thesis using False j by (simp add: hex_text.simps [of n])
  qed
qed

lemma hex_group:
  assumes "n < 65536" "stops_group s"
  shows "\<exists>j. hex_field (hex_text n @ s) 0 0 = Some (n, Suc j, s)"
  using hex_field_text [of n 3 s] hex_field_stop [OF assms(2)] assms(1) by auto

lemma stops_colon [simp]: "stops_group (CHR '':'' # s)" "stops_group []" "stops_group (CHR ''.'' # s)"
  by (simp_all add: stops_group_def hex_value_def)

section \<open>Lists of groups\<close>

lemma length_bytes16 [simp]: "length (bytes16 gs) = 2 * length gs"
  by (induction gs) auto

lemma bytes16_append [simp]: "bytes16 (gs @ hs) = bytes16 gs @ bytes16 hs"
  by (induction gs) auto

lemma bytes16_zeros [simp]: "bytes16 (replicate n 0) = replicate (2 * n) 0"
  by (induction n) auto

lemma bytes16_groups16: "even (length b) \<Longrightarrow> bytes16 (groups16 b) = b"
proof (induction b rule: groups16.induct)
  case (1 x y r)
  have "unat x < 256" "unat y < 256" using unsigned_less [of x] unsigned_less [of y] by simp_all
  then have "(256 * unat x + unat y) div 256 = unat x" by simp
  moreover have "(256 :: byte) = 0" by simp
  then have "(of_nat (256 * unat x + unat y) :: byte) = y" by (simp only: of_nat_add of_nat_mult of_nat_numeral) simp
  ultimately show ?case using 1 by simp
qed auto

lemma length_groups16: "length (groups16 b) = length b div 2"
  by (induction b rule: groups16.induct) auto

lemma groups16_bound: "g \<in> set (groups16 b) \<Longrightarrow> g < 65536"
proof (induction b rule: groups16.induct)
  case (1 x y r)
  have "unat x < 256" "unat y < 256" using unsigned_less [of x] unsigned_less [of y] by simp_all
  then show ?case using 1 by auto
qed auto

lemma colon_text_Cons:
  "colon_text (g # gs) = hex_text g @ (if gs = [] then [] else CHR '':'' # colon_text gs)"
  by (cases gs) auto

lemma colon_text_hd:
  "gs \<noteq> [] \<Longrightarrow> \<exists>c r. colon_text gs = c # r \<and> c \<noteq> CHR '':''"
proof -
  assume "gs \<noteq> []"
  then obtain g hs where gs: "gs = g # hs" by (cases gs) auto
  obtain c r where h: "hex_text g = c # r" using hex_text_nonempty by (metis list.exhaust)
  then have "c \<noteq> CHR '':''" using hex_text_plain [of c g] hex_digit_plain by auto
  then show ?thesis using gs h by (simp add: colon_text_Cons)
qed

text \<open>One group with its separator.\<close>

lemma parse6_group:
  assumes "length ip < 16" "g < 65536" "stops_group s" "s = [] \<or> hd s \<noteq> CHR ''.''"
  shows "parse6 (hex_text g @ s) ip ell =
    (let ip' = ip @ bytes16 [g]
     in case s of
          [] \<Rightarrow> Some ([], ip', ell)
        | c # r \<Rightarrow>
            if c \<noteq> CHR '':'' then None
            else case r of
              [] \<Rightarrow> None
            | c' # r' \<Rightarrow>
                if c' = CHR '':'' then
                  if ell \<noteq> None then None
                  else if r' = [] then Some ([], ip', Some (length ip'))
                  else parse6 r' ip' (Some (length ip'))
                else parse6 r ip' ell)"
proof -
  obtain j where "hex_field (hex_text g @ s) 0 0 = Some (g, Suc j, s)" using hex_group [OF assms(2,3)] by blast
  then show ?thesis using assms(1,4) by (subst parse6.simps) (auto simp: Let_def split: list.splits)
qed

lemma parse6_groups:
  assumes "gs \<noteq> []" "\<forall>g \<in> set gs. g < 65536" "length ip + 2 * length gs \<le> 16"
  shows "parse6 (colon_text gs) ip ell = Some ([], ip @ bytes16 gs, ell)"
  using assms
proof (induction gs arbitrary: ip)
  case (Cons g gs)
  show ?case
  proof (cases "gs = []")
    case True
    then show ?thesis using Cons.prems parse6_group [of ip g "[]" ell] by (simp add: Let_def)
  next
    case False
    obtain c r where c: "colon_text gs = c # r" "c \<noteq> CHR '':''" using colon_text_hd [OF False] by blast
    have "parse6 (colon_text (g # gs)) ip ell = parse6 (colon_text gs) (ip @ bytes16 [g]) ell"
      using Cons.prems parse6_group [of ip g "CHR '':'' # colon_text gs" ell] False c
      by (simp add: colon_text_Cons Let_def)
    then show ?thesis using Cons.IH [of "ip @ bytes16 [g]"] Cons.prems False by simp
  qed
qed simp

lemma parse6_ellipsis:
  assumes "gs \<noteq> []" "\<forall>g \<in> set gs. g < 65536" "\<forall>g \<in> set hs. g < 65536" "length ip + 2 * (length gs + length hs) < 16"
  shows "parse6 (colon_text gs @ ''::'' @ colon_text hs) ip None =
    Some ([], ip @ bytes16 gs @ bytes16 hs, Some (length ip + 2 * length gs))"
  using assms
proof (induction gs arbitrary: ip)
  case (Cons g gs)
  show ?case
  proof (cases "gs = []")
    case True
    then show ?thesis
      using Cons.prems parse6_group [of ip g "''::'' @ colon_text hs" None]
        parse6_groups [of hs "ip @ bytes16 [g]" "Some (length ip + 2)"]
      by (cases "hs = []") (auto simp: Let_def dest: colon_text_hd)
  next
    case False
    obtain c r where c: "colon_text gs = c # r" "c \<noteq> CHR '':''" using colon_text_hd [OF False] by blast
    have "parse6 (colon_text (g # gs) @ ''::'' @ colon_text hs) ip None =
        parse6 (colon_text gs @ ''::'' @ colon_text hs) (ip @ bytes16 [g]) None"
      using Cons.prems parse6_group [of ip g "CHR '':'' # colon_text gs @ ''::'' @ colon_text hs" None] False c
      by (simp add: colon_text_Cons Let_def)
    then show ?thesis using Cons.IH [of "ip @ bytes16 [g]"] Cons.prems False by simp
  qed
qed simp

section \<open>The run of zeros\<close>

definition good_run :: "nat list \<Rightarrow> nat \<times> nat \<Rightarrow> bool" where
  "good_run gs se \<longleftrightarrow>
     se = (255, 255) \<or> fst se + 2 \<le> snd se \<and> snd se \<le> length gs \<and> (\<forall>i. fst se \<le> i \<longrightarrow> i < snd se \<longrightarrow> gs ! i = 0)"

lemma zero_step_good:
  assumes "good_run gs se"
  shows "good_run gs (zero_step gs i se)"
proof (cases "2 \<le> run_from gs i \<and> snd se - fst se < run_from gs i")
  case True
  define l where "l = run_from gs i"
  have le: "l \<le> length (drop i gs)" using length_takeWhile_le [of _ "drop i gs"] by (simp only: l_def run_from_def)
  have "gs ! (i + j) = 0" if "j < l" for j
    using takeWhile_nth [of j "\<lambda>g. g = 0" "drop i gs"] set_takeWhileD [of _ "\<lambda>g. g = 0" "drop i gs"] that nth_mem
    by (metis l_def run_from_def le less_le_trans nth_drop length_drop less_imp_le nat_le_linear drop_all length_0_conv list.size(3) not_less_zero)
  then have "gs ! k = 0" if "i \<le> k" "k < i + l" for k using that by (metis le_add_diff_inverse nat_add_left_cancel_less)
  then show ?thesis using True le by (auto simp: zero_step_def good_run_def Let_def l_def)
next
  case False
  then show ?thesis using assms by (auto simp: zero_step_def Let_def)
qed

lemma zero_run_good: "good_run gs (zero_run gs)"
proof -
  have "good_run gs (fold (zero_step gs) is se)" if "good_run gs se" for "is" se
    using that by (induction "is" arbitrary: se) (simp_all add: zero_step_good)
  then show ?thesis by (simp add: zero_run_def good_run_def)
qed

lemma good_run_zeros:
  assumes "good_run gs (s, e)" "s \<noteq> 255"
  shows "gs = take s gs @ replicate (e - s) 0 @ drop e gs" "s + 2 \<le> e" "e \<le> length gs"
proof -
  show se: "s + 2 \<le> e" "e \<le> length gs" using assms by (auto simp: good_run_def)
  have "take (e - s) (drop s gs) = replicate (e - s) 0"
    using assms se by (intro nth_equalityI) (auto simp: good_run_def)
  then have "drop s gs = replicate (e - s) 0 @ drop e gs"
    using append_take_drop_id [of "e - s" "drop s gs"] se by simp
  then show "gs = take s gs @ replicate (e - s) 0 @ drop e gs" by (metis append_take_drop_id)
qed

section \<open>Addresses\<close>

lemma parse6_body_string6:
  assumes "length b = 16"
  shows "parse6_body (string6 b) = Some b"
proof -
  let ?gs = "groups16 b"
  obtain s e where z: "zero_run ?gs = (s, e)" by (cases "zero_run ?gs")
  have len: "length ?gs = 8" using assms by (simp add: length_groups16)
  have lt: "\<forall>g \<in> set ?gs. g < 65536" using groups16_bound by blast
  have b: "bytes16 ?gs = b" using bytes16_groups16 assms by simp
  have first: "take 2 t \<noteq> ''::''" if "t = c # r" "c \<noteq> CHR '':''" for t c r using that by (cases r) auto
  show ?thesis
  proof (cases "s = 255")
    case True
    have "?gs \<noteq> []" using len by auto
    from colon_text_hd [OF this] have "take 2 (colon_text ?gs) \<noteq> ''::''" using first by metis
    then show ?thesis using True z len lt b parse6_groups [of ?gs "[]" None] \<open>?gs \<noteq> []\<close> assms
      by (simp add: string6_def parse6_body_def expand6_def)
  next
    case False
    have run: "?gs = take s ?gs @ replicate (e - s) 0 @ drop e ?gs" "s + 2 \<le> e" "e \<le> length ?gs"
      using good_run_zeros [OF _ False, of ?gs e] zero_run_good [of ?gs] z by auto
    let ?l = "take s ?gs" and ?r = "drop e ?gs"
    have ll: "length ?l = s" "length ?r = 8 - e" using run len by auto
    have lr: "\<forall>g \<in> set ?l. g < 65536" "\<forall>g \<in> set ?r. g < 65536" using lt in_set_takeD in_set_dropD by fast+
    have whole: "bytes16 ?l @ replicate (2 * (e - s)) 0 @ bytes16 ?r = b"
      using b run(1) by (metis bytes16_append bytes16_zeros)
    have shown: "string6 b = colon_text ?l @ ''::'' @ colon_text ?r" using z False by (simp add: string6_def Let_def)
    have pad: "16 - (2 * s + 2 * (8 - e)) = 2 * (e - s)" using run(2,3) len by simp
    show ?thesis
    proof (cases "s = 0")
      case True
      have p: "parse6_body (string6 b) =
          (if ?r = [] then Some (replicate 16 0) else Option.bind (parse6 (colon_text ?r) [] (Some 0)) expand6)"
        using True shown colon_text_hd [of ?r] by (auto simp: parse6_body_def)
      show ?thesis
      proof (cases "?r = []")
        case r: True
        then have "e = 8" using ll run len by simp
        then show ?thesis using p r whole True by simp
      next
        case r: False
        then have "parse6 (colon_text ?r) [] (Some 0) = Some ([], bytes16 ?r, Some 0)"
          using parse6_groups [OF r lr(2), of "[]" "Some 0"] ll by simp
        then show ?thesis using p r whole True ll pad run(2,3) len by (simp add: expand6_def)
      qed
    next
      case s: False
      then have ne: "?l \<noteq> []" using len by auto
      from colon_text_hd [OF ne] have "take 2 (string6 b) \<noteq> ''::''" using first shown by (metis append_Cons)
      moreover have "parse6 (string6 b) [] None = Some ([], bytes16 ?l @ bytes16 ?r, Some (2 * s))"
        using parse6_ellipsis [OF ne lr, of "[]"] ll run(2,3) len shown by simp
      ultimately show ?thesis
        using whole ll pad run(2,3) len by (simp add: parse6_body_def expand6_def)
    qed
  qed
qed

text \<open>The first octet of a dotted address, read as a group.\<close>

lemma hex_value_char: "d < 10 \<Longrightarrow> hex_value (char_of (48 + d)) = Some d"
  by (simp add: hex_value_def)

lemma hex_field_Itoa:
  assumes "n < 256" "stops_group s"
  shows "\<exists>v j. hex_field (Itoa n @ s) 0 0 = Some (v, Suc j, s)"
  using assms(1)
proof (cases rule: Itoa_octet_cases)
  case 1
  then show ?thesis using hex_field_stop [OF assms(2)] by (simp add: hex_value_char)
next
  case (2 x y)
  then show ?thesis using hex_field_stop [OF assms(2)] by (simp add: hex_value_char)
next
  case (3 x y z)
  then show ?thesis using hex_field_stop [OF assms(2)] by (simp add: hex_value_char)
qed

lemma hd_Itoa: "\<exists>c r. Itoa n = c # r \<and> digit_value c \<noteq> None"
  using Itoa_digits [of "hd (Itoa n)" n] by (cases "Itoa n") auto

lemma parse6_dotted:
  assumes "length q = 4" "length ip + 4 \<le> 16"
  shows "parse6 (string4 q) ip (Some e) = Some ([], ip @ q, Some e)"
proof -
  have "unat (q ! 0) < 256" using unsigned_less [of "q ! 0"] by simp
  then obtain v j where "hex_field (string4 q) 0 0 =
      Some (v, Suc j, ''.'' @ Itoa (unat (q ! 1)) @ ''.'' @ Itoa (unat (q ! 2)) @ ''.'' @ Itoa (unat (q ! 3)))"
    using hex_field_Itoa [of "unat (q ! 0)" "''.'' @ Itoa (unat (q ! 1)) @ ''.'' @ Itoa (unat (q ! 2)) @ ''.'' @ Itoa (unat (q ! 3))"]
    by (auto simp: string4_def)
  then show ?thesis using assms parse4_string4 [OF assms(1)] by (subst parse6.simps) simp
qed

lemma parse6_body_mapped:
  assumes "length b = 16" "take 12 b = mapped_prefix"
  shows "parse6_body (''::ffff:'' @ string4 (drop 12 b)) = Some b"
proof -
  let ?q = "drop 12 b"
  have q: "length ?q = 4" using assms by simp
  have "char_of (of_char (CHR ''f'') :: nat) = CHR ''f''" by (rule char_of_char)
  then have ffff: "hex_text 65535 = ''ffff''" by (simp add: hex_text.simps hex_digit_def)
  obtain c r where c: "string4 ?q = c # r" "digit_value c \<noteq> None"
    using hd_Itoa [of "unat (?q ! 0)"] by (auto simp: string4_def)
  then have "c \<noteq> CHR '':''" by (auto simp: digit_value_def)
  then have "parse6 (''ffff:'' @ string4 ?q) [] (Some 0) = parse6 (string4 ?q) (bytes16 [65535]) (Some 0)"
    using parse6_group [of "[]" 65535 "CHR '':'' # string4 ?q" "Some 0"] c ffff by (simp add: Let_def)
  also have "bytes16 [65535] = [0xff, 0xff]"
  proof -
    have "(65535 :: byte) = 0xff" by simp
    then show ?thesis by simp
  qed
  also have "parse6 (string4 ?q) [0xff, 0xff] (Some 0) = Some ([], [0xff, 0xff] @ ?q, Some 0)"
    using parse6_dotted [OF q, of "[0xff, 0xff]" 0] by simp
  finally have "parse6_body (''::ffff:'' @ string4 ?q) = Some (replicate 10 0 @ [0xff, 0xff] @ ?q)"
    using q by (simp add: parse6_body_def expand6_def)
  also have "replicate 10 0 @ [0xff, 0xff] @ ?q = b"
    using assms(2) append_take_drop_id [of 12 b] by (simp add: mapped_prefix_def)
  finally show ?thesis .
qed

lemma string4_plain:
  "CHR ''%'' \<notin> set (string4 b)" "CHR '':'' \<notin> set (string4 b)" "CHR ''['' \<notin> set (string4 b)" "CHR '']'' \<notin> set (string4 b)"
  by (simp_all add: string4_def)

lemma string4_hd: "\<exists>c r. string4 b = c # r \<and> c \<noteq> CHR ''[''"
  using hd_Itoa [of "unat (b ! 0)"] by (auto simp: string4_def digit_value_def)

lemma colon_text_chars: "c \<in> set (colon_text gs) \<Longrightarrow> c = CHR '':'' \<or> (\<exists>d < 16. c = hex_digit d)"
  by (induction gs rule: colon_text.induct) (auto dest: hex_text_plain)

lemma colon_in_text: "2 \<le> length gs \<Longrightarrow> CHR '':'' \<in> set (colon_text gs)"
  by (cases gs rule: colon_text.cases) auto

lemma string6_chars:
  assumes "length b = 16"
  shows "CHR '':'' \<in> set (string6 b)" "CHR ''.'' \<notin> set (string6 b)" "CHR ''%'' \<notin> set (string6 b)"
    "CHR ''['' \<notin> set (string6 b)" "CHR '']'' \<notin> set (string6 b)"
proof -
  have chars: "c = CHR '':'' \<or> (\<exists>d < 16. c = hex_digit d)" if "c \<in> set (string6 b)" for c
    using that colon_text_chars [of c]
    by (cases "zero_run (groups16 b)") (auto simp: string6_def Let_def split: if_splits)
  show "CHR '':'' \<in> set (string6 b)"
    using assms colon_in_text [of "groups16 b"]
    by (cases "zero_run (groups16 b)") (simp add: string6_def Let_def length_groups16)
  show "CHR ''.'' \<notin> set (string6 b)" using chars [of "CHR ''.''"] hex_digit_plain(2) by fastforce
  show "CHR ''%'' \<notin> set (string6 b)" using chars [of "CHR ''%''"] hex_digit_plain(3) by fastforce
  show "CHR ''['' \<notin> set (string6 b)" using chars [of "CHR ''[''"] hex_digit_plain(4) by fastforce
  show "CHR '']'' \<notin> set (string6 b)" using chars [of "CHR '']''"] hex_digit_plain(5) by fastforce
qed

lemma find_first:
  assumes "c \<in> set s" "P c" "\<forall>x \<in> set s. P x \<longrightarrow> x = c"
  shows "List.find P (s @ t) = Some c"
  using assms
proof (induction s)
  case (Cons x s)
  show ?case
  proof (cases "P x")
    case True
    then have "x = c" using bspec [OF Cons.prems(3), of x] by simp
    then show ?thesis using True by simp
  next
    case False
    then have "c \<in> set s" using Cons.prems(1,2) by auto
    moreover have "\<forall>x \<in> set s. P x \<longrightarrow> x = c" by (intro ballI) (rule bspec [OF Cons.prems(3)], simp)
    ultimately have "List.find P (s @ t) = Some c" by (rule Cons.IH [OF _ Cons.prems(2)])
    then show ?thesis using False by simp
  qed
qed simp

lemma parseIPv6_zone:
  assumes "parse6_body s = Some b" "CHR ''%'' \<notin> set s"
  shows "parseIPv6 (s @ zone_text z) = Some (Addr6 b z)"
proof -
  have "takeWhile (\<lambda>c. c \<noteq> CHR ''%'') (s @ zone_text z) = s" "dropWhile (\<lambda>c. c \<noteq> CHR ''%'') (s @ zone_text z) = zone_text z"
    using assms(2) by (auto simp: zone_text_def takeWhile_append dropWhile_append)
  then show ?thesis using assms(1) by (simp add: parseIPv6_def zone_text_def)
qed

lemma ParseAddr_String:
  assumes "addr_wf a" "a \<noteq> AddrZero"
  shows "ParseAddr (Addr_String a) = Some a"
proof (cases a)
  case (Addr4 b)
  have "List.find addr_mark (string4 b) = Some (CHR ''.'')"
  proof -
    have "CHR ''.'' \<in> set (string4 b)" by (simp add: string4_def)
    moreover have "\<forall>x \<in> set (string4 b). addr_mark x \<longrightarrow> x = CHR ''.''"
      using string4_plain [of b] by (auto simp: addr_mark_def)
    ultimately have "List.find addr_mark (string4 b @ []) = Some (CHR ''.'')"
      by (intro find_first) (simp_all only: addr_mark_def simp_thms)
    then show ?thesis by simp
  qed
  then show ?thesis using Addr4 assms parse4_string4 [of b]
    by (simp add: Addr_String_def ParseAddr_def parseIPv4_def addr_wf_def)
next
  case (Addr6 b z)
  have len: "length b = 16" using assms Addr6 by (simp add: addr_wf_def)
  show ?thesis
  proof (cases "Is4In6 a")
    case True
    then have "parse6_body (''::ffff:'' @ string4 (drop 12 b)) = Some b"
      using parse6_body_mapped [OF len] Addr6 by (simp add: Is4In6_def)
    from parseIPv6_zone [OF this, of z] show ?thesis
      using Addr6 True string4_plain [of "drop 12 b"] by (simp add: Addr_String_def ParseAddr_def addr_mark_def)
  next
    case False
    have "List.find addr_mark (string6 b @ zone_text z) = Some (CHR '':'')"
      using string6_chars [OF len] by (intro find_first) (auto simp: addr_mark_def)
    then show ?thesis using Addr6 False parseIPv6_zone [OF parse6_body_string6 [OF len], of z] string6_chars [OF len]
      by (simp add: Addr_String_def ParseAddr_def)
  qed
qed (use assms in simp)

section \<open>Addresses with ports\<close>

lemma split_last_append: "c \<notin> set q \<Longrightarrow> split_last c (p @ c # q) = Some (p, q)"
  by (simp add: split_last_def dropWhile_append takeWhile_append)

lemma ParseAddrPort_String:
  assumes "addr_wf (ap_addr p)" "ap_addr p \<noteq> AddrZero"
  shows "ParseAddrPort (AddrPort_String p) = Some p"
proof (cases "ap_addr p")
  case (Addr4 b)
  obtain c r where c: "string4 b = c # r" "c \<noteq> CHR ''[''" using string4_hd by blast
  have "splitAddrPort (AddrPort_String p) = Some (Addr_String (ap_addr p), Itoa (unat (ap_port p)), False)"
    using Addr4 c split_last_append [of "CHR '':''" "Itoa (unat (ap_port p))" "string4 b"]
    by (simp add: splitAddrPort_def AddrPort_String_def Addr_String_def)
  then show ?thesis using ParseAddr_String [OF assms] ParseUint16_Itoa [of "ap_port p"] Addr4
    by (simp add: ParseAddrPort_def)
next
  case (Addr6 b z)
  let ?t = "Addr_String (ap_addr p)"
  have "splitAddrPort (AddrPort_String p) = Some (?t, Itoa (unat (ap_port p)), True)"
    using Addr6 split_last_append [of "CHR '':''" "Itoa (unat (ap_port p))" "''['' @ ?t @ '']''"]
    by (simp add: splitAddrPort_def AddrPort_String_def butlast_append)
  then show ?thesis using ParseAddr_String [OF assms] ParseUint16_Itoa [of "ap_port p"] Addr6
    by (simp add: ParseAddrPort_def)
qed (use assms in simp)

section \<open>What the parsers return\<close>

lemma parse4_length: "parse4 s v d fs = Some b \<Longrightarrow> length fs \<le> 3 \<Longrightarrow> length b = 4"
  by (induction s v d fs rule: parse4.induct) (auto split: option.splits if_splits)

lemma parse6_result:
  "parse6 s ip ell = Some (s', ip', ell') \<Longrightarrow> even (length ip) \<Longrightarrow> length ip \<le> 16 \<Longrightarrow>
    (\<forall>e. ell = Some e \<longrightarrow> e \<le> length ip) \<Longrightarrow>
    length ip' \<le> 16 \<and> (\<forall>e. ell' = Some e \<longrightarrow> e \<le> length ip')"
proof (induction s ip ell rule: parse6.induct)
  case (1 s ip ell)
  show ?case
  proof (cases "16 \<le> length ip")
    case True
    then show ?thesis using "1.prems" by (subst (asm) parse6.simps) auto
  next
    case False
    then obtain v k rest where h: "hex_field s 0 0 = Some (v, k, rest)" "k \<noteq> 0"
      using "1.prems"(1) by (subst (asm) parse6.simps) (auto split: option.splits if_splits)
    have room: "length ip + 2 \<le> 16" using False "1.prems"(2) by presburger
    show ?thesis
    proof (cases "rest \<noteq> [] \<and> hd rest = CHR ''.''")
      case True
      then show ?thesis using "1.prems" False h parse4_length [of s 0 0 "[]"]
        by (subst (asm) parse6.simps) (fastforce split: option.splits if_splits)
    next
      case nodot: False
      let ?ip = "ip @ [of_nat (v div 256), of_nat v]"
      note step = "1.prems"(1) [unfolded parse6.simps [of s ip ell]]
      have ev: "even (length ?ip)" "length ?ip \<le> 16" "\<forall>e. ell = Some e \<longrightarrow> e \<le> length ?ip"
        using room "1.prems"(2,4) by auto
      consider "ip' = ?ip" "ell' = ell \<or> ell' = Some (length ?ip)"
        | r' where "rest = CHR '':'' # CHR '':'' # r'" "ell = None" "r' \<noteq> []" "parse6 r' ?ip (Some (length ?ip)) = Some (s', ip', ell')"
        | c r' where "rest = CHR '':'' # c # r'" "c \<noteq> CHR '':''" "parse6 (c # r') ?ip ell = Some (s', ip', ell')"
        using step False h nodot by (auto simp: Let_def split: list.splits if_splits)
      then show ?thesis
      proof cases
        case 1
        then show ?thesis using ev by auto
      next
        case 2
        then show ?thesis using "1.IH"(1) False h nodot ev by simp
      next
        case 3
        then show ?thesis using "1.IH"(2) False h nodot ev by simp
      qed
    qed
  qed
qed

lemma parse6_body_length:
  assumes "parse6_body s = Some b"
  shows "length b = 16"
proof -
  have ex: "length b = 16" if "expand6 (s', ip, ell) = Some b" "length ip \<le> 16" "\<forall>e. ell = Some e \<longrightarrow> e \<le> length ip" for s' ip ell
    using that by (auto simp: expand6_def split: if_splits option.splits)
  from assms consider "b = replicate 16 0" | t ell r where "ell = None \<or> ell = Some 0" "parse6 t [] ell = Some r" "expand6 r = Some b"
    by (auto simp: parse6_body_def Option.bind_eq_Some_conv split: if_splits) blast+
  then show ?thesis
  proof cases
    case (2 t ell r)
    obtain s' ip e where r: "r = (s', ip, e)" by (cases r)
    show ?thesis using ex [of s' ip e] parse6_result [of t "[]" ell s' ip e] 2 r by auto
  qed simp
qed

lemma ParseAddr_wf:
  assumes "ParseAddr s = Some a"
  shows "addr_wf a \<and> a \<noteq> AddrZero"
  using assms parse4_length [of s 0 0 "[]"] parse6_body_length
  by (auto simp: ParseAddr_def parseIPv4_def parseIPv6_def Let_def addr_wf_def split: option.splits if_splits)

lemma ParseAddrPort_wf:
  assumes "ParseAddrPort s = Some p"
  shows "addr_wf (ap_addr p) \<and> ap_addr p \<noteq> AddrZero"
  using assms ParseAddr_wf by (auto simp: ParseAddrPort_def split: option.splits if_splits)

section \<open>Printers with parsers\<close>

text \<open>
  What the endpoints rely on: a parser that reads back what the printer writes and returns valid
  values only.
\<close>

locale text_codec =
  fixes print :: "'a \<Rightarrow> string"
    and parse :: "string \<Rightarrow> 'a option"
    and valid :: "'a \<Rightarrow> bool"
  assumes parse_print: "valid x \<Longrightarrow> parse (print x) = Some x"
    and parse_valid: "parse s = Some x \<Longrightarrow> valid x"
begin

lemma parse_range: "(\<exists>s. parse s = Some x) \<longleftrightarrow> valid x"
  using parse_print parse_valid by blast

lemma print_inj: "valid x \<Longrightarrow> valid y \<Longrightarrow> print x = print y \<Longrightarrow> x = y"
  using parse_print by (metis option.inject)

lemma parse_print_parse: "parse s = Some x \<Longrightarrow> parse (print x) = parse s"
  by (simp add: parse_print parse_valid)

end

interpretation port_text: text_codec "\<lambda>p. Itoa (unat p)" ParseUint16 "\<lambda>p. True"
  by unfold_locales (simp_all add: ParseUint16_Itoa)

interpretation addr_text: text_codec Addr_String ParseAddr "\<lambda>a. addr_wf a \<and> a \<noteq> AddrZero"
  by unfold_locales (simp_all add: ParseAddr_String ParseAddr_wf)

interpretation addr_port_text: text_codec AddrPort_String ParseAddrPort "\<lambda>p. addr_wf (ap_addr p) \<and> ap_addr p \<noteq> AddrZero"
  by unfold_locales (simp_all add: ParseAddrPort_String ParseAddrPort_wf)

end
