(* ===== verification/Endpoint_Text.thy ===== *)
theory Endpoint_Text
  imports Netip_Text_Correct Sticky Win_Ring_Bind
begin

text \<open>
  The textual form of endpoints: \<open>ParseEndpoint\<close>, \<open>DstToString\<close> and \<open>SrcToString\<close> of the standard bind
  (\<open>bind_std.go\<close>, \<open>sticky_linux.go\<close>, \<open>sticky_default.go\<close>) and of the Windows ring bind
  (\<open>bind_windows.go\<close>). The Windows resolver \<open>GetAddrInfoW\<close> is a parameter.
\<close>

section \<open>The standard bind\<close>

definition ParseEndpoint :: "string \<Rightarrow> goerror + std_endpoint" where
  "ParseEndpoint s =
     (case ParseAddrPort s of
        None \<Rightarrow> Inl (Opaque ''ParseAddrPort'')
      | Some e \<Rightarrow> Inr \<lparr>AddrPort = e, src = None\<rparr>)"

definition DstToString :: "std_endpoint \<Rightarrow> string" where
  "DstToString e = AddrPort_String (AddrPort e)"

definition SrcToString :: "goos \<Rightarrow> cmsg_abi \<Rightarrow> std_endpoint \<Rightarrow> string" where
  "SrcToString p A e = (if p = Linux then Addr_String (SrcIP p A e) else '''')"

text \<open>\<open>ErrUDPGSODisabled.Error\<close>\<close>

definition ErrUDPGSODisabled_Error :: "string \<Rightarrow> string" where
  "ErrUDPGSODisabled_Error onLaddr =
     ''disabled UDP GSO on '' @ onLaddr @ '', NIC(s) may not support checksum offload''"

section \<open>The Windows ring bind\<close>

text \<open>What \<open>GetAddrInfoW\<close> finds: the family, and the bytes of the socket address.\<close>

record addrinfo =
  ai_Family :: "32 word"
  ai_Addr :: "byte list"

type_synonym resolver = "string \<Rightarrow> string \<Rightarrow> goerror + addrinfo"

text \<open>The first 32 bytes of memory as an endpoint; the family is in the byte order of the machine.\<close>

definition endpoint_at :: "byte list \<Rightarrow> win_endpoint" where
  "endpoint_at b = \<lparr>we_family = ucast (b ! 0) + 256 * ucast (b ! 1), we_data = drop 2 b\<rparr>"

definition win_ParseEndpoint :: "resolver \<Rightarrow> string \<Rightarrow> goerror + win_endpoint" where
  "win_ParseEndpoint GetAddrInfoW s =
     (case SplitHostPort s of
        None \<Rightarrow> Inl (Opaque ''SplitHostPort'')
      | Some (host, port) \<Rightarrow>
          if CHR 0x00 \<in> set host then Inl EINVAL
          else if CHR 0x00 \<in> set port then Inl EINVAL
          else case GetAddrInfoW host port of
            Inl err \<Rightarrow> Inl err
          | Inr addrinfo \<Rightarrow>
              if ai_Family addrinfo \<noteq> ucast AF_INET \<and> ai_Family addrinfo \<noteq> ucast AF_INET6 \<or>
                 length (ai_Addr addrinfo) > unat sizeofEndpoint
              then Inl (Opaque ''ERROR_INVALID_ADDRESS'')
              else Inr (endpoint_at (ai_Addr addrinfo @ replicate (unat sizeofEndpoint - length (ai_Addr addrinfo)) 0)))"

definition be_port :: "byte list \<Rightarrow> port" where
  "be_port d = 256 * ucast (d ! 0) + ucast (d ! 1)"

definition scope_of :: "byte list \<Rightarrow> nat" where
  "scope_of d = le_val (take 4 (drop 22 d))"

definition scope_zone :: "nat \<Rightarrow> string" where
  "scope_zone scope = (if scope > 0 then Itoa scope else '''')"

definition win_DstToString :: "win_endpoint \<Rightarrow> string" where
  "win_DstToString e =
     (if we_family e = AF_INET
      then AddrPort_String \<lparr>ap_addr = Addr4 (take 4 (drop 2 (we_data e))), ap_port = be_port (we_data e)\<rparr>
      else if we_family e = AF_INET6
      then AddrPort_String \<lparr>ap_addr = WithZone (Addr6 (take 16 (drop 6 (we_data e))) '''') (scope_zone (scope_of (we_data e))),
                            ap_port = be_port (we_data e)\<rparr>
      else '''')"

section \<open>Round trips\<close>

text \<open>
  C38. The endpoints \<open>StdNetBind.ParseEndpoint\<close> can return are exactly those with a proper IPv4 or IPv6
  address, of any port and zone, and no cached source; and parsing what \<open>DstToString\<close> prints for
  an endpoint gives that address, zone and port back.
\<close>

theorem endpoint_text_roundtrip:
  "((\<exists>s. ParseEndpoint s = Inr ep) \<longleftrightarrow> addr_wf (DstIP ep) \<and> DstIP ep \<noteq> AddrZero \<and> src ep = None) \<and>
   (addr_wf (DstIP ep) \<and> DstIP ep \<noteq> AddrZero \<longrightarrow> ParseEndpoint (DstToString ep) = Inr (ep\<lparr>src := None\<rparr>))"
proof -
  have parsed: "ParseEndpoint (DstToString ep) = Inr (ep\<lparr>src := None\<rparr>)" if "addr_wf (DstIP ep)" "DstIP ep \<noteq> AddrZero"
    using addr_port_text.parse_print [of "AddrPort ep"] that by (simp add: ParseEndpoint_def DstToString_def DstIP_def)
  moreover have "addr_wf (DstIP ep) \<and> DstIP ep \<noteq> AddrZero \<and> src ep = None" if "ParseEndpoint s = Inr ep" for s
    using that addr_port_text.parse_valid [of s] by (auto simp: ParseEndpoint_def DstIP_def split: option.splits)
  moreover have "\<exists>s. ParseEndpoint s = Inr ep" if "addr_wf (DstIP ep)" "DstIP ep \<noteq> AddrZero" "src ep = None"
    using parsed [OF that(1,2)] that(3) by (intro exI [of _ "DstToString ep"]) simp
  ultimately show ?thesis by blast
qed

theorem endpoint_text_roundtrip_witness:
  "ParseEndpoint (DstToString \<lparr>AddrPort = \<lparr>ap_addr = Addr6 (replicate 15 0 @ [1]) ''eth0'', ap_port = 51820\<rparr>, src = None\<rparr>) =
     Inr \<lparr>AddrPort = \<lparr>ap_addr = Addr6 (replicate 15 0 @ [1]) ''eth0'', ap_port = 51820\<rparr>, src = None\<rparr>"
  using endpoint_text_roundtrip [of "\<lparr>AddrPort = \<lparr>ap_addr = Addr6 (replicate 15 0 @ [1]) ''eth0'', ap_port = 51820\<rparr>, src = None\<rparr>"]
  by (simp add: DstIP_def addr_wf_def)

text \<open>How Windows lays out the addresses it resolves from numeric text.\<close>

definition sockaddr_in :: "byte list \<Rightarrow> port \<Rightarrow> byte list" where
  "sockaddr_in b p = le16 AF_INET @ be16 p @ b @ replicate 8 0"

definition sockaddr_in6 :: "byte list \<Rightarrow> port \<Rightarrow> nat \<Rightarrow> byte list" where
  "sockaddr_in6 b p scope = le16 AF_INET6 @ be16 p @ replicate 4 0 @ b @ le_bytes 4 scope"

definition resolves_numeric :: "resolver \<Rightarrow> bool" where
  "resolves_numeric gai \<longleftrightarrow>
     (\<forall>b p. length b = 4 \<longrightarrow> gai (string4 b) (Itoa (unat (p :: port))) = Inr \<lparr>ai_Family = ucast AF_INET, ai_Addr = sockaddr_in b p\<rparr>) \<and>
     (\<forall>b p scope. length b = 16 \<and> scope < 256 ^ 4 \<longrightarrow> gai (Addr_String (Addr6 b (scope_zone scope))) (Itoa (unat (p :: port))) =
        Inr \<lparr>ai_Family = ucast AF_INET6, ai_Addr = sockaddr_in6 b p scope\<rparr>)"

lemma SplitHostPort_plain:
  assumes "CHR '':'' \<notin> set h" "CHR ''['' \<notin> set h" "CHR '']'' \<notin> set h" "h \<noteq> []"
  shows "SplitHostPort (h @ '':'' @ Itoa n) = Some (h, Itoa n)"
  using assms split_last_append [of "CHR '':''" "Itoa n" h] by (cases h) (auto simp: SplitHostPort_def)

lemma SplitHostPort_bracket:
  assumes "CHR ''['' \<notin> set h" "CHR '']'' \<notin> set h"
  shows "SplitHostPort (''['' @ h @ '']:'' @ Itoa n) = Some (h, Itoa n)"
proof -
  have "takeWhile (\<lambda>c. c \<noteq> CHR '']'') (h @ CHR '']'' # CHR '':'' # Itoa n) = h"
    using assms(2) by (subst takeWhile_append2) auto
  then show ?thesis
    using assms split_last_append [of "CHR '':''" "Itoa n" "''['' @ h @ '']''"] by (simp add: SplitHostPort_def Let_def)
qed

lemma be_port_be16: "be_port (be16 p @ r) = p"
proof -
  have "unat (ucast (drop_bit 8 p) :: byte) = unat p div 256" "unat (ucast p :: byte) = unat p mod 256"
    using unsigned_less [of p, where ?'a = nat]
    by (simp_all add: unsigned_ucast_eq unat_drop_bit_eq drop_bit_eq_div take_bit_eq_mod unat_div_distrib less_mult_imp_div_less)
  then have "256 * (of_nat (unat (ucast (drop_bit 8 p) :: byte)) :: port) + of_nat (unat (ucast p :: byte)) =
      of_nat (256 * (unat p div 256) + unat p mod 256)"
    by (simp only: of_nat_add of_nat_mult of_nat_numeral)
  then have "256 * (ucast (ucast (drop_bit 8 p) :: byte) :: port) + ucast (ucast p :: byte) = p" by simp
  then show ?thesis by (simp add: be_port_def be16_def)
qed

lemma win_text_roundtrip4:
  assumes "resolves_numeric gai" "length b = 4"
  shows "win_ParseEndpoint gai (win_DstToString (endpoint_at (sockaddr_in b p @ replicate 16 0))) =
    Inr (endpoint_at (sockaddr_in b p @ replicate 16 0))"
proof -
  let ?e = "endpoint_at (sockaddr_in b p @ replicate 16 0)"
  have "we_family ?e = AF_INET" by (simp add: endpoint_at_def sockaddr_in_def le16_def AF_INET_def)
  moreover have "we_data ?e = be16 p @ b @ replicate 24 0"
    by (simp add: endpoint_at_def sockaddr_in_def le16_def flip: replicate_add)
  ultimately have "win_DstToString ?e = string4 b @ '':'' @ Itoa (unat p)"
    using assms(2) be_port_be16 [of p "b @ replicate 24 0"] by (simp add: win_DstToString_def AddrPort_String_def be16_def)
  moreover have "SplitHostPort (string4 b @ '':'' @ Itoa (unat p)) = Some (string4 b, Itoa (unat p))"
    using string4_plain [of b] string4_hd [of b] by (intro SplitHostPort_plain) auto
  moreover have "CHR 0x00 \<notin> set (string4 b)" "CHR 0x00 \<notin> set (Itoa (unat p))"
    by (auto simp: string4_def digit_value_def dest!: Itoa_digits)
  ultimately show ?thesis
    using assms by (simp add: win_ParseEndpoint_def resolves_numeric_def sockaddr_in_def le16_def be16_def sizeofEndpoint_def)
qed

lemma scope_text_plain:
  assumes "length b = 16"
  shows "CHR ''['' \<notin> set (Addr_String (Addr6 b (scope_zone n)))" "CHR '']'' \<notin> set (Addr_String (Addr6 b (scope_zone n)))"
  using string6_chars(4,5) [OF assms] string4_plain(3,4) [of "drop 12 b"]
  by (auto simp: Addr_String_def zone_text_def scope_zone_def)

lemma scope_text_no_nul:
  assumes "length b = 16"
  shows "CHR 0x00 \<notin> set (Addr_String (Addr6 b (scope_zone n)))"
proof -
  have "CHR 0x00 \<notin> set (colon_text gs)" for gs
    using colon_text_chars [of "CHR 0x00" gs] hex_digit_plain(6) by fastforce
  moreover have "CHR 0x00 \<notin> set (Itoa k)" for k by (auto simp: digit_value_def dest!: Itoa_digits)
  ultimately show ?thesis
    by (auto simp: Addr_String_def zone_text_def scope_zone_def string4_def string6_def Let_def split: prod.splits if_splits)
qed

lemma win_text_roundtrip6:
  assumes "resolves_numeric gai" "length b = 16" "scope < 256 ^ 4"
  shows "win_ParseEndpoint gai (win_DstToString (endpoint_at (sockaddr_in6 b p scope @ replicate 4 0))) =
    Inr (endpoint_at (sockaddr_in6 b p scope @ replicate 4 0))"
proof -
  let ?e = "endpoint_at (sockaddr_in6 b p scope @ replicate 4 0)" and ?h = "Addr_String (Addr6 b (scope_zone scope))"
  have "we_family ?e = AF_INET6" "AF_INET6 \<noteq> AF_INET"
    by (simp_all add: endpoint_at_def sockaddr_in6_def le16_def AF_INET6_def AF_INET_def)
  moreover have d: "we_data ?e = be16 p @ replicate 4 0 @ b @ le_bytes 4 scope @ replicate 4 0"
    by (simp add: endpoint_at_def sockaddr_in6_def le16_def)
  moreover have "scope_of (we_data ?e) = scope" "take 16 (drop 6 (we_data ?e)) = b"
    unfolding d scope_of_def using assms(2,3) le_val_bytes [of scope 4] by (simp_all add: be16_def)
  ultimately have "win_DstToString ?e = ''['' @ ?h @ '']:'' @ Itoa (unat p)"
    using be_port_be16 [of p "replicate 4 0 @ b @ le_bytes 4 scope @ replicate 4 0"]
    by (simp add: win_DstToString_def AddrPort_String_def WithZone_def)
  moreover have "SplitHostPort (''['' @ ?h @ '']:'' @ Itoa (unat p)) = Some (?h, Itoa (unat p))"
    using scope_text_plain [OF assms(2)] by (intro SplitHostPort_bracket) auto
  moreover have "CHR 0x00 \<notin> set ?h" "CHR 0x00 \<notin> set (Itoa (unat p))"
    using scope_text_no_nul [OF assms(2)] by (auto simp: digit_value_def dest!: Itoa_digits)
  moreover have "gai ?h (Itoa (unat p)) = Inr \<lparr>ai_Family = ucast AF_INET6, ai_Addr = sockaddr_in6 b p scope\<rparr>"
    using assms by (simp add: resolves_numeric_def)
  moreover have "length (sockaddr_in6 b p scope) = 28" using assms(2) by (simp add: sockaddr_in6_def le16_def be16_def)
  ultimately show ?thesis by (simp add: win_ParseEndpoint_def sizeofEndpoint_def)
qed

end
