(* ===== verification/Channel_Bind.thy ===== *)
theory Channel_Bind
  imports Std_Bind Netip_Text_Correct
begin

text \<open>
  \<open>bindtest/bindtest.go\<close>: a pair of binds connected by four buffered Go channels. The channels are
  shared state; a bind refers to them by number. An operation on a channel that would block for
  want of the other side is \<open>Diverge\<close>; where \<open>select\<close> has several ready cases the choice is an
  argument.
\<close>

section \<open>State\<close>

type_synonym chan = nat

text \<open>The contents of the channels, oldest first.\<close>

type_synonym chan_state = "chan \<Rightarrow> byte list list"

definition chan_capacity :: nat where
  "chan_capacity = 8192"

text \<open>\<open>closeSignal\<close>: nil before the first \<open>Open\<close>, then open or closed; nothing is ever sent on it.\<close>

datatype close_signal = NilSignal | OpenSignal | ClosedSignal

type_synonym channel_endpoint = "16 word"

record channel_bind =
  cb_rx4 :: chan
  cb_tx4 :: chan
  cb_rx6 :: chan
  cb_tx6 :: chan
  cb_closeSignal :: close_signal
  cb_source4 :: channel_endpoint
  cb_source6 :: channel_endpoint
  cb_target4 :: channel_endpoint
  cb_target6 :: channel_endpoint

text \<open>The channels \<open>arx4\<close>, \<open>brx4\<close>, \<open>arx6\<close> and \<open>brx6\<close> are numbered in the order they are made.\<close>

definition NewChannelBinds :: "channel_bind \<times> channel_bind" where
  "NewChannelBinds =
     (\<lparr>cb_rx4 = 0, cb_tx4 = 1, cb_rx6 = 2, cb_tx6 = 3, cb_closeSignal = NilSignal,
       cb_source4 = 2, cb_source6 = 4, cb_target4 = 1, cb_target6 = 3\<rparr>,
      \<lparr>cb_rx4 = 1, cb_tx4 = 0, cb_rx6 = 3, cb_tx6 = 2, cb_closeSignal = NilSignal,
       cb_source4 = 1, cb_source6 = 3, cb_target4 = 2, cb_target6 = 4\<rparr>)"

section \<open>Endpoints\<close>

definition channel_DstToString :: "channel_endpoint \<Rightarrow> string" where
  "channel_DstToString c = ''127.0.0.1:'' @ Itoa (unat c)"

definition channel_DstToBytes :: "channel_endpoint \<Rightarrow> byte list" where
  "channel_DstToBytes c = [ucast c]"

definition channel_DstIP :: "channel_endpoint \<Rightarrow> addr" where
  "channel_DstIP c = Addr4 [127, 0, 0, 1]"

definition channel_SrcIP :: "channel_endpoint \<Rightarrow> addr" where
  "channel_SrcIP c = AddrZero"

definition channel_SrcToString :: "channel_endpoint \<Rightarrow> string" where
  "channel_SrcToString c = ''''"

definition channel_ClearSrc :: "channel_endpoint \<Rightarrow> channel_endpoint" where
  "channel_ClearSrc c = c"

definition channel_ParseEndpoint :: "string \<Rightarrow> goerror + channel_endpoint" where
  "channel_ParseEndpoint s =
     (case ParseAddrPort s of None \<Rightarrow> Inl (Opaque ''ParseAddrPort'') | Some a \<Rightarrow> Inr (ap_port a))"

text \<open>Endpoints are numbers, printed as ports of the loopback address.\<close>

lemma loopback_text: "string4 [127, 0, 0, 1] = ''127.0.0.1''"
proof -
  have "Itoa 127 = ''127''" "Itoa 0 = ''0''" "Itoa 1 = ''1''" by code_simp+
  then show ?thesis by (simp add: string4_def)
qed

lemma channel_ParseEndpoint_port: "channel_ParseEndpoint (''127.0.0.1:'' @ Itoa (unat p)) = Inr p"
  using addr_port_text.parse_print [of "\<lparr>ap_addr = Addr4 [127, 0, 0, 1], ap_port = p\<rparr>"] loopback_text
  by (simp add: channel_ParseEndpoint_def AddrPort_String_def addr_wf_def)

lemma channel_text_roundtrip: "channel_ParseEndpoint (channel_DstToString c) = Inr c"
  using channel_ParseEndpoint_port [of c] by (simp add: channel_DstToString_def)

text \<open>An \<open>Endpoint\<close> argument: the type assertion in \<open>Send\<close> panics on another implementation.\<close>

datatype channel_endpoint_arg = ChannelEndpoint channel_endpoint | NotChannelEndpoint

section \<open>Operations\<close>

text \<open>\<open>Open\<close> returns the receive functions of both channels; \<open>coin\<close> is the random bit.\<close>

definition channel_Open :: "bool \<Rightarrow> channel_bind \<Rightarrow> (chan list \<times> port) \<times> channel_bind" where
  "channel_Open coin c =
     (([cb_rx4 c, cb_rx6 c], if coin then cb_source6 c else cb_source4 c), c\<lparr>cb_closeSignal := OpenSignal\<rparr>)"

definition channel_Close :: "channel_bind \<Rightarrow> channel_bind" where
  "channel_Close c =
     (case cb_closeSignal c of
        NilSignal \<Rightarrow> c
      | ClosedSignal \<Rightarrow> c
      | OpenSignal \<Rightarrow> c\<lparr>cb_closeSignal := ClosedSignal\<rparr>)"

definition channel_BatchSize :: nat where
  "channel_BatchSize = 1"

definition channel_SetMark :: "32 word \<Rightarrow> goerror option" where
  "channel_SetMark mark = None"

record channel_received =
  cr_n :: nat
  cr_err :: "goerror option"
  cr_sizes :: "nat list"
  cr_eps :: "channel_endpoint option list"
  cr_mem :: store
  cr_chans :: chan_state

text \<open>The function made by \<open>makeReceiveFunc(ch)\<close>; \<open>pick\<close> decides between two ready cases.\<close>

definition channel_receive ::
  "bool \<Rightarrow> channel_bind \<Rightarrow> chan \<Rightarrow> slice list \<Rightarrow> nat list \<Rightarrow> channel_endpoint option list \<Rightarrow> store \<Rightarrow> chan_state
    \<Rightarrow> channel_received outcome" where
  "channel_receive pick c ch bufs sizes eps h cs =
     (if cb_closeSignal c = ClosedSignal \<and> (pick \<or> cs ch = [])
      then Ret \<lparr>cr_n = 0, cr_err = Some NetErrClosed, cr_sizes = sizes, cr_eps = eps, cr_mem = h, cr_chans = cs\<rparr>
      else case cs ch of
        [] \<Rightarrow> Diverge
      | rx # rest \<Rightarrow>
          obind (idx bufs 0) (\<lambda>buf.
            let copied = min (slen buf) (length rx);
                h' = sl_write h (sarr buf) (soff buf) (take copied rx)
            in obind (upd sizes 0 copied) (\<lambda>sizes'.
                 obind (upd eps 0 (Some (cb_target6 c))) (\<lambda>eps'.
                   Ret \<lparr>cr_n = 1, cr_err = None, cr_sizes = sizes', cr_eps = eps', cr_mem = h', cr_chans = cs(ch := rest)\<rparr>))))"

text \<open>Sending on a buffered channel: blocks when it is full.\<close>

definition chan_send :: "chan \<Rightarrow> byte list \<Rightarrow> chan_state \<Rightarrow> chan_state outcome" where
  "chan_send ch b cs = (if length (cs ch) < chan_capacity then Ret (cs(ch := cs ch @ [b])) else Diverge)"

fun channel_Send ::
  "channel_bind \<Rightarrow> byte list list \<Rightarrow> channel_endpoint_arg \<Rightarrow> chan_state \<Rightarrow> (goerror option \<times> chan_state) outcome" where
  "channel_Send c [] ep cs = Ret (None, cs)"
| "channel_Send c (b # bufs) ep cs =
     (if cb_closeSignal c = ClosedSignal then Ret (Some NetErrClosed, cs)
      else case ep of
        NotChannelEndpoint \<Rightarrow> Panic BadTypeAssertion
      | ChannelEndpoint e \<Rightarrow>
          if e = cb_target4 c then obind (chan_send (cb_tx4 c) b cs) (channel_Send c bufs ep)
          else if e = cb_target6 c then obind (chan_send (cb_tx6 c) b cs) (channel_Send c bufs ep)
          else Ret (Some OsErrInvalid, cs))"

section \<open>Delivery\<close>

text \<open>The channel a bind sends on for a target, and the datagrams that get through.\<close>

definition tx_for :: "channel_bind \<Rightarrow> channel_endpoint \<Rightarrow> chan option" where
  "tx_for c e = (if e = cb_target4 c then Some (cb_tx4 c) else if e = cb_target6 c then Some (cb_tx6 c) else None)"

lemma channel_Send_queues:
  assumes "cb_closeSignal c \<noteq> ClosedSignal" "tx_for c e = Some ch"
  shows "length (cs ch) + length bufs \<le> chan_capacity \<Longrightarrow>
    channel_Send c bufs (ChannelEndpoint e) cs = Ret (None, cs(ch := cs ch @ bufs))"
proof (induction bufs arbitrary: cs)
  case (Cons b bufs)
  let ?cs = "cs(ch := cs ch @ [b])"
  have "chan_send ch b cs = Ret ?cs" using Cons.prems by (simp add: chan_send_def)
  moreover have "channel_Send c bufs (ChannelEndpoint e) ?cs = Ret (None, ?cs(ch := ?cs ch @ bufs))"
    using Cons.prems by (intro Cons.IH) simp
  ultimately show ?case
    using assms by (auto simp: tx_for_def fun_eq_iff split: if_splits)
qed simp

lemma channel_receive_next:
  assumes "cb_closeSignal c \<noteq> ClosedSignal" "cs ch = d # rest"
  shows "channel_receive pick c ch [buf] [n] [e] h cs =
    Ret \<lparr>cr_n = 1, cr_err = None, cr_sizes = [min (slen buf) (length d)], cr_eps = [Some (cb_target6 c)],
         cr_mem = sl_write h (sarr buf) (soff buf) (take (min (slen buf) (length d)) d), cr_chans = cs(ch := rest)\<rparr>"
  using assms by (simp add: channel_receive_def Let_def)

text \<open>\<open>n\<close> receive calls with the same buffer, and what each left in it.\<close>

fun receive_all :: "channel_bind \<Rightarrow> chan \<Rightarrow> slice \<Rightarrow> nat \<Rightarrow> store \<Rightarrow> chan_state \<Rightarrow> (byte list list \<times> chan_state) outcome" where
  "receive_all c ch buf 0 h cs = Ret ([], cs)"
| "receive_all c ch buf (Suc n) h cs =
     obind (channel_receive False c ch [buf] [0] [None] h cs) (\<lambda>r.
       let d = sl_read (cr_mem r) (buf\<lparr>slen := cr_sizes r ! 0\<rparr>)
       in obind (receive_all c ch buf n (cr_mem r) (cr_chans r)) (\<lambda>(ds, cs'). Ret (d # ds, cs')))"

lemma receive_all_queue:
  assumes "cb_closeSignal c \<noteq> ClosedSignal"
  shows "cs ch = ds @ rest \<Longrightarrow> sl_wf h buf \<Longrightarrow> \<forall>d \<in> set ds. length d \<le> slen buf \<Longrightarrow>
    receive_all c ch buf (length ds) h cs = Ret (ds, cs(ch := rest))"
proof (induction ds arbitrary: h cs)
  case (Cons d ds)
  let ?h = "sl_write h (sarr buf) (soff buf) d"
  have len: "min (slen buf) (length d) = length d" using Cons.prems(3) by simp
  have room: "soff buf + length d \<le> length (arrs h (sarr buf))" using Cons.prems(2,3) by (auto simp: sl_wf_def)
  have "receive_all c ch buf (length ds) ?h (cs(ch := ds @ rest)) = Ret (ds, cs(ch := rest))"
    using Cons.IH [of "cs(ch := ds @ rest)" ?h] Cons.prems room by (simp add: fun_upd_def cong: if_cong)
  moreover have "sl_read ?h (buf\<lparr>slen := length d\<rparr>) = d"
    using room by (simp add: sl_read_def read_overwrite_at)
  moreover have "channel_receive False c ch [buf] [0] [None] h cs =
      Ret \<lparr>cr_n = 1, cr_err = None, cr_sizes = [length d], cr_eps = [Some (cb_target6 c)],
           cr_mem = ?h, cr_chans = cs(ch := ds @ rest)\<rparr>"
    using channel_receive_next [OF assms, of cs ch d "ds @ rest" False buf 0 None h] Cons.prems(1) len by simp
  ultimately show ?case by (simp add: Let_def fun_eq_iff)
qed (simp add: fun_eq_iff)

end
