(* ===== verification/Pingpong.thy ===== *)
theory Pingpong
  imports Channel_Bind
begin

text \<open>
  \<open>examples/udp_pingpong/main.go\<close>: the checks on the configuration, the task groups,
  the scenarios, the payloads, the receive loop, and sessions over the binds of \<open>bindtest\<close>. The native
  and loopback scenarios run the same session code over networks of other packages.
\<close>

section \<open>Configuration\<close>

definition maxUDPPayload :: nat where
  "maxUDPPayload = 65507"

record config =
  cfg_mode :: string
  cfg_sessions :: int
  cfg_roundTrips :: int
  cfg_payloadSize :: int

text \<open>The names of \<open>scenarios\<close>.\<close>

definition scenarios :: "string list" where
  "scenarios = [''channel'', ''native'', ''loopback'']"

definition selectScenarios :: "string \<Rightarrow> goerror + string list" where
  "selectScenarios mode =
     (if mode = ''all'' then Inr scenarios
      else case List.find (\<lambda>sc. sc = mode) scenarios of
             Some sc \<Rightarrow> Inr [sc]
           | None \<Rightarrow> Inl (Opaque (''unknown mode '' @ mode)))"

text \<open>What \<open>run\<close> checks before the first scenario: the error, or the scenarios it goes on to run.\<close>

definition run_checks :: "config \<Rightarrow> goerror + string list" where
  "run_checks cfg =
     (if cfg_sessions cfg \<le> 0 then Inl (Opaque ''sessions must be positive'')
      else if cfg_roundTrips cfg \<le> 0 then Inl (Opaque ''round-trips must be positive'')
      else if cfg_payloadSize cfg < 16 then Inl (Opaque ''payload-size must be at least 16 bytes'')
      else case selectScenarios (cfg_mode cfg) of
             Inl err \<Rightarrow> Inl err
           | Inr selected \<Rightarrow>
               if cfg_payloadSize cfg > int maxUDPPayload \<and> (\<exists>sc \<in> set selected. sc \<noteq> ''channel'')
               then Inl (Opaque ''payload-size exceeds max UDP payload'')
               else Inr selected)"

section \<open>Task groups\<close>

definition ContextCanceled :: goerror where
  "ContextCanceled = Opaque ''context canceled''"

text \<open>A context: once it is done, its \<open>Err()\<close> and its \<open>context.Cause\<close>.\<close>

type_synonym ctx = "(goerror \<times> goerror) option"

record task_group =
  tg_ctx :: ctx
  tg_err :: "goerror option"

definition newTaskGroup :: "ctx \<Rightarrow> task_group" where
  "newTaskGroup parent = \<lparr>tg_ctx = parent, tg_err = None\<rparr>"

text \<open>\<open>cancel(err)\<close> has no effect on a context that is done.\<close>

definition tg_fail :: "goerror \<Rightarrow> task_group \<Rightarrow> task_group" where
  "tg_fail err g =
     (if tg_err g \<noteq> None then g
      else g\<lparr>tg_err := Some err, tg_ctx := (if tg_ctx g = None then Some (ContextCanceled, err) else tg_ctx g)\<rparr>)"

text \<open>The goroutine started by \<open>Go\<close>, once \<open>fn\<close> has returned \<open>err\<close>.\<close>

definition tg_ends :: "goerror option \<Rightarrow> task_group \<Rightarrow> task_group" where
  "tg_ends err g =
     (case err of Some e \<Rightarrow> if errors_Is e ContextCanceled then g else tg_fail e g | None \<Rightarrow> g)"

text \<open>\<open>Wait\<close>, once every goroutine of the group is done.\<close>

definition tg_Wait :: "task_group \<Rightarrow> goerror option" where
  "tg_Wait g =
     (if tg_err g \<noteq> None then tg_err g
      else case tg_ctx g of
             Some (_, cause) \<Rightarrow> if errors_Is cause ContextCanceled then None else Some cause
           | None \<Rightarrow> None)"

lemma tg_first_error:
  assumes "tg_err g = None" "\<not> errors_Is e ContextCanceled"
  shows "tg_Wait (fold tg_ends errs (tg_ends (Some e) g)) = Some e"
proof -
  have keep: "tg_err (fold tg_ends errs g') = Some e" if "tg_err g' = Some e" for errs g'
    using that by (induction errs arbitrary: g') (auto simp: tg_ends_def tg_fail_def split: option.splits)
  have "tg_err (tg_ends (Some e) g) = Some e" using assms by (simp add: tg_ends_def tg_fail_def)
  from keep [OF this, of errs] show ?thesis by (simp add: tg_Wait_def)
qed

section \<open>Scenarios\<close>

text \<open>
  \<open>runScenario\<close>, given what its sessions return in the order they end. The sessions run in one task
  group, whose context is that of the scenario.
\<close>

definition runScenario :: "ctx \<Rightarrow> goerror option list \<Rightarrow> goerror option" where
  "runScenario ctx results = tg_Wait (fold tg_ends results (newTaskGroup ctx))"

text \<open>The loop of \<open>run\<close> over the selected scenarios, and \<open>run\<close>, given what each scenario returns.\<close>

fun run_scenarios :: "(string \<Rightarrow> goerror option) \<Rightarrow> string list \<Rightarrow> goerror option" where
  "run_scenarios outcome_of [] = None"
| "run_scenarios outcome_of (sc # scs) =
     (case outcome_of sc of Some err \<Rightarrow> Some (Wrapped sc err) | None \<Rightarrow> run_scenarios outcome_of scs)"

definition run :: "(string \<Rightarrow> goerror option) \<Rightarrow> config \<Rightarrow> goerror option" where
  "run outcome_of cfg =
     (case run_checks cfg of Inl err \<Rightarrow> Some err | Inr selected \<Rightarrow> run_scenarios outcome_of selected)"

lemma tg_all_quiet:
  assumes "\<forall>e. Some e \<in> set results \<longrightarrow> errors_Is e ContextCanceled"
  shows "fold tg_ends results g = g"
  using assms by (induction results) (auto simp: tg_ends_def split: option.splits)

text \<open>A scenario whose context is not done succeeds if and only if no session fails other than by cancellation.\<close>

lemma runScenario_ok:
  "runScenario None results = None \<longleftrightarrow> (\<forall>e. Some e \<in> set results \<longrightarrow> errors_Is e ContextCanceled)"
proof
  assume none: "runScenario None results = None"
  show "\<forall>e. Some e \<in> set results \<longrightarrow> errors_Is e ContextCanceled"
  proof (rule ccontr)
    assume "\<not> ?thesis"
    then have "\<exists>x \<in> set results. \<exists>e. x = Some e \<and> \<not> errors_Is e ContextCanceled" by auto
    from split_list_first_prop [OF this] obtain pre e post
      where r: "results = pre @ Some e # post" "\<not> errors_Is e ContextCanceled"
        "\<forall>x \<in> set pre. \<not> (\<exists>e. x = Some e \<and> \<not> errors_Is e ContextCanceled)" by blast
    have "fold tg_ends pre (newTaskGroup None) = newTaskGroup None" using r(3) by (intro tg_all_quiet) auto
    then have "runScenario None results = Some e"
      using tg_first_error [of "newTaskGroup None" e post] r by (simp add: runScenario_def newTaskGroup_def)
    then show False using none by simp
  qed
qed (simp add: runScenario_def tg_all_quiet newTaskGroup_def tg_Wait_def)

lemma run_scenarios_ok: "run_scenarios f scs = None \<longleftrightarrow> (\<forall>sc \<in> set scs. f sc = None)"
  by (induction scs) (auto split: option.splits)

section \<open>Payloads\<close>

definition maxPacketBuffer :: "nat \<Rightarrow> nat" where
  "maxPacketBuffer batchSize = (if batchSize > 1 then maxUDPPayload else maxUDPPayload)"

text \<open>\<open>binary.LittleEndian.PutUint64\<close> keeps the low 64 bits, as \<open>le_bytes 8\<close> does.\<close>

definition makePayload :: "nat \<Rightarrow> nat \<Rightarrow> nat \<Rightarrow> byte list outcome" where
  "makePayload payloadSize sessionID roundTrip =
     (if payloadSize < 16 then Panic SliceOutOfRange
      else Ret (le_bytes 8 sessionID @ le_bytes 8 roundTrip @
                map (\<lambda>i. of_nat (sessionID * 31 + roundTrip * 17 + i)) [16..<payloadSize]))"

lemma makePayload_Ret:
  assumes "16 \<le> n"
  obtains p where "makePayload n s r = Ret p" "length p = n" "take 8 p = le_bytes 8 s" "take 8 (drop 8 p) = le_bytes 8 r"
  using assms that [of "le_bytes 8 s @ le_bytes 8 r @ map (\<lambda>i. of_nat (s * 31 + r * 17 + i)) [16..<n]"]
  by (simp add: makePayload_def)

lemma makePayload_length: "makePayload n s r = Ret p \<Longrightarrow> length p = n \<and> 16 \<le> n"
  by (auto simp: makePayload_def split: if_splits)

text \<open>Payloads of different exchanges differ.\<close>

lemma makePayload_inj:
  assumes "makePayload n s r = Ret p" "makePayload n s' r' = Ret p" "s < 256 ^ 8" "s' < 256 ^ 8" "r < 256 ^ 8" "r' < 256 ^ 8"
  shows "s = s' \<and> r = r'"
proof -
  have n: "16 \<le> n" using assms(1) by (auto simp: makePayload_def split: if_splits)
  have "le_bytes 8 s = le_bytes 8 s'" "le_bytes 8 r = le_bytes 8 r'"
    using makePayload_Ret [OF n, of s r] makePayload_Ret [OF n, of s' r'] assms(1,2) by (metis outcome.inject(1))+
  then show ?thesis using le_val_bytes assms(3-6) by metis
qed

section \<open>The receive loop\<close>

text \<open>
  \<open>receiveLoop\<close> over a receive function \<open>fn\<close> and a handler, acting on a state of the caller. \<open>fn\<close> is
  given the cleared slices and returns the packets, sizes and endpoints it filled, and the state.
\<close>

record 'e received =
  rl_n :: nat
  rl_err :: "goerror option"
  rl_packets :: "byte list list"
  rl_sizes :: "nat list"
  rl_eps :: "'e option list"

definition stops_quietly :: "goerror \<Rightarrow> bool" where
  "stops_quietly e \<longleftrightarrow> errors_Is e NetErrClosed \<or> errors_Is e ContextCanceled"

text \<open>
  The inner loop from index \<open>i\<close> for \<open>k\<close> packets. The first component of the result is \<open>None\<close> when it
  ran through, and otherwise what \<open>receiveLoop\<close> returns.
\<close>

fun handle_packets ::
  "(byte list \<Rightarrow> 'e \<Rightarrow> 's \<Rightarrow> (goerror option \<times> 's) outcome) \<Rightarrow> nat \<Rightarrow> nat \<Rightarrow> 'e received \<Rightarrow> 's
    \<Rightarrow> (goerror option option \<times> 's) outcome" where
  "handle_packets handle 0 i r s = Ret (None, s)"
| "handle_packets handle (Suc k) i r s =
     obind (idx (rl_sizes r) i) (\<lambda>n.
       if n = 0 then handle_packets handle k (Suc i) r s
       else obind (idx (rl_eps r) i) (\<lambda>ep.
         case ep of
           None \<Rightarrow> handle_packets handle k (Suc i) r s
         | Some e \<Rightarrow>
             obind (idx (rl_packets r) i) (\<lambda>p.
               if length p < n then Panic SliceOutOfRange
               else obind (handle (take n p) e s) (\<lambda>(err, s').
                 case err of
                   None \<Rightarrow> handle_packets handle k (Suc i) r s'
                 | Some x \<Rightarrow> Ret (Some (if stops_quietly x then None else Some x), s')))))"

text \<open>An iteration of the loop, with the result as above.\<close>

definition receive_step ::
  "(nat list \<Rightarrow> 'e option list \<Rightarrow> 's \<Rightarrow> ('e received \<times> 's) outcome) \<Rightarrow>
   (byte list \<Rightarrow> 'e \<Rightarrow> 's \<Rightarrow> (goerror option \<times> 's) outcome) \<Rightarrow> ('s \<Rightarrow> bool) \<Rightarrow> nat \<Rightarrow> 's
    \<Rightarrow> (goerror option option \<times> 's) outcome" where
  "receive_step fn handle cancelled batchSize s =
     obind (fn (replicate batchSize 0) (replicate batchSize None) s) (\<lambda>(r, s1).
       case rl_err r of
         Some err \<Rightarrow> Ret (Some (if stops_quietly err \<or> cancelled s1 then None else Some err), s1)
       | None \<Rightarrow> handle_packets handle (rl_n r) 0 r s1)"

partial_function (option) receiveLoop ::
  "(nat list \<Rightarrow> 'e option list \<Rightarrow> 's \<Rightarrow> ('e received \<times> 's) outcome) \<Rightarrow>
   (byte list \<Rightarrow> 'e \<Rightarrow> 's \<Rightarrow> (goerror option \<times> 's) outcome) \<Rightarrow> ('s \<Rightarrow> bool) \<Rightarrow> nat \<Rightarrow> 's
    \<Rightarrow> (goerror option \<times> 's) outcome option" where
  "receiveLoop fn handle cancelled batchSize s =
     (case receive_step fn handle cancelled batchSize s of
        Panic p \<Rightarrow> Some (Panic p)
      | Diverge \<Rightarrow> Some Diverge
      | Ret x \<Rightarrow>
          (case fst x of
             Some res \<Rightarrow> Some (Ret (res, snd x))
           | None \<Rightarrow> receiveLoop fn handle cancelled batchSize (snd x)))"

section \<open>Sessions\<close>

text \<open>
  \<open>runSession\<close> over a pair of channel binds: the function itself and a goroutine for each of the four
  receive functions. A goroutine is named by its side and its channel; \<open>ss_loops\<close> holds those still
  running, \<open>ss_held\<close> what a loop has received and not yet handled, \<open>ss_recv\<close> is the channel \<open>clientRecv\<close>.
\<close>

datatype side = Client | Server

datatype main_pc =
    Sending nat
  | Awaiting nat "byte list"
  | JoinClient
  | JoinServer
  | Finished "goerror option"

record session =
  ss_client :: channel_bind
  ss_server :: channel_bind
  ss_chans :: chan_state
  ss_mem :: store
  ss_buf :: "chan \<Rightarrow> slice"
  ss_held :: "chan \<Rightarrow> channel_endpoint received option"
  ss_recv :: "byte list list"
  ss_ctx :: ctx
  ss_clientGroup :: task_group
  ss_serverGroup :: task_group
  ss_loops :: "(side \<times> chan) list"
  ss_endpoint :: channel_endpoint
  ss_main :: main_pc

text \<open>The packet buffer of the loop on channel \<open>ch\<close>.\<close>

definition packet_buf :: "chan \<Rightarrow> slice" where
  "packet_buf ch = \<lparr>sarr = ch, soff = 0, slen = maxPacketBuffer channel_BatchSize, scap = maxPacketBuffer channel_BatchSize\<rparr>"

definition close_binds :: "session \<Rightarrow> session" where
  "close_binds st = st\<lparr>ss_client := channel_Close (ss_client st), ss_server := channel_Close (ss_server st)\<rparr>"

text \<open>Returning runs the deferred closes.\<close>

definition finish :: "goerror option \<Rightarrow> session \<Rightarrow> session" where
  "finish res st = (close_binds st)\<lparr>ss_main := Finished res\<rparr>"

text \<open>
  Up to the first exchange. Neither \<open>NewPair\<close> nor \<open>Open\<close> of a channel bind fails; when the text of the
  server's address does not parse, the function returns with the error and its deferred closes.
\<close>

definition start_session :: "bool \<Rightarrow> bool \<Rightarrow> ctx \<Rightarrow> session" where
  "start_session server_coin client_coin ctx =
     (let (clientBind, serverBind) = NewChannelBinds;
          ((serverFuncs, serverPort), serverBind) = channel_Open server_coin serverBind;
          ((clientFuncs, _), clientBind) = channel_Open client_coin clientBind;
          st = \<lparr>ss_client = clientBind, ss_server = serverBind, ss_chans = (\<lambda>_. []),
            ss_mem = \<lparr>arrs = (\<lambda>_. replicate (maxPacketBuffer channel_BatchSize) 0), brk = 4\<rparr>, ss_buf = packet_buf,
            ss_held = (\<lambda>_. None), ss_recv = [], ss_ctx = ctx, ss_clientGroup = newTaskGroup ctx, ss_serverGroup = newTaskGroup ctx,
            ss_loops = map (Pair Server) serverFuncs @ map (Pair Client) clientFuncs,
            ss_endpoint = 0, ss_main = Sending 0\<rparr>
      in case channel_ParseEndpoint (JoinHostPort ''127.0.0.1'' (Itoa (unat serverPort))) of
           Inl err \<Rightarrow> finish (Some (Wrapped ''parse server endpoint'' err)) st
         | Inr serverEndpoint \<Rightarrow> st\<lparr>ss_endpoint := serverEndpoint\<rparr>)"

primrec side_bind :: "side \<Rightarrow> session \<Rightarrow> channel_bind" where
  "side_bind Client st = ss_client st"
| "side_bind Server st = ss_server st"

primrec side_group :: "side \<Rightarrow> session \<Rightarrow> task_group" where
  "side_group Client st = ss_clientGroup st"
| "side_group Server st = ss_serverGroup st"

definition session_fn ::
  "bool \<Rightarrow> side \<Rightarrow> chan \<Rightarrow> nat list \<Rightarrow> channel_endpoint option list \<Rightarrow> session \<Rightarrow> (channel_endpoint received \<times> session) outcome" where
  "session_fn pick sd ch sizes eps st =
     obind (channel_receive pick (side_bind sd st) ch [ss_buf st ch] sizes eps (ss_mem st) (ss_chans st)) (\<lambda>r.
       Ret (\<lparr>rl_n = cr_n r, rl_err = cr_err r, rl_packets = [sl_read (cr_mem r) (ss_buf st ch)],
             rl_sizes = cr_sizes r, rl_eps = cr_eps r\<rparr>, st\<lparr>ss_mem := cr_mem r, ss_chans := cr_chans r\<rparr>))"

text \<open>The handlers: the server echoes, the client hands the packet to \<open>clientRecv\<close>, which holds one.\<close>

fun session_handle :: "bool \<Rightarrow> side \<Rightarrow> byte list \<Rightarrow> channel_endpoint \<Rightarrow> session \<Rightarrow> (goerror option \<times> session) outcome" where
  "session_handle pick Server packet ep st =
     obind (channel_Send (ss_server st) [packet] (ChannelEndpoint ep) (ss_chans st)) (\<lambda>(err, cs).
       Ret (err, st\<lparr>ss_chans := cs\<rparr>))"
| "session_handle pick Client packet ep st =
     (case tg_ctx (ss_clientGroup st) of
        Some (err, _) \<Rightarrow>
          if pick \<or> ss_recv st \<noteq> [] then Ret (Some err, st) else Ret (None, st\<lparr>ss_recv := [packet]\<rparr>)
      | None \<Rightarrow> if ss_recv st = [] then Ret (None, st\<lparr>ss_recv := [packet]\<rparr>) else Diverge)"

definition loop_iter :: "bool \<Rightarrow> side \<Rightarrow> chan \<Rightarrow> session \<Rightarrow> (goerror option option \<times> session) outcome" where
  "loop_iter pick sd ch =
     receive_step (session_fn pick sd ch) (session_handle pick sd) (\<lambda>st. tg_ctx (side_group sd st) \<noteq> None) channel_BatchSize"

text \<open>
  The two halves of an iteration, between which other goroutines run: the receive call with the
  check of its error, and the handling of what it returned. Each does one operation on a channel.
\<close>

definition loop_receive :: "bool \<Rightarrow> side \<Rightarrow> chan \<Rightarrow> session \<Rightarrow> (goerror option option \<times> session) outcome" where
  "loop_receive pick sd ch st =
     obind (session_fn pick sd ch (replicate channel_BatchSize 0) (replicate channel_BatchSize None) st) (\<lambda>(r, st1).
       case rl_err r of
         Some err \<Rightarrow> Ret (Some (if stops_quietly err \<or> tg_ctx (side_group sd st1) \<noteq> None then None else Some err), st1)
       | None \<Rightarrow> Ret (None, st1\<lparr>ss_held := (ss_held st1)(ch := Some r)\<rparr>))"

definition loop_handle ::
  "bool \<Rightarrow> side \<Rightarrow> chan \<Rightarrow> channel_endpoint received \<Rightarrow> session \<Rightarrow> (goerror option option \<times> session) outcome" where
  "loop_handle pick sd ch r st =
     handle_packets (session_handle pick sd) (rl_n r) 0 r (st\<lparr>ss_held := (ss_held st)(ch := None)\<rparr>)"

lemma session_fn_frame:
  assumes "session_fn pick sd ch sizes eps st = Ret (r, st1)"
  shows "ss_held st1 = ss_held st"
  using assms by (cases "channel_receive pick (side_bind sd st) ch [ss_buf st ch] sizes eps (ss_mem st) (ss_chans st)")
    (auto simp: session_fn_def)

text \<open>Together, with nothing in between, they are the iteration of \<open>receiveLoop\<close>.\<close>

lemma loop_iter_halves:
  assumes "ss_held st ch = None"
  shows "loop_iter pick sd ch st =
    obind (loop_receive pick sd ch st) (\<lambda>(res, st1).
      case ss_held st1 ch of
        Some r \<Rightarrow> if res = None then loop_handle pick sd ch r st1 else Ret (res, st1)
      | None \<Rightarrow> Ret (res, st1))"
proof (cases "session_fn pick sd ch (replicate channel_BatchSize 0) (replicate channel_BatchSize None) st")
  case (Ret x)
  obtain r st1 where x: "x = (r, st1)" by (cases x)
  have h: "ss_held st1 ch = None" using session_fn_frame Ret x assms by metis
  then have "(ss_held st1)(ch := None) = ss_held st1" by (simp add: fun_eq_iff)
  then have "st1\<lparr>ss_held := (ss_held st1)(ch := None)\<rparr> = st1" by simp
  then show ?thesis using Ret x h
    by (auto simp: loop_iter_def receive_step_def loop_receive_def loop_handle_def split: option.splits)
qed (auto simp: loop_iter_def receive_step_def loop_receive_def)

definition end_loop :: "side \<Rightarrow> chan \<Rightarrow> goerror option \<Rightarrow> session \<Rightarrow> session" where
  "end_loop sd ch res st =
     (let st' = st\<lparr>ss_loops := remove1 (sd, ch) (ss_loops st)\<rparr>
      in case sd of
           Client \<Rightarrow> st'\<lparr>ss_clientGroup := tg_ends res (ss_clientGroup st')\<rparr>
         | Server \<Rightarrow> st'\<lparr>ss_serverGroup := tg_ends res (ss_serverGroup st')\<rparr>)"

definition PayloadMismatch :: goerror where
  "PayloadMismatch = Opaque ''payload mismatch''"

text \<open>
  The next action of \<open>runSession\<close> itself. \<open>Close\<close> of a channel bind returns nil, so its error branches
  are not taken.
\<close>

definition main_step :: "bool \<Rightarrow> nat \<Rightarrow> nat \<Rightarrow> nat \<Rightarrow> session \<Rightarrow> session outcome" where
  "main_step pick payloadSize roundTrips sessionID st =
     (case ss_main st of
        Sending roundTrip \<Rightarrow>
          if roundTrip < roundTrips
          then obind (makePayload payloadSize sessionID roundTrip) (\<lambda>payload.
            obind (channel_Send (ss_client st) [payload] (ChannelEndpoint (ss_endpoint st)) (ss_chans st)) (\<lambda>(err, cs).
              case err of
                Some e \<Rightarrow> Ret (finish (Some (Wrapped ''send ping'' e)) (st\<lparr>ss_chans := cs\<rparr>))
              | None \<Rightarrow> Ret (st\<lparr>ss_chans := cs, ss_main := Awaiting roundTrip payload\<rparr>)))
          else Ret ((close_binds st)\<lparr>ss_main := JoinClient\<rparr>)
      | Awaiting roundTrip payload \<Rightarrow>
          (case (ss_ctx st, ss_recv st) of
             (None, []) \<Rightarrow> Diverge
           | (Some (_, cause), []) \<Rightarrow> Ret (finish (Some cause) st)
           | (c, reply # rest) \<Rightarrow>
               if pick \<and> c \<noteq> None then Ret (finish (map_option snd c) st)
               else if reply \<noteq> payload then Ret (finish (Some PayloadMismatch) (st\<lparr>ss_recv := rest\<rparr>))
               else Ret (st\<lparr>ss_recv := rest, ss_main := Sending (Suc roundTrip)\<rparr>))
      | JoinClient \<Rightarrow>
          if \<exists>l \<in> set (ss_loops st). fst l = Client then Diverge
          else (case tg_Wait (ss_clientGroup st) of
                  Some e \<Rightarrow> Ret (finish (Some e) st)
                | None \<Rightarrow> Ret (st\<lparr>ss_main := JoinServer\<rparr>))
      | JoinServer \<Rightarrow>
          if \<exists>l \<in> set (ss_loops st). fst l = Server then Diverge
          else Ret (finish (tg_Wait (ss_serverGroup st)) st)
      | Finished res \<Rightarrow> Diverge)"

text \<open>
  The interleavings: a step is the next action of \<open>runSession\<close>, or half an iteration of a loop.
\<close>

inductive session_step :: "nat \<Rightarrow> nat \<Rightarrow> nat \<Rightarrow> session \<Rightarrow> session \<Rightarrow> bool" for payloadSize roundTrips sessionID where
  main_acts: "main_step pick payloadSize roundTrips sessionID st = Ret st' \<Longrightarrow> session_step payloadSize roundTrips sessionID st st'"
| loop_receives: "(sd, ch) \<in> set (ss_loops st) \<Longrightarrow> ss_held st ch = None \<Longrightarrow> loop_receive pick sd ch st = Ret (None, st') \<Longrightarrow>
    session_step payloadSize roundTrips sessionID st st'"
| receive_ends: "(sd, ch) \<in> set (ss_loops st) \<Longrightarrow> ss_held st ch = None \<Longrightarrow> loop_receive pick sd ch st = Ret (Some res, st') \<Longrightarrow>
    session_step payloadSize roundTrips sessionID st (end_loop sd ch res st')"
| loop_handles: "(sd, ch) \<in> set (ss_loops st) \<Longrightarrow> ss_held st ch = Some r \<Longrightarrow> loop_handle pick sd ch r st = Ret (None, st') \<Longrightarrow>
    session_step payloadSize roundTrips sessionID st st'"
| handle_ends: "(sd, ch) \<in> set (ss_loops st) \<Longrightarrow> ss_held st ch = Some r \<Longrightarrow> loop_handle pick sd ch r st = Ret (Some res, st') \<Longrightarrow>
    session_step payloadSize roundTrips sessionID st (end_loop sd ch res st')"

end
