(* ===== verification/Pingpong_Correct.thy ===== *)
theory Pingpong_Correct
  imports Pingpong
begin

text \<open>
  Sessions of the ping-pong example under every interleaving of their goroutines: an invariant of the
  session, a measure that every step decreases, and what a session ends with.
\<close>

section \<open>The halves of an iteration\<close>

definition all_loops :: "(side \<times> chan) list" where
  "all_loops = [(Server, 1), (Server, 3), (Client, 0), (Client, 2)]"

text \<open>What does not change but for the state of the binds: \<open>coin\<close> tells which port the server reported.\<close>

definition session_base :: "bool \<Rightarrow> close_signal \<Rightarrow> session \<Rightarrow> bool" where
  "session_base coin sig st \<longleftrightarrow>
     ss_client st = (fst NewChannelBinds)\<lparr>cb_closeSignal := sig\<rparr> \<and>
     ss_server st = (snd NewChannelBinds)\<lparr>cb_closeSignal := sig\<rparr> \<and>
     ss_endpoint st = (if coin then 3 else 1) \<and> ss_buf st = packet_buf \<and>
     (\<forall>ch. length (arrs (ss_mem st) ch) = maxUDPPayload) \<and> ss_ctx st = None \<and>
     ss_clientGroup st = newTaskGroup None \<and> ss_serverGroup st = newTaskGroup None \<and>
     distinct (ss_loops st) \<and> set (ss_loops st) \<subseteq> set all_loops"

lemma base_side:
  assumes "session_base coin sig st"
  shows "cb_closeSignal (side_bind sd st) = sig"
  using assms by (cases sd) (auto simp: session_base_def)

lemma receive_closed_bind:
  assumes "session_base coin ClosedSignal st" "ss_chans st ch = []"
  shows "loop_receive pick sd ch st = Ret (Some None, st)"
  using assms base_side [OF assms(1), of sd]
  by (simp add: loop_receive_def session_fn_def channel_BatchSize_def channel_receive_def stops_quietly_def)

lemma receive_blocks:
  assumes "session_base coin OpenSignal st" "ss_chans st ch = []"
  shows "loop_receive pick sd ch st = Diverge"
  using assms base_side [OF assms(1), of sd]
  by (simp add: loop_receive_def session_fn_def channel_BatchSize_def channel_receive_def)

text \<open>The store after a loop has taken \<open>m\<close> from its channel, all of \<open>m\<close> that fits; and what the loop then has in hand.\<close>

definition after_copy :: "chan \<Rightarrow> byte list \<Rightarrow> session \<Rightarrow> session" where
  "after_copy ch m st = st\<lparr>ss_mem := sl_write (ss_mem st) ch 0 (take maxUDPPayload m)\<rparr>"

definition holds_packet :: "channel_endpoint \<Rightarrow> byte list \<Rightarrow> channel_endpoint received \<Rightarrow> bool" where
  "holds_packet e m r \<longleftrightarrow> rl_n r = 1 \<and> rl_err r = None \<and> rl_sizes r = [length m] \<and> rl_eps r = [Some e] \<and>
     (\<exists>p. rl_packets r = [p] \<and> length m \<le> length p \<and> take (length m) p = m)"

lemma receive_takes:
  assumes base: "session_base coin OpenSignal st" and ch: "ss_chans st ch = [m]"
  shows "\<exists>r. loop_receive pick sd ch st =
      Ret (None, (after_copy ch m st)\<lparr>ss_chans := (ss_chans st)(ch := []), ss_held := (ss_held st)(ch := Some r)\<rparr>) \<and>
    holds_packet (cb_target6 (side_bind sd st)) (take maxUDPPayload m) r"
proof -
  let ?q = "take maxUDPPayload m"
  define k where "k = min maxUDPPayload (length m)"
  let ?h = "sl_write (ss_mem st) ch 0 ?q"
  let ?r = "\<lparr>rl_n = 1, rl_err = None, rl_packets = [sl_read ?h (packet_buf ch)], rl_sizes = [k],
             rl_eps = [Some (cb_target6 (side_bind sd st))]\<rparr>"
  have len: "length (arrs (ss_mem st) ch) = maxUDPPayload" and buf: "ss_buf st = packet_buf"
    using base by (auto simp: session_base_def)
  have tk: "take k m = ?q" and lq: "length ?q = k" by (simp_all add: k_def min_def)
  have rd: "take k (sl_read ?h (packet_buf ch)) = ?q"
    using read_overwrite_at [of 0 "arrs (ss_mem st) ch" ?q] len
    by (simp add: sl_read_def packet_buf_def maxPacketBuffer_def k_def min.commute)
  have wide: "length (sl_read ?h (packet_buf ch)) = maxUDPPayload"
    using len by (simp add: sl_read_def packet_buf_def maxPacketBuffer_def)
  have pb: "sarr (packet_buf ch) = ch" "soff (packet_buf ch) = 0" "slen (packet_buf ch) = maxUDPPayload"
    by (simp_all add: packet_buf_def maxPacketBuffer_def)
  have open_: "cb_closeSignal (side_bind sd st) \<noteq> ClosedSignal" using base_side [OF base, of sd] by simp
  have "session_fn pick sd ch [0] [None] st = Ret (?r, (after_copy ch m st)\<lparr>ss_chans := (ss_chans st)(ch := [])\<rparr>)"
    using channel_receive_next [OF open_, of "ss_chans st" ch m "[]" pick "packet_buf ch" 0 None "ss_mem st"] ch
    by (simp add: session_fn_def buf pb after_copy_def flip: k_def) (simp add: tk)
  moreover have "holds_packet (cb_target6 (side_bind sd st)) ?q ?r"
    using rd wide lq by (simp add: holds_packet_def k_def)
  ultimately show ?thesis
    by (intro exI [of _ ?r]) (simp add: loop_receive_def channel_BatchSize_def after_copy_def)
qed

lemma const_upd [simp]: "(\<lambda>_. a)(x := a) = (\<lambda>_. a)"
  by auto

lemma handle_one:
  assumes "holds_packet e m r" "m \<noteq> []"
  shows "loop_handle pick sd ch r st =
    obind (session_handle pick sd m e (st\<lparr>ss_held := (ss_held st)(ch := None)\<rparr>))
      (\<lambda>(err, st'). case err of None \<Rightarrow> Ret (None, st')
                              | Some x \<Rightarrow> Ret (Some (if stops_quietly x then None else Some x), st'))"
  using assms by (auto simp: holds_packet_def loop_handle_def idx_def cong: option.case_cong)

lemma handle_server:
  assumes "session_base coin OpenSignal st" "holds_packet 4 m r" "m \<noteq> []" "ss_chans st = (\<lambda>_. [])"
  shows "loop_handle pick Server ch r st =
    Ret (None, st\<lparr>ss_held := (ss_held st)(ch := None), ss_chans := (\<lambda>_. [])(2 := [m])\<rparr>)"
  using assms handle_one [OF assms(2,3), of pick Server ch st]
  by (simp add: session_base_def NewChannelBinds_def chan_send_def chan_capacity_def)

lemma handle_client:
  assumes "session_base coin OpenSignal st" "holds_packet e m r" "m \<noteq> []" "ss_recv st = []"
  shows "loop_handle pick Client ch r st = Ret (None, st\<lparr>ss_held := (ss_held st)(ch := None), ss_recv := [m]\<rparr>)"
  using assms handle_one [OF assms(2,3), of pick Client ch st] by (simp add: session_base_def newTaskGroup_def)

lemma base_targets:
  assumes "session_base coin sig st"
  shows "cb_target6 (side_bind Client st) = 3" "cb_target6 (side_bind Server st) = 4"
  using assms by (simp_all add: session_base_def NewChannelBinds_def)

lemma base_after_copy [simp]:
  assumes "session_base coin sig st"
  shows "session_base coin sig (after_copy ch m st)"
  using assms by (auto simp: session_base_def after_copy_def)

lemma base_upd [simp]:
  "session_base coin sig (st\<lparr>ss_chans := cs\<rparr>) = session_base coin sig st"
  "session_base coin sig (st\<lparr>ss_recv := rs\<rparr>) = session_base coin sig st"
  "session_base coin sig (st\<lparr>ss_held := hs\<rparr>) = session_base coin sig st"
  "session_base coin sig (st\<lparr>ss_main := pc\<rparr>) = session_base coin sig st"
  by (simp_all add: session_base_def)

lemma base_close [simp]:
  assumes "session_base coin sig st" "sig \<noteq> NilSignal"
  shows "session_base coin ClosedSignal (close_binds st)"
  using assms by (cases sig) (auto simp: session_base_def close_binds_def channel_Close_def)

lemma base_end_loop [simp]:
  assumes "session_base coin sig st"
  shows "session_base coin sig (end_loop sd ch None st)"
  using assms set_remove1_subset [of "(sd, ch)" "ss_loops st"]
  by (cases sd) (auto simp: session_base_def end_loop_def tg_ends_def Let_def)

lemma after_copy_simps [simp]:
  "ss_held (after_copy ch m st) = ss_held st"
  "ss_main (after_copy ch m st) = ss_main st" "ss_recv (after_copy ch m st) = ss_recv st"
  "ss_loops (after_copy ch m st) = ss_loops st" "ss_chans (after_copy ch m st) = ss_chans st"
  by (simp_all add: after_copy_def)

lemma close_binds_simps [simp]:
  "ss_held (close_binds st) = ss_held st"
  "ss_main (close_binds st) = ss_main st" "ss_recv (close_binds st) = ss_recv st"
  "ss_loops (close_binds st) = ss_loops st" "ss_chans (close_binds st) = ss_chans st"
  by (simp_all add: close_binds_def)

lemma end_loop_simps [simp]:
  "ss_held (end_loop sd ch r st) = ss_held st"
  "ss_main (end_loop sd ch r st) = ss_main st" "ss_chans (end_loop sd ch r st) = ss_chans st"
  "ss_loops (end_loop sd ch r st) = remove1 (sd, ch) (ss_loops st)" "ss_recv (end_loop sd ch r st) = ss_recv st"
  by (cases sd; simp add: end_loop_def Let_def)+

section \<open>The invariant\<close>

definition server_chan :: "bool \<Rightarrow> chan" where
  "server_chan coin = (if coin then 3 else 1)"

text \<open>
  Where the payload of the current exchange is: on the way to the server, held by a server loop, on the
  way back, held by a client loop, or handed over. A loop passes on what fits its buffer.
\<close>

definition in_flight :: "bool \<Rightarrow> byte list \<Rightarrow> session \<Rightarrow> bool" where
  "in_flight coin p st \<longleftrightarrow> (let q = take maxUDPPayload p in
     ss_chans st = (\<lambda>_. [])(server_chan coin := [p]) \<and> ss_held st = (\<lambda>_. None) \<and> ss_recv st = [] \<or>
     (\<exists>r. ss_chans st = (\<lambda>_. []) \<and> ss_held st = (\<lambda>_. None)(server_chan coin := Some r) \<and> holds_packet 4 q r \<and> ss_recv st = []) \<or>
     ss_chans st = (\<lambda>_. [])(2 := [q]) \<and> ss_held st = (\<lambda>_. None) \<and> ss_recv st = [] \<or>
     (\<exists>r. ss_chans st = (\<lambda>_. []) \<and> ss_held st = (\<lambda>_. None)(2 := Some r) \<and> holds_packet 3 q r \<and> ss_recv st = []) \<or>
     ss_chans st = (\<lambda>_. []) \<and> ss_held st = (\<lambda>_. None) \<and> ss_recv st = [q])"

definition at_rest :: "session \<Rightarrow> bool" where
  "at_rest st \<longleftrightarrow> ss_chans st = (\<lambda>_. []) \<and> ss_held st = (\<lambda>_. None)"

definition session_inv :: "nat \<Rightarrow> nat \<Rightarrow> nat \<Rightarrow> bool \<Rightarrow> session \<Rightarrow> bool" where
  "session_inv n R sid coin st \<longleftrightarrow>
     (case ss_main st of
        Sending r \<Rightarrow> session_base coin OpenSignal st \<and> ss_loops st = all_loops \<and> r \<le> R \<and> (r = 0 \<or> n \<le> maxUDPPayload) \<and>
          at_rest st \<and> ss_recv st = []
      | Awaiting r p \<Rightarrow> session_base coin OpenSignal st \<and> ss_loops st = all_loops \<and> r < R \<and>
          (r = 0 \<or> n \<le> maxUDPPayload) \<and> makePayload n sid r = Ret p \<and> in_flight coin p st
      | JoinClient \<Rightarrow> session_base coin ClosedSignal st \<and> n \<le> maxUDPPayload \<and> at_rest st
      | JoinServer \<Rightarrow> session_base coin ClosedSignal st \<and> n \<le> maxUDPPayload \<and> at_rest st \<and>
          (\<forall>l \<in> set (ss_loops st). fst l \<noteq> Client)
      | Finished res \<Rightarrow> session_base coin ClosedSignal st \<and> at_rest st \<and>
          res = (if n \<le> maxUDPPayload then None else Some PayloadMismatch))"

text \<open>An exchange takes six steps: a send, two receives and two handlings, and the comparison.\<close>

definition held_by :: "chan \<Rightarrow> session \<Rightarrow> nat" where
  "held_by ch st = (if ss_held st ch = None then 0 else 1)"

definition session_measure :: "nat \<Rightarrow> session \<Rightarrow> nat" where
  "session_measure R st = length (ss_loops st) +
     (case ss_main st of
        Sending r \<Rightarrow> 6 * (R - r) + 10
      | Awaiting r p \<Rightarrow> 6 * (R - r) + 5 + 4 * (length (ss_chans st 1) + length (ss_chans st 3)) +
          3 * (held_by 1 st + held_by 3 st) + 2 * length (ss_chans st 2) + held_by 2 st
      | JoinClient \<Rightarrow> 2
      | JoinServer \<Rightarrow> 1
      | Finished res \<Rightarrow> 0)"

lemma start_endpoint: "channel_ParseEndpoint (JoinHostPort ''127.0.0.1'' (Itoa (unat p))) = Inr p"
  using channel_ParseEndpoint_port [of p] by (simp add: JoinHostPort_def)

lemma start_main: "ss_main (start_session server_coin client_coin None) = Sending 0"
  by (simp add: start_session_def NewChannelBinds_def channel_Open_def start_endpoint Let_def)

lemma start_inv: "session_inv n R sid coin (start_session coin client_coin None)"
  by (simp add: session_inv_def start_session_def NewChannelBinds_def channel_Open_def session_base_def all_loops_def
      newTaskGroup_def maxPacketBuffer_def start_endpoint at_rest_def Let_def)

lemma server_chan_simps [simp]: "server_chan coin \<noteq> 2" "server_chan coin \<noteq> 0"
  by (simp_all add: server_chan_def)

section \<open>Steps\<close>

text \<open>What a step does in every state of the invariant, with the progress of the measure.\<close>

definition good_step :: "nat \<Rightarrow> nat \<Rightarrow> nat \<Rightarrow> bool \<Rightarrow> session \<Rightarrow> session \<Rightarrow> bool" where
  "good_step n R sid coin st st' \<longleftrightarrow> session_inv n R sid coin st' \<and> session_measure R st' < session_measure R st"

lemma main_good:
  assumes inv: "session_inv n R sid coin st" and n: "16 \<le> n" and R: "0 < R"
    and step: "main_step pick n R sid st = Ret st'"
  shows "good_step n R sid coin st st'"
proof (cases "ss_main st")
  case (Sending r)
  then have b: "session_base coin OpenSignal st" and e: "ss_chans st = (\<lambda>_. [])" "ss_held st = (\<lambda>_. None)" "ss_recv st = []"
    "ss_loops st = all_loops"
    and r: "r \<le> R" "r = 0 \<or> n \<le> maxUDPPayload" using inv by (auto simp: session_inv_def at_rest_def)
  show ?thesis
  proof (cases "r < R")
    case True
    obtain p where p: "makePayload n sid r = Ret p" using makePayload_Ret [OF n] by metis
    have "channel_Send (ss_client st) [p] (ChannelEndpoint (ss_endpoint st)) (ss_chans st) =
        Ret (None, (\<lambda>_. [])(server_chan coin := [p]))"
      using b e channel_Send_queues [of "ss_client st" "ss_endpoint st" "server_chan coin" "ss_chans st" "[p]"]
      by (simp add: session_base_def NewChannelBinds_def tx_for_def server_chan_def chan_capacity_def)
    then have "st' = st\<lparr>ss_chans := (\<lambda>_. [])(server_chan coin := [p]), ss_main := Awaiting r p\<rparr>"
      using step Sending True p by (simp add: main_step_def)
    then show ?thesis using Sending True p b e r
      by (simp add: good_step_def session_inv_def session_measure_def in_flight_def server_chan_def held_by_def Let_def)
  next
    case False
    then have "st' = (close_binds st)\<lparr>ss_main := JoinClient\<rparr>" "n \<le> maxUDPPayload"
      using step Sending r R by (auto simp: main_step_def)
    then show ?thesis using Sending b e by (simp add: good_step_def session_inv_def session_measure_def at_rest_def)
  qed
next
  case (Awaiting r p)
  then have b: "session_base coin OpenSignal st" and l: "ss_loops st = all_loops" and r: "r < R" "r = 0 \<or> n \<le> maxUDPPayload"
    and p: "makePayload n sid r = Ret p" and fl: "in_flight coin p st" using inv by (auto simp: session_inv_def)
  have c: "ss_ctx st = None" using b by (simp add: session_base_def)
  then have rv: "ss_recv st = [take maxUDPPayload p]" and e: "at_rest st"
    using step Awaiting fl by (auto simp: main_step_def in_flight_def at_rest_def Let_def)
  have len: "length p = n" using makePayload_length [OF p] by simp
  show ?thesis
  proof (cases "n \<le> maxUDPPayload")
    case True
    then have "st' = st\<lparr>ss_recv := [], ss_main := Sending (Suc r)\<rparr>"
      using step Awaiting c rv len by (simp add: main_step_def)
    then show ?thesis using Awaiting b e l r True
      by (simp add: good_step_def session_inv_def session_measure_def at_rest_def held_by_def)
  next
    case False
    then have "take maxUDPPayload p \<noteq> p" using len by (metis length_take min.absorb_iff2 min.commute)
    then have "st' = finish (Some PayloadMismatch) (st\<lparr>ss_recv := []\<rparr>)"
      using step Awaiting c rv by (simp add: main_step_def)
    then show ?thesis using Awaiting b e l False
      by (simp add: good_step_def session_inv_def session_measure_def finish_def at_rest_def held_by_def)
  qed
next
  case JoinClient
  then show ?thesis using inv step
    by (auto simp: good_step_def session_inv_def session_measure_def main_step_def session_base_def newTaskGroup_def tg_Wait_def
        at_rest_def split: if_splits)
next
  case JoinServer
  then have b: "session_base coin ClosedSignal st" and "n \<le> maxUDPPayload" "at_rest st" using inv
    by (auto simp: session_inv_def)
  moreover have "tg_Wait (ss_serverGroup st) = None" using b by (simp add: session_base_def newTaskGroup_def tg_Wait_def)
  ultimately show ?thesis using JoinServer step
    by (auto simp: good_step_def session_inv_def session_measure_def main_step_def finish_def at_rest_def split: if_splits)
next
  case (Finished res)
  then show ?thesis using step by (simp add: main_step_def)
qed

lemma payload_nonempty:
  assumes "makePayload n sid r = Ret p"
  shows "p \<noteq> []" "take maxUDPPayload p \<noteq> []"
  using makePayload_length [OF assms] by (auto simp: maxUDPPayload_def)

lemma receive_good:
  assumes inv: "session_inv n R sid coin st" and main: "ss_main st = Awaiting k p"
    and l: "(sd, ch) \<in> set (ss_loops st)" "ss_held st ch = None" and step: "loop_receive pick sd ch st = Ret (res, st')"
  shows "res = None \<and> good_step n R sid coin st st'"
proof -
  have b: "session_base coin OpenSignal st" and al: "ss_loops st = all_loops" and fl: "in_flight coin p st"
    and rest: "k < R" "k = 0 \<or> n \<le> maxUDPPayload" "makePayload n sid k = Ret p" using inv main by (auto simp: session_inv_def)
  have "ss_chans st ch \<noteq> []" using step receive_blocks [OF b] by fastforce
  then consider "ch = server_chan coin" "ss_chans st = (\<lambda>_. [])(ch := [p])" "ss_held st = (\<lambda>_. None)" "ss_recv st = []"
    | "ch = 2" "ss_chans st = (\<lambda>_. [])(ch := [take maxUDPPayload p])" "ss_held st = (\<lambda>_. None)" "ss_recv st = []"
    using fl by (auto simp: in_flight_def Let_def split: if_splits)
  then show ?thesis
  proof cases
    case 1
    then have "sd = Server" using l al by (auto simp: all_loops_def server_chan_def split: if_splits)
    then obtain r where r: "res = None" "holds_packet 4 (take maxUDPPayload p) r"
      "st' = (after_copy ch p st)\<lparr>ss_chans := (\<lambda>_. []), ss_held := (\<lambda>_. None)(ch := Some r)\<rparr>"
      using receive_takes [OF b, of ch p pick sd] 1 step base_targets [OF b] by auto
    then have "in_flight coin p st'" using 1 by (auto simp: in_flight_def Let_def)
    then show ?thesis using main b al rest 1 r
      by (simp add: good_step_def session_inv_def session_measure_def held_by_def server_chan_def)
  next
    case 2
    then have "sd = Client" using l al by (auto simp: all_loops_def)
    then obtain r where r: "res = None" "holds_packet 3 (take maxUDPPayload p) r"
      "st' = (after_copy ch (take maxUDPPayload p) st)\<lparr>ss_chans := (\<lambda>_. []), ss_held := (\<lambda>_. None)(ch := Some r)\<rparr>"
      using receive_takes [OF b, of ch "take maxUDPPayload p" pick sd] 2 step base_targets [OF b] by auto
    then have "in_flight coin p st'" using 2 by (auto simp: in_flight_def Let_def)
    then show ?thesis using main b al rest 2 r
      by (simp add: good_step_def session_inv_def session_measure_def held_by_def)
  qed
qed

lemma handle_good:
  assumes inv: "session_inv n R sid coin st" and main: "ss_main st = Awaiting k p"
    and l: "(sd, ch) \<in> set (ss_loops st)" "ss_held st ch = Some r" and step: "loop_handle pick sd ch r st = Ret (res, st')"
  shows "res = None \<and> good_step n R sid coin st st'"
proof -
  have b: "session_base coin OpenSignal st" and al: "ss_loops st = all_loops" and fl: "in_flight coin p st"
    and rest: "k < R" "k = 0 \<or> n \<le> maxUDPPayload" "makePayload n sid k = Ret p" using inv main by (auto simp: session_inv_def)
  let ?q = "take maxUDPPayload p"
  have ne: "?q \<noteq> []" using payload_nonempty [OF rest(3)] by simp
  consider "ch = server_chan coin" "ss_chans st = (\<lambda>_. [])" "ss_held st = (\<lambda>_. None)(ch := Some r)" "ss_recv st = []" "holds_packet 4 ?q r"
    | "ch = 2" "ss_chans st = (\<lambda>_. [])" "ss_held st = (\<lambda>_. None)(ch := Some r)" "ss_recv st = []" "holds_packet 3 ?q r"
    using fl l(2) by (auto simp: in_flight_def Let_def split: if_splits)
  then show ?thesis
  proof cases
    case 1
    then have "sd = Server" using l al by (auto simp: all_loops_def server_chan_def split: if_splits)
    then have r: "res = None" "st' = st\<lparr>ss_held := (\<lambda>_. None), ss_chans := (\<lambda>_. [])(2 := [?q])\<rparr>"
      using handle_server [OF b 1(5) ne 1(2), of pick ch] step 1(3) by (auto simp: fun_upd_idem)
    then have "in_flight coin p st'" using 1 by (simp add: in_flight_def Let_def)
    then show ?thesis using main b al rest 1 r
      by (simp add: good_step_def session_inv_def session_measure_def held_by_def server_chan_def)
  next
    case 2
    then have "sd = Client" using l al by (auto simp: all_loops_def)
    then have r: "res = None" "st' = st\<lparr>ss_held := (\<lambda>_. None), ss_recv := [?q]\<rparr>"
      using handle_client [OF b 2(5) ne 2(4), of pick ch] step 2(3) by (auto simp: fun_upd_idem)
    then have "in_flight coin p st'" using 2 by (auto simp: in_flight_def Let_def)
    then show ?thesis using main b al rest 2 r
      by (simp add: good_step_def session_inv_def session_measure_def held_by_def)
  qed
qed

lemma loop_closed:
  assumes inv: "session_inv n R sid coin st" and b: "session_base coin ClosedSignal st" and e: "at_rest st"
    and l: "(sd, ch) \<in> set (ss_loops st)"
  shows "good_step n R sid coin st (end_loop sd ch None st)"
proof -
  have closed_: "\<not> session_base coin OpenSignal st" using base_side [OF b] base_side by fastforce
  have "length (remove1 (sd, ch) (ss_loops st)) < length (ss_loops st)"
    using l length_pos_if_in_set [OF l] by (simp add: length_remove1)
  moreover have "\<forall>x \<in> set (remove1 (sd, ch) (ss_loops st)). x \<in> set (ss_loops st)"
    using set_remove1_subset [of "(sd, ch)" "ss_loops st"] by blast
  ultimately show ?thesis
    using inv base_end_loop [OF b, of sd ch] e closed_
    by (cases "ss_main st") (simp_all add: good_step_def session_measure_def session_inv_def at_rest_def)
qed

lemma inv_cases:
  assumes "session_inv n R sid coin st"
  obtains r where "ss_main st = Sending r" "session_base coin OpenSignal st" "at_rest st"
    | r p where "ss_main st = Awaiting r p"
    | "session_base coin ClosedSignal st" "at_rest st"
  using assms by (cases "ss_main st") (auto simp: session_inv_def)

text \<open>A half iteration is good, whether the loop goes on or ends.\<close>

lemma half_good:
  assumes inv: "session_inv n R sid coin st" and l: "(sd, ch) \<in> set (ss_loops st)"
    and step: "ss_held st ch = None \<and> loop_receive pick sd ch st = Ret (res, st') \<or>
      (\<exists>r. ss_held st ch = Some r \<and> loop_handle pick sd ch r st = Ret (res, st'))"
  shows "case res of None \<Rightarrow> good_step n R sid coin st st' | Some r \<Rightarrow> good_step n R sid coin st (end_loop sd ch r st')"
  using inv
proof (cases rule: inv_cases)
  case (1 r)
  then show ?thesis using receive_blocks [OF 1(2), of ch pick sd] step by (auto simp: at_rest_def)
next
  case (2 k p)
  then have "res = None \<and> good_step n R sid coin st st'"
    using step receive_good [OF inv 2 l] handle_good [OF inv 2 l] by blast
  then show ?thesis by simp
next
  case 3
  then show ?thesis using receive_closed_bind [OF 3(1), of ch pick sd] step loop_closed [OF inv 3 l] by (auto simp: at_rest_def)
qed

lemma step_good:
  assumes "session_step n R sid st st'" "session_inv n R sid coin st" "16 \<le> n" "0 < R"
  shows "good_step n R sid coin st st'"
  using assms
proof (cases rule: session_step.cases)
  case (main_acts pick)
  then show ?thesis using main_good assms by blast
next
  case (loop_receives sd ch pick)
  then show ?thesis using half_good [OF assms(2), of sd ch pick None st'] by simp
next
  case (receive_ends sd ch pick res st'')
  then show ?thesis using half_good [OF assms(2), of sd ch pick "Some res" st''] by simp
next
  case (loop_handles sd ch r pick)
  then show ?thesis using half_good [OF assms(2), of sd ch pick None st'] by simp
next
  case (handle_ends sd ch r pick res st'')
  then show ?thesis using half_good [OF assms(2), of sd ch pick "Some res" st''] by simp
qed

lemma reach_inv:
  assumes "(session_step n R sid)\<^sup>*\<^sup>* st st'" "session_inv n R sid coin st" "16 \<le> n" "0 < R"
  shows "session_inv n R sid coin st'"
  using assms by (induction rule: rtranclp_induct) (use step_good in \<open>auto simp: good_step_def\<close>)

section \<open>Progress\<close>

lemma session_progress:
  assumes inv: "session_inv n R sid coin st" and n: "16 \<le> n" and R: "0 < R" and main: "\<nexists>res. ss_main st = Finished res"
  shows "\<exists>st'. session_step n R sid st st'"
proof (cases "ss_main st")
  case (Sending r)
  then have b: "session_base coin OpenSignal st" and e: "ss_chans st = (\<lambda>_. [])" "ss_held st = (\<lambda>_. None)"
    using inv by (auto simp: session_inv_def at_rest_def)
  obtain p where p: "makePayload n sid r = Ret p" using makePayload_Ret [OF n] by metis
  have "\<exists>cs. channel_Send (ss_client st) [p] (ChannelEndpoint (ss_endpoint st)) (ss_chans st) = Ret (None, cs)"
    using b e by (simp add: session_base_def NewChannelBinds_def chan_send_def chan_capacity_def)
  then have "\<exists>st'. main_step False n R sid st = Ret st'" using Sending p by (auto simp: main_step_def)
  then show ?thesis using main_acts by blast
next
  case (Awaiting r p)
  then have b: "session_base coin OpenSignal st" and al: "ss_loops st = all_loops" and fl: "in_flight coin p st"
    and p: "makePayload n sid r = Ret p" using inv by (auto simp: session_inv_def)
  let ?q = "take maxUDPPayload p" and ?s = "server_chan coin"
  have ne: "?q \<noteq> []" using payload_nonempty [OF p] by simp
  have lps: "(Server, ?s) \<in> set (ss_loops st)" "(Client, 2) \<in> set (ss_loops st)"
    by (simp_all add: al all_loops_def server_chan_def)
  from fl consider "ss_chans st ?s = [p]" "ss_held st ?s = None"
    | r where "ss_chans st = (\<lambda>_. [])" "ss_held st ?s = Some r" "holds_packet 4 ?q r"
    | "ss_chans st 2 = [?q]" "ss_held st 2 = None"
    | r where "ss_recv st = []" "ss_held st 2 = Some r" "holds_packet 3 ?q r"
    | "ss_recv st = [?q]" by (auto simp: in_flight_def Let_def)
  then show ?thesis
  proof cases
    case 1
    then show ?thesis using loop_receives [OF lps(1)] receive_takes [OF b 1(1)] by blast
  next
    case (2 r)
    then show ?thesis using loop_handles [OF lps(1) 2(2)] handle_server [OF b 2(3) ne 2(1)] by blast
  next
    case 3
    then show ?thesis using loop_receives [OF lps(2)] receive_takes [OF b 3(1)] by blast
  next
    case (4 r)
    then show ?thesis using loop_handles [OF lps(2) 4(2)] handle_client [OF b 4(3) ne 4(1)] by blast
  next
    case 5
    have "\<exists>st'. main_step False n R sid st = Ret st'" using Awaiting 5 b by (simp add: main_step_def session_base_def)
    then show ?thesis using main_acts by blast
  qed
next
  case JoinClient
  then have b: "session_base coin ClosedSignal st" and e: "ss_chans st = (\<lambda>_. [])" "ss_held st = (\<lambda>_. None)"
    using inv by (auto simp: session_inv_def at_rest_def)
  show ?thesis
  proof (cases "\<exists>l \<in> set (ss_loops st). fst l = Client")
    case True
    then obtain ch where "(Client, ch) \<in> set (ss_loops st)" by (metis prod.collapse)
    then show ?thesis using receive_ends receive_closed_bind [OF b] e by metis
  next
    case False
    then have "\<exists>st'. main_step False n R sid st = Ret st'" using JoinClient
      by (auto simp: main_step_def split: option.splits)
    then show ?thesis using main_acts by blast
  qed
next
  case JoinServer
  then have b: "session_base coin ClosedSignal st" and e: "ss_chans st = (\<lambda>_. [])" "ss_held st = (\<lambda>_. None)"
    using inv by (auto simp: session_inv_def at_rest_def)
  show ?thesis
  proof (cases "\<exists>l \<in> set (ss_loops st). fst l = Server")
    case True
    then obtain ch where "(Server, ch) \<in> set (ss_loops st)" by (metis prod.collapse)
    then show ?thesis using receive_ends receive_closed_bind [OF b] e by metis
  next
    case False
    then have "\<exists>st'. main_step False n R sid st = Ret st'" using JoinServer by (auto simp: main_step_def)
    then show ?thesis using main_acts by blast
  qed
qed (use main in auto)

lemma session_finishes:
  assumes "session_inv n R sid coin st" "16 \<le> n" "0 < R"
  shows "\<exists>st' res. (session_step n R sid)\<^sup>*\<^sup>* st st' \<and> ss_main st' = Finished res"
  using assms
proof (induction "session_measure R st" arbitrary: st rule: less_induct)
  case less
  show ?case
  proof (cases "\<exists>res. ss_main st = Finished res")
    case False
    then obtain st1 where s: "session_step n R sid st st1" using session_progress [OF less.prems] by blast
    with step_good [OF s less.prems] less.hyps [of st1] less.prems(2,3) show ?thesis
      by (auto simp: good_step_def) (meson converse_rtranclp_into_rtranclp)
  qed auto
qed

section \<open>What a session ends with\<close>

text \<open>
  C39. Take a ping-pong session over a pair of channel binds with a payload of 16 to 65507 bytes, and a
  state it reaches under any interleaving of \<open>runSession\<close> with its four receive loops, which may change
  over between any two operations on a channel, the context not being done. If \<open>runSession\<close> has returned, it returned nil: no exchange was lost, mixed up or altered.
  If it has not returned, some goroutine can take a step, and every step lowers a bound on the number of
  steps left, so every schedule ends.
\<close>

theorem session_succeeds:
  assumes "16 \<le> n" "n \<le> maxUDPPayload" "0 < R"
    and "(session_step n R sid)\<^sup>*\<^sup>* (start_session server_coin client_coin None) st"
  shows "(ss_main st = Finished None \<or> (\<nexists>res. ss_main st = Finished res) \<and> (\<exists>st'. session_step n R sid st st')) \<and>
    (\<forall>st'. session_step n R sid st st' \<longrightarrow> session_measure R st' < session_measure R st)"
proof -
  have inv: "session_inv n R sid server_coin st" using reach_inv [OF assms(4) start_inv assms(1,3)] .
  have "res = None" if "ss_main st = Finished res" for res using inv that assms(2) by (simp add: session_inv_def)
  moreover have "\<forall>st'. session_step n R sid st st' \<longrightarrow> session_measure R st' < session_measure R st"
    using step_good inv assms(1,3) by (auto simp: good_step_def)
  ultimately show ?thesis using session_progress [OF inv assms(1,3)] by metis
qed

theorem session_succeeds_witness:
  "(session_step 16 1 0)\<^sup>*\<^sup>* (start_session True False None) (start_session True False None) \<and>
   ss_main (start_session True False None) = Sending 0 \<and>
   (\<exists>st'. session_step 16 1 0 (start_session True False None) st')"
  using session_succeeds [of 16 1 0 True False "start_session True False None"]
  by (simp add: maxUDPPayload_def start_main)

text \<open>
  C40. \<open>run\<close> accepts a payload of more than 65507 bytes for the channel scenario, but the packet buffers of
  the receive loops hold 65507 bytes: no schedule of such a session returns nil, and the session can
  always be run on until it returns the payload mismatch error.
\<close>

theorem oversize_session_fails:
  assumes "maxUDPPayload < n" "0 < R" "0 < sessions"
    and "(session_step n R sid)\<^sup>*\<^sup>* (start_session server_coin client_coin None) st"
  shows "run_checks \<lparr>cfg_mode = ''channel'', cfg_sessions = sessions, cfg_roundTrips = int R, cfg_payloadSize = int n\<rparr> =
      Inr [''channel''] \<and>
    ss_main st \<noteq> Finished None \<and>
    (\<exists>st'. (session_step n R sid)\<^sup>*\<^sup>* st st' \<and> ss_main st' = Finished (Some PayloadMismatch))"
proof -
  have n: "16 \<le> n" using assms(1) by (simp add: maxUDPPayload_def)
  have "run_checks \<lparr>cfg_mode = ''channel'', cfg_sessions = sessions, cfg_roundTrips = int R, cfg_payloadSize = int n\<rparr> =
      Inr [''channel'']"
    using assms n by (simp add: run_checks_def selectScenarios_def scenarios_def)
  moreover have fin: "res = Some PayloadMismatch"
    if "session_inv n R sid server_coin st" "ss_main st = Finished res" for st res
    using that assms(1) by (simp add: session_inv_def)
  moreover have inv: "session_inv n R sid server_coin st" using reach_inv [OF assms(4) start_inv n assms(2)] .
  ultimately show ?thesis
    using session_finishes [OF inv n assms(2)] reach_inv [OF _ inv n assms(2)] by (metis option.distinct(1))
qed

theorem oversize_session_fails_witness:
  "\<exists>st'. (session_step 65508 1 0)\<^sup>*\<^sup>* (start_session True True None) st' \<and> ss_main st' = Finished (Some PayloadMismatch)"
  using oversize_session_fails [of 65508 1 1 0 True True "start_session True True None"] by (simp add: maxUDPPayload_def)

end
